(* ===== verification/Prelude.thy ===== *)
theory Prelude
  imports Main "HOL-Library.Word" "HOL-Library.Char_ord" "HOL-Library.List_Lexorder"
    "HOL-Library.Sublist"
begin

text \<open>
  Shared vocabulary of the development.  The program is C++11 for x86-64 Linux: \<open>std::string\<close> is a
  byte string, modelled as \<^typ>\<open>string\<close>; \<open>uchar_t\<close> arrays are lists of 8-bit words; \<open>char\<close> is signed.
  The file holds the byte conversions, the C-string view of a \<open>std::string\<close>, the pieces of the C++
  standard library the sources call (\<open>stol\<close>, \<open>stoi\<close>, \<open>atoi\<close>, \<open>to_string\<close>, \<open>find\<close>, \<open>replace\<close>,
  \<open>boost::split\<close>), the error values of the model, and the lemma collections the components share.
\<close>

unbundle bit_operations_syntax

section \<open>Types and lemma collections\<close>

type_synonym byte = "8 word"
type_synonym u32 = "32 word"
type_synonym u64 = "64 word"
type_synonym i64 = "64 word"
type_synonym param_map = "string \<rightharpoonup> string"

text \<open>
  Errors as values.  A C++ exception is one of the first four constructors; \<open>MemoryFault\<close> marks an
  access outside the array the source declares, which in C++ is undefined behaviour.
\<close>

datatype cxx_error =
    InvalidArgument
  | OutOfRange
  | UrlError string
  | MtError string
  | MemoryFault

type_synonym 'a result = "cxx_error + 'a"

named_theorems byte_simps \<open>conversions between characters, bytes and numbers\<close>
named_theorems cstd_simps \<open>evaluation of the modelled C++ standard library\<close>

definition bind_result :: "'a result \<Rightarrow> ('a \<Rightarrow> 'b result) \<Rightarrow> 'b result" where
  "bind_result r f = (case r of Inl e \<Rightarrow> Inl e | Inr x \<Rightarrow> f x)"

lemma bind_result_simps [simp]:
  "bind_result (Inl e) f = Inl e"
  "bind_result (Inr x) f = f x"
  by (simp_all add: bind_result_def)

lemma bind_result_eq_Inr:
  "bind_result r f = Inr y \<longleftrightarrow> (\<exists>x. r = Inr x \<and> f x = Inr y)"
  by (cases r) auto

lemma bind_result_eq_Inl:
  "bind_result r f = Inl e \<longleftrightarrow> r = Inl e \<or> (\<exists>x. r = Inr x \<and> f x = Inl e)"
  by (cases r) auto

lemma bind_result_cong [fundef_cong]:
  "r = r' \<Longrightarrow> (\<And>x. r' = Inr x \<Longrightarrow> f x = g x) \<Longrightarrow> bind_result r f = bind_result r' g"
  by (cases r') auto

section \<open>Characters and bytes\<close>

abbreviation NUL :: char where
  "NUL \<equiv> CHR 0x00"

definition ord8 :: "char \<Rightarrow> byte" where
  "ord8 c = of_char c"

definition chr8 :: "byte \<Rightarrow> char" where
  "chr8 w = char_of (unat w)"

text \<open>The value of a C++ \<open>char\<close> after integer promotion on x86-64, where \<open>char\<close> is signed.\<close>

definition schar :: "char \<Rightarrow> int" where
  "schar c = (if of_char c < (128 :: nat) then int (of_char c) else int (of_char c) - 256)"

lemma unat_of_char_word [byte_simps]: "unat (of_char c :: byte) = of_char c"
proof -
  have "(of_char c :: byte) = of_nat (of_char c)"
    by (simp only: of_nat_of_char)
  moreover have "unat (of_nat (of_char c) :: byte) = of_char c"
    using nat_of_char_less_256 [of c] by (simp add: unat_of_nat)
  ultimately show ?thesis by simp
qed

lemma unat_ord8 [byte_simps]: "unat (ord8 c) = of_char c"
  by (simp add: ord8_def unat_of_char_word)

lemma unat_byte_less [simp]: "unat (w :: byte) < 256"
  using unsigned_less [of w, where ?'a = nat] by simp

lemma chr8_ord8 [simp]: "chr8 (ord8 c) = c"
  by (simp add: chr8_def unat_ord8)

lemma of_char_chr8 [byte_simps]: "(of_char (chr8 w) :: nat) = unat w"
  by (simp add: chr8_def)

lemma ord8_chr8 [simp]: "ord8 (chr8 w) = w"
  by (simp add: word_unat_eq_iff unat_ord8 of_char_chr8)

lemma map_ord8_chr8 [simp]: "map (ord8 \<circ> chr8) ws = ws"
  by (induction ws) auto

lemma map_chr8_ord8 [simp]: "map (chr8 \<circ> ord8) s = s"
  by (induction s) auto

lemma ord8_inject [simp]: "ord8 a = ord8 b \<longleftrightarrow> a = b"
  by (metis chr8_ord8)

lemma chr8_inject [simp]: "chr8 a = chr8 b \<longleftrightarrow> a = b"
  by (metis ord8_chr8)

lemma char_eq_of_char_nat: "c = d \<longleftrightarrow> (of_char c :: nat) = of_char d"
  by simp

lemma schar_ascii: "of_char c < (128 :: nat) \<Longrightarrow> schar c = int (of_char c)"
  by (simp add: schar_def)

lemma schar_high: "\<not> of_char c < (128 :: nat) \<Longrightarrow> schar c < 0"
  using nat_of_char_less_256 [of c] by (simp add: schar_def)

lemma schar_inject [simp]: "schar c = schar d \<longleftrightarrow> c = d"
proof
  assume eq: "schar c = schar d"
  have "x = y" if "x < 256" "y < 256"
    "(if x < 128 then int x else int x - 256) = (if y < 128 then int y else int y - 256)" for x y :: nat
    using that by (simp split: if_splits)
  from this [OF nat_of_char_less_256 nat_of_char_less_256] eq show "c = d"
    unfolding schar_def by simp
qed simp

section \<open>C strings\<close>

text \<open>
  Walking \<open>s.c_str()\<close> with a pointer until \<open>*p == '\0'\<close> sees the characters before the first NUL,
  whether that is one inside the string or the terminator after it.
\<close>

definition cstr :: "string \<Rightarrow> string" where
  "cstr s = takeWhile (\<lambda>c. c \<noteq> NUL) s"

lemma cstr_simps [simp]:
  "cstr [] = []"
  "cstr (c # s) = (if c = NUL then [] else c # cstr s)"
  by (simp_all add: cstr_def)

lemma NUL_notin_cstr [simp]: "NUL \<notin> set (cstr s)"
  by (auto simp: cstr_def dest: set_takeWhileD)

lemma cstr_id: "NUL \<notin> set s \<Longrightarrow> cstr s = s"
  unfolding cstr_def by (rule takeWhile_eq_all_conv [THEN iffD2]) auto

text \<open>Reading \<open>buf[i]\<close> of a NUL-terminated buffer: the terminator is readable, what follows is not.\<close>

definition char_at :: "string \<Rightarrow> nat \<Rightarrow> char option" where
  "char_at s i = (if i < length s then Some (s ! i) else if i = length s then Some NUL else None)"

section \<open>Decimal numbers: \<open>to_string\<close>, \<open>strtol\<close> and its users\<close>

definition int32_min :: int where "int32_min = - (2 ^ 31)"
definition int32_max :: int where "int32_max = 2 ^ 31 - 1"
definition int64_min :: int where "int64_min = - (2 ^ 63)"
definition int64_max :: int where "int64_max = 2 ^ 63 - 1"

lemmas int_limits = int32_min_def int32_max_def int64_min_def int64_max_def

definition is_digit_char :: "char \<Rightarrow> bool" where
  "is_digit_char c \<longleftrightarrow> 48 \<le> (of_char c :: nat) \<and> of_char c \<le> (57 :: nat)"

definition digit_char :: "nat \<Rightarrow> char" where
  "digit_char d = char_of (48 + d)"

definition digit_val :: "char \<Rightarrow> int" where
  "digit_val c = int (of_char c) - 48"

definition digits_val :: "string \<Rightarrow> int" where
  "digits_val ds = foldl (\<lambda>a c. a * 10 + digit_val c) 0 ds"

fun nat_to_string :: "nat \<Rightarrow> string" where
  "nat_to_string n =
     (if n < 10 then [digit_char n] else nat_to_string (n div 10) @ [digit_char (n mod 10)])"

declare nat_to_string.simps [simp del]

definition to_string :: "int \<Rightarrow> string" where
  "to_string i = (if i < 0 then CHR ''-'' # nat_to_string (nat (- i)) else nat_to_string (nat i))"

text \<open>\<open>std::hex\<close> output of an unsigned number.\<close>

fun nat_to_hex :: "nat \<Rightarrow> string" where
  "nat_to_hex n =
     (if n < 16 then [''0123456789abcdef'' ! n]
      else nat_to_hex (n div 16) @ [''0123456789abcdef'' ! (n mod 16)])"

declare nat_to_hex.simps [simp del]

definition is_space_char :: "char \<Rightarrow> bool" where
  "is_space_char c \<longleftrightarrow> c = CHR '' '' \<or> (9 \<le> (of_char c :: nat) \<and> of_char c \<le> (13 :: nat))"

text \<open>\<open>strtol\<close> with base 10: leading white space, an optional sign, digits; \<open>None\<close> without digits.\<close>

definition strtol_value :: "string \<Rightarrow> int option" where
  "strtol_value s =
     (let s1 = dropWhile is_space_char (cstr s);
          neg = (case s1 of c # _ \<Rightarrow> c = CHR ''-'' | [] \<Rightarrow> False);
          s2 = (case s1 of c # r \<Rightarrow> if c = CHR ''-'' \<or> c = CHR ''+'' then r else s1 | [] \<Rightarrow> []);
          ds = takeWhile is_digit_char s2
      in if ds = [] then None else Some (if neg then - digits_val ds else digits_val ds))"

definition stol :: "string \<Rightarrow> int result" where
  "stol s = (case strtol_value s of
       None \<Rightarrow> Inl InvalidArgument
     | Some v \<Rightarrow> if int64_min \<le> v \<and> v \<le> int64_max then Inr v else Inl OutOfRange)"

definition stoi :: "string \<Rightarrow> int result" where
  "stoi s = (case strtol_value s of
       None \<Rightarrow> Inl InvalidArgument
     | Some v \<Rightarrow> if int32_min \<le> v \<and> v \<le> int32_max then Inr v else Inl OutOfRange)"

text \<open>glibc's \<open>atoi\<close> is \<open>(int) strtol\<close>: the saturated 64-bit value, cut to 32 bits.\<close>

definition wrap32 :: "int \<Rightarrow> int" where
  "wrap32 v = (v + 2 ^ 31) mod 2 ^ 32 - 2 ^ 31"

definition atoi :: "string \<Rightarrow> int" where
  "atoi s = (case strtol_value s of
       None \<Rightarrow> 0
     | Some v \<Rightarrow> wrap32 (max int64_min (min int64_max v)))"

lemma is_digit_digit_char [simp]: "d < 10 \<Longrightarrow> is_digit_char (digit_char d)"
  by (simp add: is_digit_char_def digit_char_def)

lemma digit_val_digit_char [simp]: "d < 10 \<Longrightarrow> digit_val (digit_char d) = int d"
  by (simp add: digit_val_def digit_char_def)

lemma digits_val_snoc [simp]: "digits_val (ds @ [c]) = digits_val ds * 10 + digit_val c"
  by (simp add: digits_val_def)

lemma digits_val_singleton [simp]: "digits_val [c] = digit_val c"
  by (simp add: digits_val_def)

lemma nat_to_string_digits: "\<forall>c \<in> set (nat_to_string n). is_digit_char c"
proof (induction n rule: nat_to_string.induct)
  case (1 n)
  then show ?case
    by (cases "n < 10") (auto simp: nat_to_string.simps [of n])
qed

lemma nat_to_string_nonempty [simp]: "nat_to_string n \<noteq> []"
  by (simp add: nat_to_string.simps [of n])

lemma digits_val_nat_to_string [simp]: "digits_val (nat_to_string n) = int n"
proof (induction n rule: nat_to_string.induct)
  case (1 n)
  then show ?case
    by (cases "n < 10") (simp_all add: nat_to_string.simps [of n] zdiv_int zmod_int)
qed

lemma digit_not_special:
  assumes "is_digit_char c"
  shows "c \<noteq> NUL" "c \<noteq> CHR ''-''" "c \<noteq> CHR ''+''" "\<not> is_space_char c"
  using assms by (auto simp: is_digit_char_def is_space_char_def)

lemma digit_string_special:
  assumes "\<forall>c \<in> set ds. is_digit_char c"
  shows "NUL \<notin> set ds" "cstr ds = ds" "takeWhile is_digit_char ds = ds"
proof -
  show "NUL \<notin> set ds" using assms digit_not_special(1) by auto
  then show "cstr ds = ds" by (rule cstr_id)
  show "takeWhile is_digit_char ds = ds"
    using assms by (auto intro: takeWhile_eq_all_conv [THEN iffD2])
qed

lemma strtol_value_digits:
  assumes "\<forall>c \<in> set ds. is_digit_char c" "ds \<noteq> []"
  shows "strtol_value ds = Some (digits_val ds)"
proof -
  from assms(2) obtain d r where ds: "ds = d # r" by (cases ds) auto
  with assms(1) have "is_digit_char d" and r: "\<forall>c \<in> set r. is_digit_char c" by simp_all
  then have "dropWhile is_space_char ds = ds"
    using ds digit_not_special(4) by simp
  with ds show ?thesis
    using digit_not_special [OF \<open>is_digit_char d\<close>]
    by (simp add: strtol_value_def Let_def digit_string_special [OF r] \<open>is_digit_char d\<close>)
qed

lemma strtol_value_neg_digits:
  assumes "\<forall>c \<in> set ds. is_digit_char c" "ds \<noteq> []"
  shows "strtol_value (CHR ''-'' # ds) = Some (- digits_val ds)"
proof -
  have "\<not> is_space_char CHR ''-''" by (simp add: is_space_char_def)
  then show ?thesis
    using assms(2) by (simp add: strtol_value_def Let_def digit_string_special [OF assms(1)])
qed

lemma strtol_value_to_string [simp]: "strtol_value (to_string i) = Some i"
proof (cases "i < 0")
  case True
  then show ?thesis
    using strtol_value_neg_digits [OF nat_to_string_digits, of "nat (- i)"]
    by (simp add: to_string_def)
next
  case False
  then show ?thesis
    using strtol_value_digits [OF nat_to_string_digits, of "nat i"]
    by (simp add: to_string_def)
qed

text \<open>Digits followed by something else.\<close>

lemma strtol_value_then:
  assumes "\<forall>c \<in> set ds. is_digit_char c" "ds \<noteq> []" "r = [] \<or> \<not> is_digit_char (hd r)"
  shows "strtol_value (ds @ r) = Some (digits_val ds)"
proof -
  from assms(2) obtain d ds' where ds: "ds = d # ds'" by (cases ds) auto
  have "is_digit_char d" using ds assms(1) by simp
  note d = digit_not_special [OF this] this
  have c: "cstr (ds @ r) = ds @ cstr r"
    using digit_string_special(1) [OF assms(1)] by (auto simp: cstr_def takeWhile_append)
  have "takeWhile is_digit_char (cstr r) = []" using assms(3) by (cases r) (auto simp: cstr_def)
  then have "takeWhile is_digit_char (ds @ cstr r) = ds"
    using assms(1) digit_string_special(3) [OF assms(1)] by (simp add: takeWhile_append)
  then show ?thesis using ds d unfolding strtol_value_def c by (simp add: Let_def)
qed

lemma stol_to_string [simp]:
  "int64_min \<le> i \<Longrightarrow> i \<le> int64_max \<Longrightarrow> stol (to_string i) = Inr i"
  by (simp add: stol_def)

lemma stoi_to_string [simp]:
  "int32_min \<le> i \<Longrightarrow> i \<le> int32_max \<Longrightarrow> stoi (to_string i) = Inr i"
  by (simp add: stoi_def)

lemma to_string_nonempty [simp]: "to_string i \<noteq> []"
  by (simp add: to_string_def)

lemma to_string_inject [simp]: "to_string i = to_string j \<longleftrightarrow> i = j"
  by (metis strtol_value_to_string option.inject)

lemma set_to_string: "c \<in> set (to_string i) \<Longrightarrow> is_digit_char c \<or> c = CHR ''-''"
  using nat_to_string_digits by (auto simp: to_string_def split: if_splits)

lemma wrap32_id: "int32_min \<le> v \<Longrightarrow> v \<le> int32_max \<Longrightarrow> wrap32 v = v"
  by (simp add: wrap32_def int_limits)

lemma wrap32_range: "int32_min \<le> wrap32 v \<and> wrap32 v \<le> int32_max"
  by (simp add: wrap32_def int_limits)

lemma atoi_to_string [simp]:
  "int32_min \<le> i \<Longrightarrow> i \<le> int32_max \<Longrightarrow> atoi (to_string i) = i"
  by (simp add: atoi_def int_limits wrap32_def)

section \<open>\<open>std::string\<close> operations\<close>

fun find_sub :: "string \<Rightarrow> string \<Rightarrow> nat option" where
  "find_sub pat [] = (if pat = [] then Some 0 else None)"
| "find_sub pat (c # cs) =
     (if prefix pat (c # cs) then Some 0 else map_option Suc (find_sub pat cs))"

text \<open>\<open>s.find(pat, start)\<close>: the least position not below \<open>start\<close> where \<open>pat\<close> occurs; \<open>None\<close> is \<open>npos\<close>.\<close>

definition str_find :: "string \<Rightarrow> string \<Rightarrow> nat \<Rightarrow> nat option" where
  "str_find s pat start =
     (if length s < start then None else map_option ((+) start) (find_sub pat (drop start s)))"

definition str_contains :: "string \<Rightarrow> string \<Rightarrow> bool" where
  "str_contains s pat \<longleftrightarrow> find_sub pat s \<noteq> None"

text \<open>\<open>s.replace(pos, n, to)\<close> at a position inside the string.\<close>

definition str_replace :: "string \<Rightarrow> nat \<Rightarrow> nat \<Rightarrow> string \<Rightarrow> string" where
  "str_replace s pos n t = take pos s @ t @ drop (pos + n) s"

lemma find_sub_SomeD:
  "find_sub pat s = Some i \<Longrightarrow>
     prefix pat (drop i s) \<and> i \<le> length s \<and> (\<forall>j<i. \<not> prefix pat (drop j s))"
proof (induction s arbitrary: i)
  case Nil
  then show ?case by (simp split: if_splits)
next
  case (Cons c cs)
  show ?case
  proof (cases "prefix pat (c # cs)")
    case True
    with Cons.prems show ?thesis by simp
  next
    case False
    with Cons.prems obtain k where k: "find_sub pat cs = Some k" "i = Suc k" by auto
    have "\<not> prefix pat (drop j (c # cs))" if "j < i" for j
      using that False Cons.IH [OF k(1)] k(2) by (cases j) auto
    with Cons.IH [OF k(1)] k(2) show ?thesis by auto
  qed
qed

lemma find_sub_NoneD: "find_sub pat s = None \<Longrightarrow> \<not> prefix pat (drop j s) \<or> pat = []"
proof (induction s arbitrary: j)
  case Nil
  then show ?case by (simp split: if_splits)
next
  case (Cons c cs)
  then show ?case by (cases j) (auto split: if_splits)
qed

lemma find_sub_None_iff: "find_sub pat s = None \<longleftrightarrow> \<not> (\<exists>us vs. s = us @ pat @ vs)"
proof
  assume none: "find_sub pat s = None"
  show "\<not> (\<exists>us vs. s = us @ pat @ vs)"
  proof
    assume "\<exists>us vs. s = us @ pat @ vs"
    then obtain us vs where "s = us @ pat @ vs" by blast
    then have "prefix pat (drop (length us) s)" by simp
    with none have "pat = []" using find_sub_NoneD by blast
    with none show False by (cases s) auto
  qed
next
  assume no: "\<not> (\<exists>us vs. s = us @ pat @ vs)"
  show "find_sub pat s = None"
  proof (rule ccontr)
    assume "find_sub pat s \<noteq> None"
    then obtain i where "find_sub pat s = Some i" by auto
    then have "prefix pat (drop i s)" using find_sub_SomeD by blast
    then obtain vs where "drop i s = pat @ vs" by (auto elim: prefixE)
    then have "s = take i s @ pat @ vs" by (metis append_take_drop_id)
    with no show False by blast
  qed
qed

lemma str_contains_iff: "str_contains s pat \<longleftrightarrow> (\<exists>us vs. s = us @ pat @ vs)"
  by (simp add: str_contains_def) (metis find_sub_None_iff option.discI option.exhaust_sel)

text \<open>\<open>boost::split\<close> with \<open>is_any_of\<close> and no token compression.\<close>

fun split_any :: "string \<Rightarrow> string \<Rightarrow> string list" where
  "split_any ds [] = [[]]"
| "split_any ds (c # cs) =
     (if c \<in> set ds then [] # split_any ds cs
      else (case split_any ds cs of [] \<Rightarrow> [[c]] | t # ts \<Rightarrow> (c # t) # ts))"

lemma split_any_nonempty [simp]: "split_any ds s \<noteq> []"
  by (cases s) (auto split: list.splits)

lemma split_any_no_delim: "set t \<inter> set ds = {} \<Longrightarrow> split_any ds t = [t]"
  by (induction t) auto

lemma split_any_append:
  "set t \<inter> set ds = {} \<Longrightarrow> d \<in> set ds \<Longrightarrow> split_any ds (t @ d # s) = t # split_any ds s"
  by (induction t) auto

end
