(* ===== verification/Bin_Search.thy ===== *)
theory Bin_Search
  imports Prelude
begin

text \<open>
  The binary search loop.  Four routines of the program run the same loop over a half-open pair of
  indices and differ only in the comparison and in what they do with the final pair:
  \<open>cypher::bSearch\<close> (utility/cypher.cpp), \<open>bSearch\<close> of core_scenario_manager.cpp,
  \<open>Executor::getThreadSeqId\<close> (core_executor.cpp) and \<open>HandleBidQueryTask::getAdxId\<close>
  (bid_query_task.cpp).  The loop is defined here with the comparison as a parameter; each routine is
  defined in its own component from it.  Two locales carry the proofs: one for a monotone comparison,
  one for an array with sorted keys.
\<close>

function bs_loop :: "(int \<Rightarrow> bool) \<Rightarrow> int \<Rightarrow> int \<Rightarrow> int \<times> int" where
  "bs_loop P l h =
     (if l \<le> h then
        (let mid = l + (h - l) div 2
         in if P mid then bs_loop P l (mid - 1) else bs_loop P (mid + 1) h)
      else (l, h))"
  by pat_completeness auto
termination
  by (relation "measure (\<lambda>(P, l, h). nat (h - l + 1))") auto

declare bs_loop.simps [simp del]

lemma bs_loop_exit: "h < l \<Longrightarrow> bs_loop P l h = (l, h)"
  by (simp add: bs_loop.simps)

section \<open>A monotone comparison\<close>

locale monotone_search =
  fixes P :: "int \<Rightarrow> bool" and n :: int
  assumes size_nonneg: "0 \<le> n"
    and mono: "0 \<le> i \<Longrightarrow> i \<le> j \<Longrightarrow> j < n \<Longrightarrow> P i \<Longrightarrow> P j"
begin

text \<open>The loop invariant: everything left of \<open>l\<close> fails the test, everything right of \<open>h\<close> passes it.\<close>

definition loop_inv :: "int \<Rightarrow> int \<Rightarrow> bool" where
  "loop_inv l h \<longleftrightarrow> 0 \<le> l \<and> l \<le> h + 1 \<and> h < n \<and>
     (\<forall>i. 0 \<le> i \<and> i < l \<longrightarrow> \<not> P i) \<and> (\<forall>i. h < i \<and> i < n \<longrightarrow> P i)"

lemma loop_inv_left:
  assumes "loop_inv l h" "l \<le> m" "m \<le> h" "P m"
  shows "loop_inv l (m - 1)"
proof -
  have "P i" if "m - 1 < i" "i < n" for i
  proof (cases "h < i")
    case True
    with that assms(1) show ?thesis by (simp add: loop_inv_def)
  next
    case False
    with that assms show ?thesis using mono [of m i] by (auto simp: loop_inv_def)
  qed
  with assms show ?thesis by (simp add: loop_inv_def)
qed

lemma loop_inv_right:
  assumes "loop_inv l h" "l \<le> m" "m \<le> h" "\<not> P m"
  shows "loop_inv (m + 1) h"
proof -
  have "\<not> P i" if "0 \<le> i" "i < m + 1" for i
    using that assms mono [of i m] by (auto simp: loop_inv_def)
  with assms show ?thesis by (simp add: loop_inv_def)
qed

lemma bs_loop_inv:
  "loop_inv l h \<Longrightarrow> bs_loop P l h = (l', h') \<Longrightarrow> loop_inv l' h' \<and> h' < l'"
proof (induction "nat (h - l + 1)" arbitrary: l h rule: less_induct)
  case less
  let ?m = "l + (h - l) div 2"
  show ?case
  proof (cases "l \<le> h")
    case False
    with less.prems show ?thesis by (simp add: bs_loop.simps [of P l h])
  next
    case True
    then have m: "l \<le> ?m" "?m \<le> h" by simp_all
    show ?thesis
    proof (cases "P ?m")
      case True
      with \<open>l \<le> h\<close> less.prems(2) have "bs_loop P l (?m - 1) = (l', h')"
        by (simp add: bs_loop.simps [of P l h] Let_def)
      moreover have "nat (?m - 1 - l + 1) < nat (h - l + 1)" using m by simp
      ultimately show ?thesis
        using less.hyps loop_inv_left [OF less.prems(1) m True] by blast
    next
      case False
      with \<open>l \<le> h\<close> less.prems(2) have "bs_loop P (?m + 1) h = (l', h')"
        by (simp add: bs_loop.simps [of P l h] Let_def)
      moreover have "nat (h - (?m + 1) + 1) < nat (h - l + 1)" using m by simp
      ultimately show ?thesis
        using less.hyps loop_inv_right [OF less.prems(1) m False] by blast
    qed
  qed
qed

text \<open>Total correctness: the loop ends with \<open>h + 1 = l\<close>, the first index that passes the test.\<close>

lemma bs_loop_spec:
  obtains l where "bs_loop P 0 (n - 1) = (l, l - 1)" "0 \<le> l" "l \<le> n"
    "\<And>i. 0 \<le> i \<Longrightarrow> i < l \<Longrightarrow> \<not> P i" "\<And>i. l \<le> i \<Longrightarrow> i < n \<Longrightarrow> P i"
proof -
  obtain l h where r: "bs_loop P 0 (n - 1) = (l, h)" by fastforce
  have "loop_inv 0 (n - 1)" using size_nonneg by (auto simp: loop_inv_def)
  with r have inv: "loop_inv l h" "h < l" using bs_loop_inv by blast+
  then have "h = l - 1" by (simp add: loop_inv_def)
  show thesis
    by (rule that [of l]) (use r inv \<open>h = l - 1\<close> in \<open>auto simp: loop_inv_def\<close>)
qed

end

section \<open>An array with sorted keys\<close>

locale sorted_keys =
  fixes key_at :: "int \<Rightarrow> 'k :: linorder" and n :: int
  assumes size_nonneg: "0 \<le> n"
    and sorted: "0 \<le> i \<Longrightarrow> i \<le> j \<Longrightarrow> j < n \<Longrightarrow> key_at i \<le> key_at j"

sublocale sorted_keys \<subseteq> lower: monotone_search "\<lambda>i. k \<le> key_at i" n for k
  by unfold_locales (use size_nonneg sorted in \<open>auto intro: order_trans\<close>)

sublocale sorted_keys \<subseteq> upper: monotone_search "\<lambda>i. k < key_at i" n for k
  by unfold_locales (use size_nonneg sorted in \<open>auto intro: less_le_trans\<close>)

context sorted_keys
begin

text \<open>With \<open>key <= a[mid]\<close> the loop ends at the first element equal to the key, if there is one.\<close>

lemma lower_hit:
  assumes "bs_loop (\<lambda>i. k \<le> key_at i) 0 (n - 1) = (l, h)" "0 \<le> i" "i < n" "key_at i = k"
  shows "0 \<le> l \<and> l \<le> i \<and> key_at l = k"
proof -
  obtain l' where l': "bs_loop (\<lambda>i. k \<le> key_at i) 0 (n - 1) = (l', l' - 1)" "0 \<le> l'" "l' \<le> n"
    "\<And>i. 0 \<le> i \<Longrightarrow> i < l' \<Longrightarrow> \<not> k \<le> key_at i" "\<And>i. l' \<le> i \<Longrightarrow> i < n \<Longrightarrow> k \<le> key_at i"
    using lower.bs_loop_spec by blast
  with assms have l: "l = l'" by simp
  have "l' \<le> i" using l'(4) [of i] assms(2,4) by force
  moreover have "k \<le> key_at l'" using l'(5) \<open>l' \<le> i\<close> assms(3) by simp
  moreover have "key_at l' \<le> k" using sorted [of l' i] \<open>l' \<le> i\<close> l'(2) assms(3,4) by simp
  ultimately show ?thesis using l l'(2) by simp
qed

lemma lower_bounds:
  assumes "bs_loop (\<lambda>i. k \<le> key_at i) 0 (n - 1) = (l, h)"
  shows "0 \<le> l \<and> l \<le> n"
  using lower.bs_loop_spec [of k] assms by (metis prod.inject)

text \<open>With \<open>a[mid] > key\<close> the final \<open>h\<close> is the last element not above the key, or \<open>-1\<close>.\<close>

lemma upper_spec:
  assumes "bs_loop (\<lambda>i. k < key_at i) 0 (n - 1) = (l, h)"
  shows "-1 \<le> h" "h < n" "\<And>i. 0 \<le> i \<Longrightarrow> i \<le> h \<Longrightarrow> key_at i \<le> k"
    "\<And>i. h < i \<Longrightarrow> i < n \<Longrightarrow> k < key_at i"
proof -
  obtain l' where l': "bs_loop (\<lambda>i. k < key_at i) 0 (n - 1) = (l', l' - 1)" "0 \<le> l'" "l' \<le> n"
    "\<And>i. 0 \<le> i \<Longrightarrow> i < l' \<Longrightarrow> \<not> k < key_at i" "\<And>i. l' \<le> i \<Longrightarrow> i < n \<Longrightarrow> k < key_at i"
    using upper.bs_loop_spec by blast
  with assms have h: "h = l' - 1" by simp
  show "-1 \<le> h" "h < n" using h l'(2,3) by simp_all
  show "\<And>i. 0 \<le> i \<Longrightarrow> i \<le> h \<Longrightarrow> key_at i \<le> k" using h l'(4) by force
  show "\<And>i. h < i \<Longrightarrow> i < n \<Longrightarrow> k < key_at i" using h l'(5) by simp
qed

end

end
