(* ===== verification/Cypher.thy ===== *)
theory Cypher
  imports Bin_Search
begin

text \<open>
  Model of utility/cypher.h and utility/cypher.cpp: the little-endian hex printer and its readers, the
  cookie cipher (a nibble substitution over four tables, inverted by binary search over sorted copies
  of the tables), the offline generator of those tables, and the identifier builders on top of them.
  CryptoPP (base64, AES, MD5) is outside the repository and is a parameter where it is called.
\<close>

section \<open>Hex strings\<close>

text \<open>\<open>toHex\<close>: for every byte the low nibble first, then the high nibble.\<close>

definition hexMap_upper :: string where
  "hexMap_upper = ''0123456789ABCDEF''"

definition hexMap_lower :: string where
  "hexMap_lower = ''0123456789abcdef''"

fun toHex_loop :: "string \<Rightarrow> byte list \<Rightarrow> string" where
  "toHex_loop hexMap [] = []"
| "toHex_loop hexMap (b # bs) =
     hexMap ! unat (b AND 0x0F) # hexMap ! unat (drop_bit 4 b) # toHex_loop hexMap bs"

definition toHex :: "byte list \<Rightarrow> string" where
  "toHex input = toHex_loop hexMap_upper input"

definition toHex_case :: "bool \<Rightarrow> byte list \<Rightarrow> string" where
  "toHex_case isCapital input =
     (if isCapital then toHex input else toHex_loop hexMap_lower input)"

text \<open>
  \<open>fromHex\<close>: character \<open>i\<close> fills one nibble of byte \<open>i >> 1\<close>; an even \<open>i\<close> clears the byte first.  The
  shift and the mask are computed on \<open>int\<close>, so a character outside the digits is cut to four bits.
\<close>

definition fromHex_nibble :: "char \<Rightarrow> bool \<Rightarrow> byte" where
  "fromHex_nibble c odd_i =
     (let v = (if schar c < schar CHR ''A'' then schar c - schar CHR ''0''
               else schar c - schar CHR ''A'' + 10)
      in word_of_int (push_bit (if odd_i then 4 else 0) v AND (if odd_i then 0xF0 else 0x0F)))"

fun fromHex_loop :: "string \<Rightarrow> nat \<Rightarrow> byte list \<Rightarrow> byte list" where
  "fromHex_loop [] i result = result"
| "fromHex_loop (c # cs) i result =
     (let j = i div 2;
          cleared = (if even i then result[j := 0] else result)
      in fromHex_loop cs (Suc i) (cleared[j := cleared ! j OR fromHex_nibble c (odd i)]))"

definition fromHex :: "string \<Rightarrow> byte list \<Rightarrow> byte list" where
  "fromHex hexInput result = fromHex_loop hexInput 0 result"

text \<open>\<open>fromLittleEndiumHex\<close>: the nibble order of tcpdump, high nibble first; either case of letters.\<close>

definition fromLEHex_nibble :: "bool \<Rightarrow> char \<Rightarrow> bool \<Rightarrow> byte" where
  "fromLEHex_nibble capital c odd_i =
     (let base = (if capital then schar CHR ''A'' else schar CHR ''a'');
          v = (if schar c < base then schar c - schar CHR ''0'' else schar c - base + 10)
      in word_of_int (push_bit (if odd_i then 0 else 4) v AND (if odd_i then 0x0F else 0xF0)))"

fun fromLEHex_loop :: "bool \<Rightarrow> string \<Rightarrow> nat \<Rightarrow> byte list \<Rightarrow> byte list" where
  "fromLEHex_loop capital [] i result = result"
| "fromLEHex_loop capital (c # cs) i result =
     (let j = i div 2;
          cleared = (if even i then result[j := 0] else result)
      in fromLEHex_loop capital cs (Suc i)
           (cleared[j := cleared ! j OR fromLEHex_nibble capital c (odd i)]))"

text \<open>The \<open>assert\<close> on the size of the output array is the error branch.\<close>

definition fromLittleEndiumHex ::
  "bool \<Rightarrow> string \<Rightarrow> byte list \<Rightarrow> int \<Rightarrow> (byte list \<times> int) result" where
  "fromLittleEndiumHex capital hexInput result outSize =
     (let sz = int (length hexInput);
          needSize = (if odd sz then sz div 2 + 1 else sz div 2)
      in if outSize < needSize then Inl MemoryFault
         else Inr (fromLEHex_loop capital hexInput 0 result, needSize))"

text \<open>
  \<open>toHexReadable\<close> turns the output of \<open>toHex\<close> around in place: the 16-bit units are reversed with the
  three-XOR exchange, then the two characters of every unit are exchanged the same way.  The buffer is
  the array of characters as bytes; a 16-bit unit is two neighbouring bytes.
\<close>

definition xor_at :: "byte list \<Rightarrow> nat \<Rightarrow> nat \<Rightarrow> byte list" where
  "xor_at a i j = a[i := a ! i XOR a ! j]"

definition xor_swap :: "byte list \<Rightarrow> nat \<Rightarrow> nat \<Rightarrow> byte list" where
  "xor_swap a i j = xor_at (xor_at (xor_at a i j) j i) i j"

definition xor16_at :: "byte list \<Rightarrow> nat \<Rightarrow> nat \<Rightarrow> byte list" where
  "xor16_at a i j = xor_at (xor_at a (2 * i) (2 * j)) (2 * i + 1) (2 * j + 1)"

definition xor16_swap :: "byte list \<Rightarrow> nat \<Rightarrow> nat \<Rightarrow> byte list" where
  "xor16_swap a i j = xor16_at (xor16_at (xor16_at a i j) j i) i j"

function reverse16_loop :: "byte list \<Rightarrow> int \<Rightarrow> int \<Rightarrow> byte list" where
  "reverse16_loop a i j =
     (if i < j then reverse16_loop (xor16_swap a (nat i) (nat j)) (i + 1) (j - 1) else a)"
  by pat_completeness auto
termination
  by (relation "measure (\<lambda>(a, i, j). nat (j - i))") auto

function swap_pairs_loop :: "byte list \<Rightarrow> int \<Rightarrow> byte list" where
  "swap_pairs_loop a i =
     (if 0 < i then swap_pairs_loop (xor_swap a (nat i) (nat i - 1)) (i - 2) else a)"
  by pat_completeness auto
termination
  by (relation "measure (\<lambda>(a, i). nat i)") auto

declare reverse16_loop.simps [simp del] swap_pairs_loop.simps [simp del]

definition toHexReadable :: "byte list \<Rightarrow> string" where
  "toHexReadable input =
     (let sz = int (length input);
          a = reverse16_loop (map ord8 (toHex input)) 0 (sz - 1)
      in map chr8 (swap_pairs_loop a (2 * sz - 1)))"

text \<open>\<open>hexToReadable\<close>: the same for a finished hex string; an odd last character is dropped.\<close>

fun hexToReadable_units :: "string \<Rightarrow> string" where
  "hexToReadable_units (c1 # c2 # cs) = hexToReadable_units cs @ [c1, c2]"
| "hexToReadable_units cs = []"

definition hexToReadable :: "string \<Rightarrow> string" where
  "hexToReadable hexString =
     (let sz = 2 * (int (length hexString) div 2)
      in map chr8 (swap_pairs_loop (map ord8 (hexToReadable_units hexString)) (sz - 1)))"

section \<open>Identifiers and prices\<close>

text \<open>
  \<open>urlsafe_base64decode\<close> maps the two URL-safe characters back and hands the rest to the base64 decoder
  \<open>b64\<close>, whose output is appended to \<open>output\<close>.
\<close>

definition urlsafe_base64decode :: "(string \<Rightarrow> string) \<Rightarrow> string \<Rightarrow> string \<Rightarrow> string" where
  "urlsafe_base64decode b64 input out =
     out @ b64 (map (\<lambda>c. if c = CHR ''-'' then CHR ''+'' else if c = CHR ''_'' then CHR ''/'' else c)
       input)"

definition md5_encode :: "(string \<Rightarrow> string option) \<Rightarrow> string \<Rightarrow> string" where
  "md5_encode md5_hex input =
     (if input = [] then input
      else case md5_hex input of Some digest \<Rightarrow> digest | None \<Rightarrow> input)"

definition encodePrice :: "(string \<Rightarrow> string) \<Rightarrow> int \<Rightarrow> bool \<Rightarrow> string" where
  "encodePrice aes price useAes = (if \<not> useAes then to_string price else aes (to_string price))"

section \<open>The cookie cipher\<close>

definition cypherMap :: "string list" where
  "cypherMap = [''6FXDeNRgys4q=9UY'', ''1oiBCaw3jv_AzMJm'',
                ''OkMtd7xTufnIKPhH'', ''5L8V0EbSlGQZrc2p'']"

definition cypherSortMap :: "string list" where
  "cypherSortMap = [''469=DFNRUXYegqsy'', ''13ABCJM_aijmovwz'',
                    ''7HIKMOPTdfhkntux'', ''0258EGLQSVZbclpr'']"

definition cypherPosMap :: "nat list list" where
  "cypherPosMap =
     [[10, 0, 13, 12, 3, 1, 5, 6, 14, 2, 15, 4, 7, 11, 9, 8],
      [0, 7, 11, 3, 4, 14, 13, 10, 5, 2, 8, 15, 1, 9, 6, 12],
      [5, 15, 11, 12, 2, 0, 13, 7, 4, 9, 14, 1, 10, 3, 8, 6],
      [4, 14, 0, 2, 5, 9, 1, 10, 7, 3, 11, 6, 13, 8, 15, 12]]"

text \<open>\<open>bSearch<const char>\<close>: the shared loop, then the check that turns a miss into \<open>-1\<close>.\<close>

definition bSearch :: "string \<Rightarrow> int \<Rightarrow> char \<Rightarrow> int" where
  "bSearch array n key =
     (let l = fst (bs_loop (\<lambda>mid. schar key \<le> schar (array ! nat mid)) 0 (n - 1))
      in if 0 \<le> l \<and> l < n \<and> array ! nat l = key then l else -1)"

text \<open>
  \<open>cookiesEncode\<close> writes \<open>2 * size\<close> bytes into the 16-byte union and leaves the rest as it was.
\<close>

fun cookiesEncode_loop :: "byte list \<Rightarrow> nat \<Rightarrow> byte list" where
  "cookiesEncode_loop [] j = []"
| "cookiesEncode_loop (b # bs) j =
     ord8 (cypherMap ! (j mod 4) ! unat (b AND 0x0F))
     # ord8 (cypherMap ! (Suc j mod 4) ! unat (drop_bit 4 b))
     # cookiesEncode_loop bs (j + 2)"

definition cookiesEncode :: "byte list \<Rightarrow> byte list \<Rightarrow> byte list result" where
  "cookiesEncode input result =
     (if 8 < length input then Inl (MtError ''cookiesEncode size > 8'')
      else let out = cookiesEncode_loop input 0 in Inr (out @ drop (length out) result))"

text \<open>\<open>cookiesDecode\<close>: 16 lookups, each contributing one nibble; \<open>None\<close> is the return value \<open>false\<close>.\<close>

function cookiesDecode_loop :: "byte list \<Rightarrow> nat \<Rightarrow> byte list \<Rightarrow> byte list option" where
  "cookiesDecode_loop bytes i output =
     (if i < 16 then
        (let j = i div 2;
             idx = bSearch (cypherSortMap ! (i mod 4)) 16 (chr8 (bytes ! i))
         in if idx < 0 \<or> idx > 15 then None
            else cookiesDecode_loop bytes (Suc i)
              (output[j := output ! j OR
                 word_of_int (push_bit (if odd i then 4 else 0)
                     (int (cypherPosMap ! (i mod 4) ! nat idx))
                   AND (if odd i then 0xF0 else 0x0F))]))
      else Some output)"
  by pat_completeness auto
termination
  by (relation "measure (\<lambda>(bytes, i, output). 16 - i)") auto

declare cookiesDecode_loop.simps [simp del]

definition cookiesDecode :: "byte list \<Rightarrow> int \<Rightarrow> (byte list \<times> int) option" where
  "cookiesDecode input sz =
     (if sz < 8 then None
      else map_option (\<lambda>out. (out, 8)) (cookiesDecode_loop input 0 (replicate 8 0)))"

text \<open>The little-endian bytes of an \<open>int\<close>, as the unions of \<open>makeCookies\<close> read them.\<close>

definition int_bytes :: "u32 \<Rightarrow> byte list" where
  "int_bytes w = map (\<lambda>i. ucast (drop_bit (8 * i) w)) [0, 1, 2, 3]"

text \<open>
  \<open>randomId\<close>: every random number prints as eight lower-case hex characters; the final write puts the NUL
  one position before the end, so that the string ends one character early.  The local buffer has 256
  bytes.
\<close>

definition randomId :: "u32 list \<Rightarrow> string result" where
  "randomId rs =
     (let written = concat (map (\<lambda>r. toHex_case False (int_bytes r)) rs)
      in if 256 < length written + 1 then Inl MemoryFault
         else Inr (butlast written))"

definition makeCookiesPublic :: "u32 \<Rightarrow> u32 \<Rightarrow> string \<times> int" where
  "makeCookiesPublic key1 key2 = (toHex (int_bytes key1 @ int_bytes key2), 16)"

text \<open>
  \<open>makeCookies\<close>: the 16 cipher bytes of time and random number, closed by a NUL in \<open>char_bytes[16]\<close>.
  The time \<open>key1\<close> and the random number \<open>key2\<close> are arguments; \<open>result\<close> is the 20-byte union.
\<close>

definition makeCookies :: "u32 \<Rightarrow> u32 \<Rightarrow> byte list \<Rightarrow> byte list result" where
  "makeCookies key1 key2 result =
     bind_result (cookiesEncode (int_bytes key1 @ int_bytes key2) result)
       (\<lambda>r. Inr (r[16 := 0]))"

section \<open>The table generator\<close>

text \<open>
  \<open>CypherMapGenerator::regenerate\<close> sorts the indices of each row by the row's characters and derives
  the sorted row and the position row from the sorted indices.
\<close>

record cypher_generator =
  gen_cypherMap :: "string list"
  gen_cypherSortMap :: "string list"
  gen_cypherPosMap :: "nat list list"
  gen_indexMap :: "nat list list"

definition regenerate :: "cypher_generator \<Rightarrow> cypher_generator" where
  "regenerate g =
     (let index = map (\<lambda>row. sort_key (\<lambda>i. schar (row ! i)) [0..<16]) (gen_cypherMap g)
      in g\<lparr>gen_indexMap := index,
           gen_cypherSortMap := map2 (\<lambda>row idx. map ((!) row) idx) (gen_cypherMap g) index,
           gen_cypherPosMap := index\<rparr>)"

text \<open>The constructor cuts the shuffled 64 characters into four rows of 16.\<close>

definition CypherMapGenerator :: "string \<Rightarrow> cypher_generator" where
  "CypherMapGenerator randomString =
     regenerate \<lparr>gen_cypherMap = map (\<lambda>i. take 16 (drop (16 * i) randomString)) [0..<4],
       gen_cypherSortMap = [], gen_cypherPosMap = [], gen_indexMap = []\<rparr>"

definition randomCharSequence_keys :: string where
  "randomCharSequence_keys =
     ''abcdefghijklmnopqrstuvwxyzABCDMEFGHIJKLMNOPQRSTUVXYZ=1234567890_''"

section \<open>Binary search and the tables\<close>

lemma sorted_keys_schar:
  assumes "sorted (map schar a)"
  shows "sorted_keys (\<lambda>i. schar (a ! nat i)) (int (length a))"
proof
  fix i j :: int
  assume "0 \<le> i" "i \<le> j" "j < int (length a)"
  then show "schar (a ! nat i) \<le> schar (a ! nat j)"
    using sorted_nth_mono [OF assms, of "nat i" "nat j"] by simp
qed simp

lemma bSearch_hit:
  assumes "sorted (map schar a)" "i < length a"
  obtains l where "bSearch a (int (length a)) (a ! i) = int l" "l \<le> i" "a ! l = a ! i"
proof -
  obtain l h where lh: "bs_loop (\<lambda>m. schar (a ! i) \<le> schar (a ! nat m)) 0 (int (length a) - 1) = (l, h)"
    by fastforce
  have "0 \<le> l \<and> l \<le> int i \<and> schar (a ! nat l) = schar (a ! i)"
    using sorted_keys.lower_hit [OF sorted_keys_schar [OF assms(1)] lh, of "int i"] assms(2) by simp
  with lh assms(2) show thesis
    by (intro that [of "nat l"]) (auto simp: bSearch_def)
qed

lemma bSearch_miss: "c \<notin> set a \<Longrightarrow> bSearch a (int (length a)) c = -1"
  by (auto simp: bSearch_def Let_def) (metis nat_less_iff nth_mem)

lemma sort_rows:
  "sorted (map schar (cypherSortMap ! (r mod 4)))" "length (cypherSortMap ! (r mod 4)) = 16"
  "distinct (cypherSortMap ! (r mod 4))" 
proof -
  have "r mod 4 \<in> {0, 1, 2, 3}" by auto
  then show "sorted (map schar (cypherSortMap ! (r mod 4)))" "length (cypherSortMap ! (r mod 4)) = 16"
  "distinct (cypherSortMap ! (r mod 4))"
    by (auto simp: cypherSortMap_def schar_def)
qed

lemma pos_rows:
  "n < 16 \<Longrightarrow> cypherPosMap ! (r mod 4) ! n < 16"
  "n < 16 \<Longrightarrow> cypherMap ! (r mod 4) ! (cypherPosMap ! (r mod 4) ! n) = cypherSortMap ! (r mod 4) ! n"
  "n < 16 \<Longrightarrow> \<exists>m<16. cypherPosMap ! (r mod 4) ! m = n"
proof -
  have *: "\<forall>r<4. \<forall>n<16. cypherPosMap ! r ! n < 16 \<and>
     cypherMap ! r ! (cypherPosMap ! r ! n) = cypherSortMap ! r ! n \<and> (\<exists>m<16. cypherPosMap ! r ! m = n)"
    by code_simp
  have "r mod 4 < 4" by simp
  with * show "n < 16 \<Longrightarrow> cypherPosMap ! (r mod 4) ! n < 16"
  "n < 16 \<Longrightarrow> cypherMap ! (r mod 4) ! (cypherPosMap ! (r mod 4) ! n) = cypherSortMap ! (r mod 4) ! n"
  "n < 16 \<Longrightarrow> \<exists>m<16. cypherPosMap ! (r mod 4) ! m = n"
    by blast+
qed

section \<open>Decoding the cookie cipher\<close>

text \<open>Each row of the sorted table meets the contract of the binary search.\<close>

interpretation sort_row: sorted_keys "\<lambda>i. schar (cypherSortMap ! (r mod 4) ! nat i)" 16 for r
  using sorted_keys_schar [OF sort_rows(1), of r] sort_rows(2) [of r] by simp

definition nibble_of :: "nat \<Rightarrow> char \<Rightarrow> nat option" where
  "nibble_of r c =
     (let idx = bSearch (cypherSortMap ! (r mod 4)) 16 c
      in if idx < 0 \<or> idx > 15 then None else Some (cypherPosMap ! (r mod 4) ! nat idx))"

lemma nibble_of_iff: "nibble_of r c = Some v \<longleftrightarrow> v < 16 \<and> c = cypherMap ! (r mod 4) ! v"
proof -
  let ?a = "cypherSortMap ! (r mod 4)"
  have len: "int (length ?a) = 16" using sort_rows(2) by simp
  show ?thesis
  proof (cases "c \<in> set ?a")
    case False
    then have "nibble_of r c = None"
      using bSearch_miss [of c ?a] len by (simp add: nibble_of_def)
    moreover have "c \<noteq> cypherMap ! (r mod 4) ! v" if "v < 16"
      using False pos_rows [OF that, of r] sort_rows(2) by (metis nth_mem pos_rows(2))
    ultimately show ?thesis by auto
  next
    case True
    then obtain i where i: "i < 16" "c = ?a ! i"
      using sort_rows(2) [of r] by (auto simp: in_set_conv_nth)
    obtain l where l: "bSearch ?a 16 c = int l" "l \<le> i" "?a ! l = c"
      using bSearch_hit [OF sort_rows(1), of i r] i sort_rows(2) len by metis
    then have "nibble_of r c = Some (cypherPosMap ! (r mod 4) ! l)"
      using i by (simp add: nibble_of_def)
    moreover have "cypherPosMap ! (r mod 4) ! l = v" if "v < 16" "c = cypherMap ! (r mod 4) ! v"
    proof -
      obtain m where m: "m < 16" "cypherPosMap ! (r mod 4) ! m = v" using pos_rows(3) \<open>v < 16\<close> by blast
      then have "?a ! m = ?a ! l" using that l pos_rows(2) [of m r] by simp
      then have "m = l" using m l i sort_rows(2,3) [of r] by (simp add: nth_eq_iff_index_eq)
      with m show ?thesis by simp
    qed
    ultimately show ?thesis using l i pos_rows [of l r] by auto
  qed
qed

lemma byte_mask4: "(0x0F :: byte) = mask 4"
  by (simp add: mask_eq_exp_minus_1)

lemma nibbles_join [simp]: "(b AND 0x0F) OR push_bit 4 (drop_bit 4 b) = (b :: byte)"
  unfolding byte_mask4
  by (rule bit_word_eqI) (auto simp: bit_simps, metis le_add_diff_inverse not_le)

lemma byte_of_nibbles:
  assumes "lo < 16" "hi < 16"
  defines "w \<equiv> (of_nat lo OR push_bit 4 (of_nat hi)) :: byte"
  shows "unat (w AND 0x0F) = lo" "unat (drop_bit 4 w) = hi"
proof -
  have *: "\<forall>lo<16. \<forall>hi<16. unat ((of_nat lo OR push_bit 4 (of_nat hi)) AND 0x0F :: byte) = lo \<and>
     unat (drop_bit 4 ((of_nat lo OR push_bit 4 (of_nat hi)) :: byte)) = hi"
    by code_simp
  then show "unat (w AND 0x0F) = lo" "unat (drop_bit 4 w) = hi" using assms by blast+
qed

lemma nibble_masks:
  "v < 16 \<Longrightarrow> (word_of_int (int v AND 0x0F) :: byte) = of_nat v"
  "v < 16 \<Longrightarrow> (word_of_int (push_bit 4 (int v) AND 0xF0) :: byte) = push_bit 4 (of_nat v)"
proof -
  have "\<forall>v<16. (word_of_int (int v AND 0x0F) :: byte) = of_nat v \<and>
    (word_of_int (push_bit 4 (int v) AND 0xF0) :: byte) = push_bit 4 (of_nat v)" by code_simp
  then show "v < 16 \<Longrightarrow> (word_of_int (int v AND 0x0F) :: byte) = of_nat v"
  "v < 16 \<Longrightarrow> (word_of_int (push_bit 4 (int v) AND 0xF0) :: byte) = push_bit 4 (of_nat v)" by blast+
qed

lemma unat_nibble [simp]: "unat (b AND 0x0F :: byte) < 16" "unat (drop_bit 4 b :: byte) < 16"
proof -
  show "unat (b AND 0x0F) < 16"
    unfolding byte_mask4 take_bit_eq_mask [symmetric] unsigned_take_bit_eq
    using take_bit_nat_less_exp [of 4 "unat b"] by simp
  have "unat b div 16 < 16" using unat_byte_less [of b] by linarith
  then show "unat (drop_bit 4 b) < 16"
    by (simp only: unat_drop_bit_eq) (simp add: drop_bit_eq_div)
qed


lemma cookiesDecode_step:
  assumes "k < 8" "length out = 8" "out ! k = 0"
  shows "cookiesDecode_loop bytes (2 * k) out =
    (case nibble_of (2 * k) (chr8 (bytes ! (2 * k))) of None \<Rightarrow> None
     | Some lo \<Rightarrow> (case nibble_of (2 * k + 1) (chr8 (bytes ! (2 * k + 1))) of None \<Rightarrow> None
       | Some hi \<Rightarrow> cookiesDecode_loop bytes (2 * (k + 1)) (out[k := of_nat lo OR push_bit 4 (of_nat hi)])))"
proof -
  have lt: "cypherPosMap ! (r mod 4) ! nat i < 16" if "0 \<le> i" "i \<le> 15" for i r
    using that pos_rows(1) [of "nat i" r] by simp
  show ?thesis
    using assms lt
    by (simp add: cookiesDecode_loop.simps [of bytes "2 * k"] cookiesDecode_loop.simps [of bytes "Suc (2 * k)"]
        nibble_of_def Let_def nibble_masks not_less)
qed

lemma cookiesEncode_loop_length [simp]: "length (cookiesEncode_loop bs j) = 2 * length bs"
  by (induction bs arbitrary: j) auto

lemma drop_two:
  "2 * k + 2 \<le> length xs \<Longrightarrow> drop (2 * k) xs = xs ! (2 * k) # xs ! (2 * k + 1) # drop (2 * (k + 1)) xs"
  by (simp add: Cons_nth_drop_Suc)

text \<open>The decoder as a recursion over the pairs of code bytes.\<close>

fun decode_pairs :: "nat \<Rightarrow> byte list \<Rightarrow> byte list option" where
  "decode_pairs j (b1 # b2 # bs) =
     (case nibble_of j (chr8 b1) of None \<Rightarrow> None
      | Some lo \<Rightarrow> (case nibble_of (j + 1) (chr8 b2) of None \<Rightarrow> None
        | Some hi \<Rightarrow> map_option ((#) (of_nat lo OR push_bit 4 (of_nat hi))) (decode_pairs (j + 2) bs)))"
| "decode_pairs j bs = Some []"

lemma nibbles_eq_iff:
  assumes "lo < 16" "hi < 16"
  shows "of_nat lo OR push_bit 4 (of_nat hi) = (d :: byte) \<longleftrightarrow>
    unat (d AND 0x0F) = lo \<and> unat (drop_bit 4 d) = hi"
proof
  assume "unat (d AND 0x0F) = lo \<and> unat (drop_bit 4 d) = hi"
  then have "of_nat lo = d AND 0x0F" "of_nat hi = drop_bit 4 d" by auto
  then show "of_nat lo OR push_bit 4 (of_nat hi) = d" by simp
qed (use byte_of_nibbles [OF assms] in blast)

lemma code_byte_iff:
  "v < 16 \<Longrightarrow> b = ord8 (cypherMap ! (j mod 4) ! v) \<longleftrightarrow> nibble_of j (chr8 b) = Some v"
  by (metis nibble_of_iff chr8_ord8 ord8_chr8)

lemma nibble_of_less: "nibble_of r c = Some v \<Longrightarrow> v < 16"
  by (simp add: nibble_of_iff)

lemma cookiesEncode_loop_Nil: "[] = cookiesEncode_loop ds j \<longleftrightarrow> ds = []"
  by (cases ds) auto

lemma decode_pairs_iff:
  "even (length bs) \<Longrightarrow> decode_pairs j bs = Some ds \<longleftrightarrow> bs = cookiesEncode_loop ds j"
proof (induction j bs arbitrary: ds rule: decode_pairs.induct)
  case (1 j b1 b2 bs)
  have ih: "decode_pairs (j + 2) bs = Some ds \<longleftrightarrow> bs = cookiesEncode_loop ds (j + 2)"
    if "nibble_of j (chr8 b1) = Some lo" "nibble_of (j + 1) (chr8 b2) = Some hi" for lo hi ds
    using 1 that by simp
  have code: "b1 # b2 # bs = cookiesEncode_loop (d # ds') j \<longleftrightarrow>
      nibble_of j (chr8 b1) = Some (unat (d AND 0x0F)) \<and>
      nibble_of (j + 1) (chr8 b2) = Some (unat (drop_bit 4 d)) \<and> bs = cookiesEncode_loop ds' (j + 2)"
    for d ds'
    using code_byte_iff [OF unat_nibble(1), of b1 j d] code_byte_iff [OF unat_nibble(2), of b2 "Suc j" d]
    by simp
  show ?case
  proof (cases ds)
    case Nil
    then show ?thesis by (simp split: option.splits)
  next
    case (Cons d ds')
    show ?thesis
    proof (cases "nibble_of j (chr8 b1) = None \<or> nibble_of (j + 1) (chr8 b2) = None")
      case True
      then show ?thesis unfolding Cons code by (auto split: option.splits)
    next
      case False
      then obtain lo hi where n: "nibble_of j (chr8 b1) = Some lo" "nibble_of (j + 1) (chr8 b2) = Some hi"
        by auto
      then have "lo < 16" "hi < 16" by (simp_all add: nibble_of_less)
      from nibbles_eq_iff [OF this, of d] n ih [OF n, of ds'] show ?thesis
        unfolding Cons code by auto
    qed
  qed
qed (auto simp: cookiesEncode_loop_Nil)

lemma map_option_snoc_append: "map_option ((@) (a @ [w])) r = map_option (\<lambda>ds. a @ w # ds) r"
  by (cases r) simp_all

lemma cookiesDecode_loop_pairs:
  assumes "16 \<le> length bytes" "length out = 8" "k \<le> 8" "\<And>j. k \<le> j \<Longrightarrow> j < 8 \<Longrightarrow> out ! j = 0"
  shows "cookiesDecode_loop bytes (2 * k) out =
    map_option ((@) (take k out)) (decode_pairs (2 * k) (take (16 - 2 * k) (drop (2 * k) bytes)))"
  using assms(2-)
proof (induction "8 - k" arbitrary: k out)
  case 0
  then show ?case by (simp add: cookiesDecode_loop.simps)
next
  case (Suc n)
  then have k: "k < 8" "n = 8 - (k + 1)" by simp_all
  have sub: "16 - 2 * k = Suc (Suc (16 - 2 * (k + 1)))" using k by simp
  have "cookiesDecode_loop bytes (2 * (k + 1)) (out[k := w]) =
    map_option ((@) (take k out @ [w]))
      (decode_pairs (2 * (k + 1)) (take (16 - 2 * (k + 1)) (drop (2 * (k + 1)) bytes)))" for w
    using Suc.hyps(1) [OF k(2), of "out[k := w]"] Suc.prems k
    by (simp add: take_Suc_conv_app_nth comp_def)
  then show ?case
    using Suc.prems k assms(1)
    by (simp add: cookiesDecode_step sub drop_two option.map_comp comp_def map_option_snoc_append
        split: option.splits)
qed

section \<open>Properties of the cookie cipher\<close>

lemma cookiesDecode_eq:
  assumes "16 \<le> length bytes"
  shows "cookiesDecode bytes sz =
    (if sz < 8 then None else map_option (\<lambda>out. (out, 8)) (decode_pairs 0 (take 16 bytes)))"
  using cookiesDecode_loop_pairs [OF assms, of "replicate 8 0" 0]
  by (simp add: cookiesDecode_def option.map_id0 [unfolded id_def] option.map_comp comp_def)

lemma take16_encoded_iff:
  assumes "16 \<le> length bytes"
  shows "take 16 bytes = cookiesEncode_loop out 0 \<longleftrightarrow> length out = 8 \<and> cookiesEncode out bytes = Inr bytes"
proof
  assume eq: "take 16 bytes = cookiesEncode_loop out 0"
  then have "length (take 16 bytes) = 2 * length out" by simp
  with assms have len: "length out = 8" by simp
  with eq show "length out = 8 \<and> cookiesEncode out bytes = Inr bytes"
    by (simp add: cookiesEncode_def Let_def) (metis append_take_drop_id)
next
  assume "length out = 8 \<and> cookiesEncode out bytes = Inr bytes"
  then have "cookiesEncode_loop out 0 @ drop 16 bytes = bytes" "length out = 8"
    by (auto simp: cookiesEncode_def Let_def)
  then show "take 16 bytes = cookiesEncode_loop out 0"
    by (metis append_eq_conv_conj cookiesEncode_loop_length num_double numeral_times_numeral)
qed

text \<open>C19: \<open>cookiesDecode\<close> accepts exactly the 16-byte code words: it returns \<open>out\<close> if and only if the
  caller gives room for 8 bytes and encoding \<open>out\<close> again leaves the 16 bytes unchanged.\<close>

theorem cookiesDecode_iff:
  assumes "16 \<le> length bytes"
  shows "cookiesDecode bytes sz = Some (out, n) \<longleftrightarrow>
    8 \<le> sz \<and> n = 8 \<and> length out = 8 \<and> cookiesEncode out bytes = Inr bytes"
  unfolding take16_encoded_iff [OF assms, symmetric] cookiesDecode_eq [OF assms]
  using decode_pairs_iff [of "take 16 bytes" 0 out] assms by auto

theorem cookiesDecode_iff_witness:
  "cookiesDecode (map ord8 ''61O561O561O561O5'') 8 = Some ([0, 0, 0, 0, 0, 0, 0, 0], 8)"
proof -
  have "cookiesEncode [0, 0, 0, 0, 0, 0, 0, 0] (map ord8 ''61O561O561O561O5'') = Inr (map ord8 ''61O561O561O561O5'')"
    by (simp add: cookiesEncode_def cypherMap_def)
  moreover have "16 \<le> length (map ord8 ''61O561O561O561O5'')" by simp
  ultimately show ?thesis
    unfolding cookiesDecode_iff [OF \<open>16 \<le> length (map ord8 ''61O561O561O561O5'')\<close>] by simp
qed

lemma cookiesEncode_decode:
  assumes "length input = 8" "16 \<le> length r"
  obtains out where "cookiesEncode input r = Inr out" "length out = length r"
    "drop 16 out = drop 16 r" "cookiesDecode out 8 = Some (input, 8)"
proof -
  let ?out = "cookiesEncode_loop input 0 @ drop 16 r"
  have "take 16 ?out = cookiesEncode_loop input 0" "16 \<le> length ?out" using assms by simp_all
  then have "cookiesDecode ?out 8 = Some (input, 8)"
    using decode_pairs_iff [of "take 16 ?out" 0 input] assms(1) by (simp add: cookiesDecode_eq)
  with assms show thesis by (intro that [of ?out]) (simp_all add: cookiesEncode_def)
qed

text \<open>C20: decoding undoes encoding: for every 8-byte input \<open>cookiesEncode\<close> does not throw, writes only
  the first 16 bytes of the union, and \<open>cookiesDecode\<close> returns the input.\<close>

theorem cookies_round_trip:
  assumes "length input = 8" "16 \<le> length r"
  shows "\<exists>out. cookiesEncode input r = Inr out \<and> length out = length r \<and>
    drop 16 out = drop 16 r \<and> cookiesDecode out 8 = Some (input, 8)"
  using cookiesEncode_decode [OF assms] by metis

theorem cookies_round_trip_witness:
  "\<exists>out. cookiesEncode [1, 2, 3, 4, 5, 6, 7, 255] (replicate 20 0) = Inr out \<and>
    cookiesDecode out 8 = Some ([1, 2, 3, 4, 5, 6, 7, 255], 8)"
  using cookies_round_trip [of "[1, 2, 3, 4, 5, 6, 7, 255]" "replicate 20 0"] by auto

lemma length_int_bytes [simp]: "length (int_bytes w) = 4"
  by (simp add: int_bytes_def)

lemma makeCookies_code:
  assumes "length r = 20"
  shows "\<exists>out. makeCookies key1 key2 r = Inr out \<and> out ! 16 = 0 \<and>
    cookiesDecode out 8 = Some (int_bytes key1 @ int_bytes key2, 8)"
proof -
  obtain out where out: "cookiesEncode (int_bytes key1 @ int_bytes key2) r = Inr out"
    "length out = 20" "cookiesDecode out 8 = Some (int_bytes key1 @ int_bytes key2, 8)"
    using cookiesEncode_decode [of "int_bytes key1 @ int_bytes key2" r] assms by auto
  then have "cookiesDecode (out[16 := 0]) 8 = cookiesDecode out 8"
    by (simp add: cookiesDecode_eq)
  with out show ?thesis by (simp add: makeCookies_def)
qed

lemma int_bytes_inject:
  assumes "int_bytes v = int_bytes w" shows "v = w"
proof (rule bit_word_eqI)
  fix n assume "n < LENGTH(32)"
  then have n: "n div 8 \<in> {0,1,2,3}" "n < 32" by auto
  with assms have "(ucast (drop_bit (8 * (n div 8)) v) :: byte) = ucast (drop_bit (8 * (n div 8)) w)"
    by (auto simp: int_bytes_def)
  then have "bit (ucast (drop_bit (8 * (n div 8)) v) :: byte) (n mod 8) = bit (ucast (drop_bit (8 * (n div 8)) w) :: byte) (n mod 8)"
    by simp
  then show "bit v n = bit w n" using n by (simp add: bit_simps)
qed

text \<open>a cookie made by \<open>makeCookies\<close> is closed by a NUL at position 16, decodes to the bytes of the
  time and of the random number it was made from, and no other pair of numbers gives the same cookie.\<close>

theorem makeCookies_decodes:
  assumes "length r = 20"
  shows "\<exists>out. makeCookies key1 key2 r = Inr out \<and> out ! 16 = 0 \<and>
    cookiesDecode out 8 = Some (int_bytes key1 @ int_bytes key2, 8) \<and>
    (\<forall>k1 k2. makeCookies k1 k2 r = Inr out \<longrightarrow> k1 = key1 \<and> k2 = key2)"
proof -
  obtain out where out: "makeCookies key1 key2 r = Inr out" "out ! 16 = 0"
    "cookiesDecode out 8 = Some (int_bytes key1 @ int_bytes key2, 8)"
    using makeCookies_code [OF assms] by blast
  moreover have "k1 = key1 \<and> k2 = key2" if "makeCookies k1 k2 r = Inr out" for k1 k2
    using makeCookies_code [OF assms, of k1 k2] that out(3) int_bytes_inject by auto
  ultimately show ?thesis by blast
qed

theorem makeCookies_decodes_witness:
  "\<exists>out. makeCookies 7 0xFFFFFFFF (replicate 20 1) = Inr out \<and>
    cookiesDecode out 8 = Some ([7, 0, 0, 0, 255, 255, 255, 255], 8)"
proof -
  have "int_bytes 7 = [7, 0, 0, 0]" "int_bytes 0xFFFFFFFF = [255, 255, 255, 255]"
    by (simp_all add: int_bytes_def)
  then show ?thesis
    using makeCookies_decodes [of "replicate 20 1" 7 "0xFFFFFFFF"] by auto
qed

section \<open>Properties of the hex printers and readers\<close>

lemma fromHex_nibble_hexMap:
  "v < 16 \<Longrightarrow> fromHex_nibble (hexMap_upper ! v) False = of_nat v"
  "v < 16 \<Longrightarrow> fromHex_nibble (hexMap_upper ! v) True = push_bit 4 (of_nat v)"
proof -
  have "\<forall>v<16. fromHex_nibble (hexMap_upper ! v) False = of_nat v \<and>
     fromHex_nibble (hexMap_upper ! v) True = push_bit 4 (of_nat v)"
    by code_simp
  then show "v < 16 \<Longrightarrow> fromHex_nibble (hexMap_upper ! v) False = of_nat v"
    "v < 16 \<Longrightarrow> fromHex_nibble (hexMap_upper ! v) True = push_bit 4 (of_nat v)" by blast+
qed

lemma fromHex_loop_toHex:
  "length done + length bs = length result \<Longrightarrow> take (length done) result = done \<Longrightarrow>
   fromHex_loop (toHex_loop hexMap_upper bs) (2 * length done) result = done @ bs"
proof (induction bs arbitrary: "done" result)
  case Nil
  then show ?case by simp
next
  case (Cons b bs)
  let ?r = "result[length done := b]"
  have "length done < length result" using Cons.prems(1) by simp
  moreover have "fromHex_loop (toHex_loop hexMap_upper bs) (2 * length (done @ [b])) ?r = (done @ [b]) @ bs"
    by (rule Cons.IH) (use Cons.prems calculation in \<open>simp_all add: take_Suc_conv_app_nth\<close>)
  ultimately show ?case
    using unat_nibble [of b] by (simp add: Let_def fromHex_nibble_hexMap)
qed

text \<open>\<open>fromHex\<close> inverts \<open>toHex\<close>: reading the printed string into an array of the same size restores the
  bytes, whatever the array held before.\<close>

theorem fromHex_toHex:
  assumes "length result = length bs"
  shows "fromHex (toHex bs) result = bs"
  using fromHex_loop_toHex [of "[]" bs result] assms by (simp add: fromHex_def toHex_def)

theorem fromHex_toHex_witness: "fromHex (toHex [0xA7, 0x00, 0xFF]) [1, 2, 3] = [0xA7, 0x00, 0xFF]"
  using fromHex_toHex [of "[1, 2, 3]" "[0xA7, 0x00, 0xFF]"] by simp

lemma xor_swap_eq:
  assumes "i \<noteq> j" "i < length a" "j < length a"
  shows "xor_swap a i j = a[i := a ! j, j := a ! i]"
  using assms
  by (intro nth_equalityI) (auto simp: xor_swap_def xor_at_def nth_list_update xor.assoc xor.commute xor.left_commute)

text \<open>A buffer of 16-bit units, read as the list of its character pairs.\<close>

definition flat :: "(byte \<times> byte) list \<Rightarrow> byte list" where
  "flat ps = concat (map (\<lambda>(x, y). [x, y]) ps)"

lemma flat_simps [simp]:
  "flat [] = []" "flat (p # ps) = fst p # snd p # flat ps" "flat (ps @ qs) = flat ps @ flat qs"
  by (auto simp: flat_def split: prod.splits)

lemma length_flat [simp]: "length (flat ps) = 2 * length ps"
  by (induction ps) auto

lemma nth_flat [simp]:
  "i < length ps \<Longrightarrow> flat ps ! (2 * i) = fst (ps ! i)"
  "i < length ps \<Longrightarrow> flat ps ! Suc (2 * i) = snd (ps ! i)"
  by (induction ps arbitrary: i) (auto simp: less_Suc_eq_0_disj)

lemma flat_update_fst: "i < length ps \<Longrightarrow> (flat ps)[2 * i := x] = flat (ps[i := (x, snd (ps ! i))])"
  by (induction ps arbitrary: i) (auto simp: less_Suc_eq_0_disj)

lemma flat_update_snd: "i < length ps \<Longrightarrow> (flat ps)[Suc (2 * i) := y] = flat (ps[i := (fst (ps ! i), y)])"
  by (induction ps arbitrary: i) (auto simp: less_Suc_eq_0_disj)

lemma xor16_at_flat:
  "i \<noteq> j \<Longrightarrow> i < length ps \<Longrightarrow> j < length ps \<Longrightarrow>
   xor16_at (flat ps) i j = flat (ps[i := (fst (ps ! i) XOR fst (ps ! j), snd (ps ! i) XOR snd (ps ! j))])"
  by (simp add: xor16_at_def xor_at_def flat_update_fst flat_update_snd)

lemma xor16_swap_flat:
  assumes "i \<noteq> j" "i < length ps" "j < length ps"
  shows "xor16_swap (flat ps) i j = flat (ps[i := ps ! j, j := ps ! i])"
proof -
  have "(x XOR y) XOR (y XOR (x XOR y)) = y" "y XOR (x XOR y) = x" for x y :: byte
    by (simp_all add: xor.assoc xor.commute xor.left_commute)
  with assms show ?thesis
    by (simp add: xor16_swap_def xor16_at_flat list_update_swap [of i j])
qed

text \<open>The list with the positions from \<open>i\<close> to \<open>j\<close> reflected.\<close>

definition reflect :: "nat \<Rightarrow> int \<Rightarrow> 'a list \<Rightarrow> 'a list" where
  "reflect i j ps =
     map (\<lambda>k. if i \<le> k \<and> int k \<le> j then ps ! (length ps - 1 - k) else ps ! k) [0..<length ps]"

lemma reflect_all: "reflect 0 (int (length ps) - 1) ps = rev ps"
  by (rule nth_equalityI) (auto simp: reflect_def rev_nth)

lemma reflect_step:
  assumes "i < j" "i + j + 1 = length ps"
  shows "reflect (Suc i) (int j - 1) (ps[i := ps ! j, j := ps ! i]) = reflect i (int j) ps"
proof (rule nth_equalityI)
  fix k assume "k < length (reflect (Suc i) (int j - 1) (ps[i := ps ! j, j := ps ! i]))"
  then have k: "k < length ps" by (simp add: reflect_def)
  have "length ps - 1 - k = i + j - k" "length ps - Suc k = i + j - k" using assms by simp_all
  moreover have "i + j - k = i \<longleftrightarrow> k = j" "i + j - k = j \<longleftrightarrow> k = i" if "i \<le> k" "k \<le> j"
    using that assms by auto
  ultimately show "reflect (Suc i) (int j - 1) (ps[i := ps ! j, j := ps ! i]) ! k = reflect i (int j) ps ! k"
    using k assms by (auto simp: reflect_def nth_list_update)
qed (simp add: reflect_def)

lemma reverse16_loop_flat:
  assumes "int i + j + 1 = int (length ps)" "int i \<le> j + 1"
  shows "reverse16_loop (flat ps) (int i) j = flat (reflect i j ps)"
  using assms
proof (induction "nat (j - int i)" arbitrary: i j ps rule: less_induct)
  case less
  show ?case
  proof (cases "int i < j")
    case False
    with less.prems have j: "k = length ps - 1 - k" if "i \<le> k" "int k \<le> j" for k
      using that by linarith
    have "reflect i j ps = ps"
      by (rule nth_equalityI) (auto simp: reflect_def dest: j)
    with False show ?thesis by (simp add: reverse16_loop.simps)
  next
    case True
    then obtain n where n: "j = int n" 
      by (metis nonneg_int_cases of_nat_0_le_iff order_less_imp_le order_trans)
    let ?qs = "ps[i := ps ! n, n := ps ! i]"
    have "reverse16_loop (flat ps) (int i) j = reverse16_loop (flat ?qs) (int (Suc i)) (j - 1)"
      using True less.prems n by (subst reverse16_loop.simps) (simp add: xor16_swap_flat add.commute)
    also have "\<dots> = flat (reflect (Suc i) (j - 1) ?qs)"
      using less.hyps [of "j - 1" "Suc i" ?qs] True less.prems n by simp
    finally show ?thesis using reflect_step [of i n ps] True less.prems n by simp
  qed
qed

lemma swap_pairs_loop_flat:
  "k \<le> length ps \<Longrightarrow>
   swap_pairs_loop (flat ps) (2 * int k - 1) = flat (map prod.swap (take k ps) @ drop k ps)"
proof (induction k arbitrary: ps)
  case 0
  then show ?case by (simp add: swap_pairs_loop.simps)
next
  case (Suc k)
  let ?qs = "ps[k := prod.swap (ps ! k)]"
  have "xor_swap (flat ps) (Suc (2 * k)) (2 * k) = flat ?qs"
    using Suc.prems by (simp add: xor_swap_eq flat_update_fst flat_update_snd prod.swap_def)
  then have "swap_pairs_loop (flat ps) (2 * int (Suc k) - 1) = swap_pairs_loop (flat ?qs) (2 * int k - 1)"
    by (subst swap_pairs_loop.simps) (simp add: nat_add_distrib nat_mult_distrib)
  with Suc show ?case
    by (simp add: take_Suc_conv_app_nth Cons_nth_drop_Suc [symmetric])
qed

definition hex_big_endian :: "byte list \<Rightarrow> string" where
  "hex_big_endian bs =
     concat (map (\<lambda>b. [hexMap_upper ! unat (drop_bit 4 b), hexMap_upper ! unat (b AND 0x0F)]) (rev bs))"

definition hex_pairs :: "byte list \<Rightarrow> (byte \<times> byte) list" where
  "hex_pairs bs = map (\<lambda>b. (ord8 (hexMap_upper ! unat (b AND 0x0F)), ord8 (hexMap_upper ! unat (drop_bit 4 b)))) bs"

lemma toHex_flat: "map ord8 (toHex bs) = flat (hex_pairs bs)"
  unfolding toHex_def by (induction bs) (simp_all add: hex_pairs_def)

lemma map_chr8_flat_swap: "map chr8 (flat (map prod.swap (rev (hex_pairs bs)))) = hex_big_endian bs"
  by (induction bs) (simp_all add: hex_pairs_def hex_big_endian_def)

lemma length_hex_pairs [simp]: "length (hex_pairs bs) = length bs"
  by (simp add: hex_pairs_def)

lemma toHex_loop_append [simp]: "toHex_loop m (xs @ ys) = toHex_loop m xs @ toHex_loop m ys"
  by (induction xs) simp_all

lemma length_toHex_loop [simp]: "length (toHex_loop m bs) = 2 * length bs"
  by (induction bs) simp_all

lemma hexToReadable_units_toHex: "map ord8 (hexToReadable_units (toHex bs)) = flat (rev (hex_pairs bs))"
  unfolding toHex_def by (induction bs) (simp_all add: hex_pairs_def)

text \<open>C32: the in-place XOR exchanges of \<open>toHexReadable\<close> produce the usual hexadecimal notation, most
  significant byte and high nibble first, and \<open>hexToReadable\<close> computes the same string from the output of
  \<open>toHex\<close>.\<close>

theorem toHexReadable_correct:
  "toHexReadable bs = hex_big_endian bs \<and> hexToReadable (toHex bs) = toHexReadable bs"
proof -
  let ?ps = "rev (hex_pairs bs)"
  have "reverse16_loop (flat (hex_pairs bs)) 0 (int (length bs) - 1) = flat ?ps"
    using reverse16_loop_flat [of 0 "int (length bs) - 1" "hex_pairs bs"] reflect_all [of "hex_pairs bs"] by simp
  moreover have swaps: "swap_pairs_loop (flat ?ps) (2 * int (length bs) - 1) = flat (map prod.swap ?ps)"
    using swap_pairs_loop_flat [of "length bs" ?ps] by simp
  ultimately have "toHexReadable bs = hex_big_endian bs"
    by (simp add: toHexReadable_def toHex_flat map_chr8_flat_swap)
  moreover have "hexToReadable (toHex bs) = hex_big_endian bs"
    using swaps by (simp add: hexToReadable_def hexToReadable_units_toHex map_chr8_flat_swap)
      (simp add: toHex_def map_chr8_flat_swap)
  ultimately show ?thesis by simp
qed

section \<open>Properties of the table generator\<close>

lemma regenerate_rows:
  assumes "r < length (gen_cypherMap g)"
  defines "row \<equiv> gen_cypherMap g ! r"
  defines "idx \<equiv> sort_key (\<lambda>i. schar (row ! i)) [0..<16]"
  shows "gen_cypherPosMap (regenerate g) ! r = idx"
    "gen_cypherSortMap (regenerate g) ! r = map ((!) row) idx"
  using assms by (simp_all add: regenerate_def Let_def)

text \<open>the generated tables are a cipher: for every row of 16 different characters the binary search in
  the sorted row, followed by the position row, finds the nibble every character of the row stands for,
  and rejects every other character.\<close>

theorem regenerate_inverts:
  assumes "r < length (gen_cypherMap g)" "length (gen_cypherMap g ! r) = 16" "distinct (gen_cypherMap g ! r)"
  shows "(\<forall>v<16. \<exists>idx<16. bSearch (gen_cypherSortMap (regenerate g) ! r) 16 (gen_cypherMap g ! r ! v) = int idx \<and>
      gen_cypherPosMap (regenerate g) ! r ! idx = v) \<and>
    (\<forall>c. c \<notin> set (gen_cypherMap g ! r) \<longrightarrow> bSearch (gen_cypherSortMap (regenerate g) ! r) 16 c = -1)"
proof -
  define row where "row = gen_cypherMap g ! r"
  define idx where "idx = sort_key (\<lambda>i. schar (row ! i)) [0..<16]"
  let ?a = "map ((!) row) idx"
  have row: "length row = 16" "distinct row" using assms by (simp_all add: row_def)
  have idx: "set idx = {..<16}" "length idx = 16" "distinct idx"
    by (auto simp: idx_def)
  have srt: "sorted (map schar ?a)"
    using sorted_sort_key [of "\<lambda>i. schar (row ! i)" "[0..<16]"] by (simp add: idx_def comp_def)
  have set: "set ?a = set row"
    using idx(1) nth_image [of 16 row] row(1) by (simp add: lessThan_atLeast0)
  have tabs: "gen_cypherPosMap (regenerate g) ! r = idx" "gen_cypherSortMap (regenerate g) ! r = ?a"
    using regenerate_rows [OF assms(1)] by (simp_all add: row_def idx_def)
  have "\<exists>k<16. bSearch ?a 16 (row ! v) = int k \<and> idx ! k = v" if "v < 16" for v
  proof -
    from that have "v \<in> set idx" using idx(1) by simp
    then obtain i where i: "i < 16" "idx ! i = v" using idx(2) by (auto simp: in_set_conv_nth)
    obtain l where l: "bSearch ?a 16 (row ! v) = int l" "l \<le> i" "?a ! l = ?a ! i"
      using bSearch_hit [OF srt, of i] i idx by auto
    then have "row ! (idx ! l) = row ! v" using i idx by simp
    moreover have "idx ! l \<in> set idx" using l(2) i idx(2) by simp
    then have "idx ! l < 16" using idx(1) by simp
    ultimately have "idx ! l = v" using row that by (simp add: nth_eq_iff_index_eq)
    with l i show ?thesis by (intro exI [of _ l]) simp
  qed
  moreover have "bSearch ?a 16 c = -1" if "c \<notin> set row" for c
    using bSearch_miss [of c ?a] that set idx(2) by simp
  ultimately show ?thesis by (simp add: tabs row_def [symmetric])
qed

theorem regenerate_inverts_witness:
  "bSearch (gen_cypherSortMap (regenerate \<lparr>gen_cypherMap = cypherMap, gen_cypherSortMap = [],
     gen_cypherPosMap = [], gen_indexMap = []\<rparr>) ! 0) 16 CHR ''a'' = -1"
proof -
  let ?g = "\<lparr>gen_cypherMap = cypherMap, gen_cypherSortMap = [], gen_cypherPosMap = [], gen_indexMap = []\<rparr>"
  have "0 < length (gen_cypherMap ?g)" "length (gen_cypherMap ?g ! 0) = 16"
    "distinct (gen_cypherMap ?g ! 0)" "CHR ''a'' \<notin> set (gen_cypherMap ?g ! 0)"
    by (simp_all add: cypherMap_def)
  with regenerate_inverts [of 0 ?g] show ?thesis by blast
qed


text \<open>the tables compiled into the program are the ones \<open>regenerate\<close> derives from \<open>cypherMap\<close>.\<close>

theorem shipped_tables:
  "regenerate \<lparr>gen_cypherMap = cypherMap, gen_cypherSortMap = [], gen_cypherPosMap = [], gen_indexMap = []\<rparr> =
   \<lparr>gen_cypherMap = cypherMap, gen_cypherSortMap = cypherSortMap, gen_cypherPosMap = cypherPosMap,
     gen_indexMap = cypherPosMap\<rparr>"
proof -
  have "map (\<lambda>row. sort_key (\<lambda>i. schar (row ! i)) [0..<16]) cypherMap = cypherPosMap"
    by (simp add: cypherMap_def cypherPosMap_def upt_rec schar_def)
  then show ?thesis
    by (simp add: regenerate_def Let_def) (simp add: cypherMap_def cypherSortMap_def cypherPosMap_def)
qed

section \<open>Properties of the identifier builders\<close>

lemma length_toHex_case [simp]: "length (toHex_case cap bs) = 2 * length bs"
  by (simp add: toHex_case_def toHex_def)

lemma length_randomId_written:
  "length (concat (map (\<lambda>r. toHex_case False (int_bytes r)) rs)) = 8 * length rs"
  by (induction rs) simp_all

text \<open>\<open>randomId\<close> with 1 to 31 fields returns one character less than the \<open>8 * field\<close> hex digits it has
  written: the closing NUL replaces the last digit.  With 32 fields or more the writes leave the local
  buffer.\<close>

theorem randomId_length:
  "(case randomId rs of Inr s \<Rightarrow> length rs \<le> 31 \<and> length s = 8 * length rs - 1
    | Inl e \<Rightarrow> 32 \<le> length rs \<and> e = MemoryFault)"
  using length_randomId_written [of rs] by (auto simp: randomId_def Let_def)

lemma fromLEHex_nibble_hexMap:
  "v < 16 \<Longrightarrow> fromLEHex_nibble True (hexMap_upper ! v) True = of_nat v"
  "v < 16 \<Longrightarrow> fromLEHex_nibble True (hexMap_upper ! v) False = push_bit 4 (of_nat v)"
  "v < 16 \<Longrightarrow> fromLEHex_nibble False (hexMap_lower ! v) True = of_nat v"
  "v < 16 \<Longrightarrow> fromLEHex_nibble False (hexMap_lower ! v) False = push_bit 4 (of_nat v)"
proof -
  have "\<forall>v<16. fromLEHex_nibble True (hexMap_upper ! v) True = of_nat v \<and>
     fromLEHex_nibble True (hexMap_upper ! v) False = push_bit 4 (of_nat v) \<and>
     fromLEHex_nibble False (hexMap_lower ! v) True = of_nat v \<and>
     fromLEHex_nibble False (hexMap_lower ! v) False = push_bit 4 (of_nat v)"
    by code_simp
  then show "v < 16 \<Longrightarrow> fromLEHex_nibble True (hexMap_upper ! v) True = of_nat v"
    "v < 16 \<Longrightarrow> fromLEHex_nibble True (hexMap_upper ! v) False = push_bit 4 (of_nat v)"
    "v < 16 \<Longrightarrow> fromLEHex_nibble False (hexMap_lower ! v) True = of_nat v"
    "v < 16 \<Longrightarrow> fromLEHex_nibble False (hexMap_lower ! v) False = push_bit 4 (of_nat v)" by blast+
qed

fun tcpdump_hex :: "string \<Rightarrow> byte list \<Rightarrow> string" where
  "tcpdump_hex m [] = []"
| "tcpdump_hex m (b # bs) = m ! unat (drop_bit 4 b) # m ! unat (b AND 0x0F) # tcpdump_hex m bs"

lemma length_tcpdump_hex [simp]: "length (tcpdump_hex m bs) = 2 * length bs"
  by (induction bs) simp_all

lemma fromLEHex_loop_tcpdump:
  "length done + length bs \<le> length result \<Longrightarrow> take (length done) result = done \<Longrightarrow>
   fromLEHex_loop cap (tcpdump_hex (if cap then hexMap_upper else hexMap_lower) bs) (2 * length done) result =
   done @ bs @ drop (length done + length bs) result"
proof (induction bs arbitrary: "done" result)
  case Nil
  then show ?case by (metis add.right_neutral append_Nil append_take_drop_id fromLEHex_loop.simps(1) list.size(3) tcpdump_hex.simps(1))
next
  case (Cons b bs)
  let ?r = "result[length done := b]" and ?m = "if cap then hexMap_upper else hexMap_lower"
  have less: "length done < length result" using Cons.prems(1) by simp
  have "fromLEHex_loop cap (tcpdump_hex ?m bs) (2 * length (done @ [b])) ?r =
      (done @ [b]) @ bs @ drop (length (done @ [b]) + length bs) ?r"
    by (rule Cons.IH) (use Cons.prems less in \<open>simp_all add: take_Suc_conv_app_nth\<close>)
  with less show ?case
    using unat_nibble [of b] nibbles_join [of b]
    by (cases cap) (simp_all add: Let_def fromLEHex_nibble_hexMap or.commute)
qed

text \<open>\<open>fromLittleEndiumHex\<close> reads a tcpdump-style string of either case back to its bytes, reports their
  number, leaves the rest of a larger array alone, and refuses an array that is too small.\<close>

theorem fromLittleEndiumHex_correct:
  "fromLittleEndiumHex cap (tcpdump_hex (if cap then hexMap_upper else hexMap_lower) bs) result (int (length result)) =
   (if length result < length bs then Inl MemoryFault
    else Inr (bs @ drop (length bs) result, int (length bs)))"
  using fromLEHex_loop_tcpdump [of "[]" bs result cap]
  by (simp add: fromLittleEndiumHex_def)

end
