(* ===== verification/Url_Codec.thy ===== *)
theory Url_Codec
  imports Prelude
begin

text \<open>
  Model of the four percent-coding routines of utility/url.cpp: the stream versions \<open>urlEncode\<close> and
  \<open>urlDecode\<close>, and the table-driven versions \<open>urlEncode_f\<close> and \<open>urlDecode_f\<close> that write into a buffer of
  the caller.  The buffer's size is the argument \<open>cap\<close>; an access outside it, outside the 128-entry
  tables or behind the terminator of the input is \<open>MemoryFault\<close>.
\<close>

section \<open>The stream versions\<close>

definition unreserved :: "char \<Rightarrow> bool" where
  "unreserved t \<longleftrightarrow> t = CHR ''-'' \<or> (schar CHR ''0'' \<le> schar t \<and> schar t \<le> schar CHR ''9'')
     \<or> (schar CHR ''A'' \<le> schar t \<and> schar t \<le> schar CHR ''Z'') \<or> t = CHR ''_''
     \<or> (schar CHR ''a'' \<le> schar t \<and> schar t \<le> schar CHR ''z'') \<or> t = CHR ''~''"

text \<open>\<open>out << std::setw(2) << std::setfill('0') << std::hex << i\<close>: at least two digits.\<close>

definition hex_setw2 :: "nat \<Rightarrow> string" where
  "hex_setw2 n = (let h = nat_to_hex n in replicate (2 - length h) CHR ''0'' @ h)"

text \<open>The character is converted to \<open>int\<close> and printed as an unsigned 32-bit number.\<close>

definition urlEncode_char :: "char \<Rightarrow> string" where
  "urlEncode_char t =
     (if unreserved t then [t] else CHR ''%'' # hex_setw2 (nat (schar t mod 2 ^ 32)))"

definition urlEncode :: "string \<Rightarrow> string" where
  "urlEncode input = concat (map urlEncode_char input)"

text \<open>The value of a hex digit, computed in the 8 bits of a \<open>char\<close>.\<close>

definition urlDecode_digit :: "char \<Rightarrow> byte" where
  "urlDecode_digit c =
     (if schar CHR ''a'' \<le> schar c then word_of_int (schar c - schar CHR ''a'' + 10)
      else if schar CHR ''A'' \<le> schar c then word_of_int (schar c - schar CHR ''A'' + 10)
      else word_of_int (schar c - schar CHR ''0''))"

definition urlDecode_pair :: "char \<Rightarrow> char \<Rightarrow> char" where
  "urlDecode_pair c1 c2 = chr8 (push_bit 4 (urlDecode_digit c1) + urlDecode_digit c2)"

text \<open>
  A percent sign takes the next two characters; \<open>c_str()\<close> supplies one NUL behind the input, a read
  behind that is outside the string.
\<close>

fun urlDecode :: "string \<Rightarrow> string result" where
  "urlDecode [] = Inr []"
| "urlDecode (c # cs) =
     (if c = CHR ''%'' then
        (case cs of
           [] \<Rightarrow> Inl MemoryFault
         | [c1] \<Rightarrow> Inr [urlDecode_pair c1 NUL]
         | c1 # c2 # r \<Rightarrow> bind_result (urlDecode r) (\<lambda>out. Inr (urlDecode_pair c1 c2 # out)))
      else bind_result (urlDecode cs) (\<lambda>out. Inr (c # out)))"

section \<open>The table versions\<close>

definition UrlDecodeTable :: "byte list" where
  "UrlDecodeTable = map (\<lambda>i.
     if 97 \<le> i then word_of_int (int i - 97 + 10)
     else if 65 \<le> i then word_of_int (int i - 65 + 10)
     else word_of_int (int i - 48)) [0..<128]"

record url_encode_table =
  entry :: "bool list"
  hex_map :: "string list"

definition table_plain :: "nat \<Rightarrow> bool" where
  "table_plain i \<longleftrightarrow> (48 \<le> i \<and> i \<le> 57) \<or> (65 \<le> i \<and> i \<le> 90) \<or> (97 \<le> i \<and> i \<le> 122)
     \<or> i = 45 \<or> i = 95 \<or> i = 126"

definition UrlEncodeTable :: url_encode_table where
  "UrlEncodeTable =
     (let codetable = ''0123456789ABCDEF''
      in \<lparr>entry = map table_plain [0..<128],
          hex_map = map (\<lambda>i. if table_plain i then [] else
            [codetable ! (drop_bit 4 i AND 0x0F), codetable ! (i AND 0x0F)]) [0..<128]\<rparr>)"

text \<open>Indexing a table of 128 entries with a \<open>char\<close> converted to \<open>int\<close>.\<close>

definition table_index :: "char \<Rightarrow> nat result" where
  "table_index c = (if 0 \<le> schar c then Inr (nat (schar c)) else Inl MemoryFault)"

definition urlDecode_f_pair :: "char \<Rightarrow> char \<Rightarrow> char result" where
  "urlDecode_f_pair c1 c2 =
     bind_result (table_index c1) (\<lambda>i1. bind_result (table_index c2) (\<lambda>i2.
       Inr (chr8 (0 + (push_bit 4 (UrlDecodeTable ! i1) + UrlDecodeTable ! i2)))))"

fun urlDecode_f_loop :: "string \<Rightarrow> string result" where
  "urlDecode_f_loop [] = Inr []"
| "urlDecode_f_loop (c # cs) =
     (if c = CHR ''%'' then
        (case cs of
           [] \<Rightarrow> Inl MemoryFault
         | [c1] \<Rightarrow> bind_result (urlDecode_f_pair c1 NUL) (\<lambda>d. Inr [d])
         | c1 # c2 # r \<Rightarrow> bind_result (urlDecode_f_pair c1 c2) (\<lambda>d.
             bind_result (urlDecode_f_loop r) (\<lambda>out. Inr (d # out))))
      else bind_result (urlDecode_f_loop cs) (\<lambda>out. Inr (c # out)))"

text \<open>The \<open>memset\<close> clears \<open>len + 1\<close> bytes of the buffer; the loop writes fewer.\<close>

definition urlDecode_f :: "nat \<Rightarrow> string \<Rightarrow> string result" where
  "urlDecode_f cap input =
     (if cap < length input + 1 then Inl MemoryFault else urlDecode_f_loop input)"

fun urlEncode_f_loop :: "string \<Rightarrow> string result" where
  "urlEncode_f_loop [] = Inr []"
| "urlEncode_f_loop (c # cs) =
     bind_result (table_index c) (\<lambda>i.
       bind_result (urlEncode_f_loop cs) (\<lambda>out.
         Inr (if entry UrlEncodeTable ! i then c # out
              else CHR ''%'' # hex_map UrlEncodeTable ! i @ out)))"

definition urlEncode_f :: "nat \<Rightarrow> string \<Rightarrow> string result" where
  "urlEncode_f cap input =
     bind_result (urlEncode_f_loop input) (\<lambda>out.
       if cap < length out + 1 then Inl MemoryFault else Inr out)"

section \<open>ASCII characters and the tables\<close>

definition ascii :: "char \<Rightarrow> bool" where
  "ascii c \<longleftrightarrow> of_char c < (128 :: nat)"

lemma char_eq_nat: "n < 256 \<Longrightarrow> c = char_of n \<longleftrightarrow> of_char c = (n :: nat)"
  by (metis char_of_char of_char_of mod_less)

lemma schar_of_ascii: "ascii c \<Longrightarrow> schar c = int (of_char c)"
  by (simp add: ascii_def schar_ascii)

lemma table_index_ascii: "table_index c = (if ascii c then Inr (of_char c) else Inl MemoryFault)"
  using schar_high [of c] schar_ascii [of c] by (cases "ascii c") (auto simp: table_index_def ascii_def)

lemma UrlEncodeTable_nth:
  "i < 128 \<Longrightarrow> entry UrlEncodeTable ! i = table_plain i"
  "i < 128 \<Longrightarrow> \<not> table_plain i \<Longrightarrow> hex_map UrlEncodeTable ! i =
     [''0123456789ABCDEF'' ! (i div 16), ''0123456789ABCDEF'' ! (i mod 16)]"
proof -
  show "i < 128 \<Longrightarrow> entry UrlEncodeTable ! i = table_plain i"
    by (simp add: UrlEncodeTable_def Let_def)
  assume i: "i < 128" "\<not> table_plain i"
  have m: "n AND 0x0F = n mod 16" for n :: nat
    using take_bit_eq_mask [of 4 n] by (simp add: take_bit_eq_mod mask_eq_exp_minus_1)
  have "(drop_bit 4 i) mod 16 = i div 16"
    using i(1) by (simp add: drop_bit_eq_div)
  with i show "hex_map UrlEncodeTable ! i =
     [''0123456789ABCDEF'' ! (i div 16), ''0123456789ABCDEF'' ! (i mod 16)]"
    by (simp only: UrlEncodeTable_def Let_def m url_encode_table.simps) simp
qed

lemma schar_literals:
  "schar CHR ''0'' = 48" "schar CHR ''9'' = 57" "schar CHR ''A'' = 65" "schar CHR ''Z'' = 90"
  "schar CHR ''a'' = 97" "schar CHR ''z'' = 122"
  by (simp_all add: schar_def)

lemma unreserved_ascii: "ascii c \<Longrightarrow> unreserved c \<longleftrightarrow> table_plain (of_char c)"
proof -
  assume "ascii c"
  moreover have "of_char CHR ''-'' = (45 :: nat)" "of_char CHR ''_'' = (95 :: nat)"
    "of_char CHR ''~'' = (126 :: nat)" by simp_all
  then have "c = CHR ''-'' \<longleftrightarrow> of_char c = (45 :: nat)" "c = CHR ''_'' \<longleftrightarrow> of_char c = (95 :: nat)"
    "c = CHR ''~'' \<longleftrightarrow> of_char c = (126 :: nat)"
    by (metis of_char_eq_iff)+
  ultimately show ?thesis
    by (simp only: unreserved_def table_plain_def schar_literals schar_of_ascii) linarith
qed

lemma unreserved_is_ascii: "unreserved c \<Longrightarrow> ascii c"
  using schar_high [of c] by (cases "ascii c") (auto simp: unreserved_def schar_literals ascii_def)

lemma urlDecode_f_pair_ascii:
  assumes "ascii c1" "ascii c2"
  shows "urlDecode_f_pair c1 c2 = Inr (urlDecode_pair c1 c2)"
proof -
  have "UrlDecodeTable ! of_char c = urlDecode_digit c" if "ascii c" for c
  proof -
    have "of_char c < (128 :: nat)" "schar c = int (of_char c)" using that by (simp_all add: ascii_def schar_ascii)
    then show ?thesis
      by (simp add: UrlDecodeTable_def urlDecode_digit_def schar_literals)
  qed
  with assms show ?thesis
    by (simp add: urlDecode_f_pair_def urlDecode_pair_def table_index_ascii)
qed

section \<open>One character\<close>

lemma all_below16:
  assumes "P 0" "P 1" "P 2" "P 3" "P 4" "P 5" "P 6" "P 7" "P 8" "P 9" "P 10" "P 11" "P 12" "P 13" "P 14" "P 15"
    "d < (16 :: nat)"
  shows "P d"
proof -
  have "d \<in> set [0..<16]" using assms(17) by simp
  moreover have "[0..<16] = [0, 1, 2, 3, 4, 5, 6, 7, 8, 9, 10, 11, 12, 13, 14, 15]" by (simp add: upt_rec)
  ultimately show ?thesis using assms by auto
qed

lemma hex_digits:
  assumes "d < 16"
  shows "urlDecode_digit (''0123456789ABCDEF'' ! d) = of_nat d \<and> unreserved (''0123456789ABCDEF'' ! d)"
    "urlDecode_digit (''0123456789abcdef'' ! d) = of_nat d \<and> unreserved (''0123456789abcdef'' ! d)"
  by (rule all_below16 [OF _ _ _ _ _ _ _ _ _ _ _ _ _ _ _ _ assms];
      simp add: urlDecode_digit_def unreserved_def schar_def)+

lemma pair_of_digits:
  assumes "n < 256"
  shows "chr8 (push_bit 4 (of_nat (n div 16)) + of_nat (n mod 16)) = char_of n"
proof -
  have "push_bit 4 (of_nat (n div 16)) + of_nat (n mod 16) = (of_nat (16 * (n div 16) + n mod 16) :: byte)"
    by (simp only: of_nat_add of_nat_mult push_bit_eq_mult) simp
  also have "16 * (n div 16) + n mod 16 = n" by simp
  finally show ?thesis using assms by (simp add: chr8_def unat_of_nat)
qed


lemma nat_to_hex_two:
  assumes "n < 256"
  shows "hex_setw2 n = [''0123456789abcdef'' ! (n div 16), ''0123456789abcdef'' ! (n mod 16)]"
proof (cases "n < 16")
  case True
  then show ?thesis by (simp add: hex_setw2_def nat_to_hex.simps)
next
  case False
  with assms have "n div 16 < 16" by simp
  with False show ?thesis by (simp add: hex_setw2_def nat_to_hex.simps [of n] nat_to_hex.simps [of "n div 16"])
qed

text \<open>What an encoder may write for one character: the character itself or an escape for it.\<close>

definition coded_char :: "string \<Rightarrow> char \<Rightarrow> bool" where
  "coded_char e c \<longleftrightarrow> e = [c] \<and> unreserved c \<or>
     (\<exists>c1 c2. e = [CHR ''%'', c1, c2] \<and> unreserved c1 \<and> unreserved c2 \<and> urlDecode_pair c1 c2 = c)"

definition urlEncode_f_char :: "char \<Rightarrow> string" where
  "urlEncode_f_char c = (if entry UrlEncodeTable ! of_char c then [c]
     else CHR ''%'' # hex_map UrlEncodeTable ! of_char c)"

lemma coded_chars:
  assumes "ascii c"
  shows "coded_char (urlEncode_char c) c" "coded_char (urlEncode_f_char c) c"
proof -
  let ?n = "of_char c :: nat"
  have n: "?n < 128" "?n div 16 < 16" "?n mod 16 < 16" "?n < 256" using assms by (simp_all add: ascii_def)
  have "nat (schar c mod 2 ^ 32) = ?n"
    using n(1) schar_of_ascii [OF assms] by simp
  then show "coded_char (urlEncode_char c) c"
    using hex_digits(2) [OF n(2)] hex_digits(2) [OF n(3)] pair_of_digits [OF n(4)] nat_to_hex_two [OF n(4)]
    by (auto simp: coded_char_def urlEncode_char_def urlDecode_pair_def)
  show "coded_char (urlEncode_f_char c) c"
    using hex_digits(1) [OF n(2)] hex_digits(1) [OF n(3)] pair_of_digits [OF n(4)]
      UrlEncodeTable_nth [OF n(1)] unreserved_ascii [OF assms]
    by (auto simp: coded_char_def urlEncode_f_char_def urlDecode_pair_def)
qed

lemma not_unreserved_percent [simp]: "\<not> unreserved CHR ''%''"
  by (simp add: unreserved_def schar_def)

lemma decode_coded_char:
  assumes "coded_char e c"
  shows "urlDecode (e @ s) = bind_result (urlDecode s) (\<lambda>out. Inr (c # out))"
    "urlDecode_f_loop (e @ s) = bind_result (urlDecode_f_loop s) (\<lambda>out. Inr (c # out))"
  using assms by (auto simp: coded_char_def urlDecode_f_pair_ascii unreserved_is_ascii)

lemma decode_coded:
  assumes "\<forall>c \<in> set s. coded_char (e c) c"
  shows "urlDecode (concat (map e s) @ t) = bind_result (urlDecode t) (\<lambda>out. Inr (s @ out))"
    "urlDecode_f_loop (concat (map e s) @ t) = bind_result (urlDecode_f_loop t) (\<lambda>out. Inr (s @ out))"
proof -
  have b: "bind_result (bind_result r (\<lambda>out. Inr (s @ out))) (\<lambda>out. Inr (c # out)) =
      bind_result r (\<lambda>out. Inr (c # s @ out))" for r :: "string result" and c s
    by (cases r) simp_all
  show "urlDecode (concat (map e s) @ t) = bind_result (urlDecode t) (\<lambda>out. Inr (s @ out))"
    using assms
  proof (induction s)
    case Nil
    then show ?case by (cases "urlDecode t") simp_all
  next
    case (Cons c s)
    then show ?case using decode_coded_char(1) [of "e c" c] by (simp add: b)
  qed
  show "urlDecode_f_loop (concat (map e s) @ t) = bind_result (urlDecode_f_loop t) (\<lambda>out. Inr (s @ out))"
    using assms
  proof (induction s)
    case Nil
    then show ?case by (cases "urlDecode_f_loop t") simp_all
  next
    case (Cons c s)
    then show ?case using decode_coded_char(2) [of "e c" c] by (simp add: b)
  qed
qed

section \<open>Strings\<close>

text \<open>C36: \<open>urlDecode\<close> undoes \<open>urlEncode\<close> on every ASCII string, and the encoded string consists of
  unreserved characters and percent signs.\<close>

theorem url_round_trip:
  assumes "\<forall>c \<in> set s. ascii c"
  shows "urlDecode (urlEncode s) = Inr s \<and>
    (\<forall>c \<in> set (urlEncode s). unreserved c \<or> c = CHR ''%'')"
proof -
  have *: "\<forall>c \<in> set s. coded_char (urlEncode_char c) c" using assms coded_chars(1) by blast
  then have "urlDecode (urlEncode s) = Inr s"
    using decode_coded(1) [OF *, of "[]"] by (simp add: urlEncode_def)
  moreover have "unreserved c \<or> c = CHR ''%''" if "c \<in> set (urlEncode s)" for c
    using that * by (auto simp: urlEncode_def coded_char_def)
  ultimately show ?thesis by blast
qed

theorem url_round_trip_witness: "urlDecode (urlEncode ''a b/100%'') = Inr ''a b/100%''"
  using url_round_trip [of "''a b/100%''"] by (simp add: ascii_def)

lemma urlEncode_f_loop_eq:
  "urlEncode_f_loop s = (if \<forall>c \<in> set s. ascii c then Inr (concat (map urlEncode_f_char s)) else Inl MemoryFault)"
proof (induction s)
  case (Cons c s)
  then show ?case by (auto simp: table_index_ascii urlEncode_f_char_def [of c])
qed simp

lemma length_coded: "\<forall>c \<in> set s. coded_char (e c) c \<Longrightarrow> length (concat (map e s)) \<le> 3 * length s"
  by (induction s) (auto simp: coded_char_def)

lemma urlEncode_f_decodes:
  assumes "urlEncode_f cap s = Inr e"
  shows "urlDecode_f_loop (e @ t) = bind_result (urlDecode_f_loop t) (\<lambda>out. Inr (s @ out))"
    "\<forall>c \<in> set e. unreserved c \<or> c = CHR ''%''" "length e < cap" "\<forall>c \<in> set s. ascii c"
proof -
  have e: "\<forall>c \<in> set s. ascii c" "e = concat (map urlEncode_f_char s)" "length e < cap"
    using assms by (auto simp: urlEncode_f_def urlEncode_f_loop_eq bind_result_eq_Inr split: if_splits)
  then have *: "\<forall>c \<in> set s. coded_char (urlEncode_f_char c) c" using coded_chars(2) by blast
  show "urlDecode_f_loop (e @ t) = bind_result (urlDecode_f_loop t) (\<lambda>out. Inr (s @ out))"
    using decode_coded(2) [OF *] e(2) by simp
  show "\<forall>c \<in> set e. unreserved c \<or> c = CHR ''%''"
    using * e(2) by (auto simp: coded_char_def)
  show "length e < cap" "\<forall>c \<in> set s. ascii c" using e by simp_all
qed

text \<open>C22: the table encoder is safe on exactly the ASCII strings whose encoding fits the buffer with its
  terminator (three bytes for each character are enough), and the table decoder then restores the input.\<close>

theorem url_f_round_trip:
  assumes "\<forall>c \<in> set s. ascii c" "3 * length s < cap"
  shows "\<exists>e. urlEncode_f cap s = Inr e \<and> length e \<le> 3 * length s \<and>
    (\<forall>cap'. length e < cap' \<longrightarrow> urlDecode_f cap' e = Inr s)"
proof -
  let ?e = "concat (map urlEncode_f_char s)"
  have *: "\<forall>c \<in> set s. coded_char (urlEncode_f_char c) c" using assms(1) coded_chars(2) by blast
  then have len: "length ?e \<le> 3 * length s" by (rule length_coded)
  then have enc: "urlEncode_f cap s = Inr ?e"
    using assms by (simp add: urlEncode_f_def urlEncode_f_loop_eq)
  then have "urlDecode_f cap' ?e = Inr s" if "length ?e < cap'" for cap'
    using urlEncode_f_decodes(1) [OF enc, of "[]"] that by (simp add: urlDecode_f_def)
  with enc len show ?thesis by blast
qed

theorem url_f_round_trip_witness:
  "\<exists>e. urlEncode_f 2048 ''k=v|7'' = Inr e \<and> length e \<le> 15 \<and> urlDecode_f 16 e = Inr ''k=v|7''"
proof -
  have "\<forall>c \<in> set ''k=v|7''. ascii c" "3 * length ''k=v|7'' < 2048" by (simp_all add: ascii_def)
  from url_f_round_trip [OF this] show ?thesis by auto
qed

text \<open>C23: on an ASCII input that fits the buffer the table decoder and the stream decoder agree, also on
  malformed escapes and on an escape cut off by the end of the string.\<close>

theorem urlDecode_f_equiv:
  assumes "\<forall>c \<in> set s. ascii c" "length s < cap"
  shows "urlDecode_f cap s = urlDecode s"
proof -
  have "ascii NUL" by (simp add: ascii_def)
  then have "\<forall>c \<in> set s. ascii c \<Longrightarrow> urlDecode_f_loop s = urlDecode s" for s
    by (induction s rule: urlDecode_f_loop.induct)
      (auto simp: urlDecode_f_pair_ascii split: list.splits)
  with assms show ?thesis by (simp add: urlDecode_f_def)
qed

theorem urlDecode_f_equiv_witness: "urlDecode_f 2048 ''%7cx%4'' = urlDecode ''%7cx%4''"
  using urlDecode_f_equiv [of "''%7cx%4''" 2048] by (simp add: ascii_def)

lemma sign_extended:
  assumes "128 \<le> n" "n < 256"
  shows "nat ((int n - 256) mod 2 ^ 32) = 0xFFFFFF00 + n"
proof -
  have "(int n - 256) mod 2 ^ 32 = (int n - 256 + 2 ^ 32) mod 2 ^ 32" by (simp only: mod_add_self2)
  also have "\<dots> = int (0xFFFFFF00 + n)" using assms by simp
  finally show ?thesis by (simp only: nat_int)
qed

lemma nat_to_hex_snoc: "16 \<le> n \<Longrightarrow> nat_to_hex n = nat_to_hex (n div 16) @ [''0123456789abcdef'' ! (n mod 16)]"
  by (simp add: nat_to_hex.simps [of n])

text \<open>\<open>urlEncode\<close> does not encode a byte above 127: the sign-extended character prints as eight hex
  digits, and decoding gives a seven-character string instead of the byte.\<close>

theorem urlEncode_high_byte:
  assumes "\<not> ascii c"
  shows "length (urlEncode [c]) = 9 \<and> urlDecode (urlEncode [c]) \<noteq> Inr [c]"
proof -
  let ?n = "of_char c :: nat"
  have n: "128 \<le> ?n" "?n < 256" using assms nat_of_char_less_256 [of c] by (simp_all add: ascii_def)
  have "schar c = int ?n - 256" using n by (simp add: schar_def)
  then have "nat (schar c mod 2 ^ 32) = 0xFFFFFF00 + ?n"
    using sign_extended [OF n] by simp
  moreover have "(0xFFFFFF00 + ?n) div 16 = 0xFFFFFF0 + ?n div 16" "(0xFFFFFF0 + ?n div 16) div 16 = 0xFFFFFF"
    using n by linarith+
  then have "nat_to_hex (0xFFFFFF00 + ?n) = ''ffffff'' @
      [''0123456789abcdef'' ! ((0xFFFFFF0 + ?n div 16) mod 16), ''0123456789abcdef'' ! ((0xFFFFFF00 + ?n) mod 16)]"
    using nat_to_hex_snoc [of "0xFFFFFF00 + ?n"] nat_to_hex_snoc [of "0xFFFFFF0 + ?n div 16"]
    by (simp add: nat_to_hex.simps)
  moreover have "\<not> unreserved c" using assms unreserved_is_ascii by blast
  ultimately obtain c1 c2 where e: "urlEncode [c] = ''%ffffff'' @ [c1, c2]"
    by (simp add: urlEncode_def urlEncode_char_def hex_setw2_def)
  show ?thesis unfolding e by (cases "urlDecode [c1, c2]") (auto simp: bind_result_eq_Inr)
qed

theorem urlEncode_high_byte_witness: "urlDecode (urlEncode [CHR 0xE4]) \<noteq> Inr [CHR 0xE4]"
  using urlEncode_high_byte [of "CHR 0xE4"] by (simp add: ascii_def)

end
