(* ===== verification/Url_Param.thy ===== *)
theory Url_Param
  imports Url_Codec
begin

text \<open>
  Model of the query-string and cookie parsers of utility/url.cpp and of the small extractors around
  them.  The parsers walk a C string with a cursor \<open>p\<close> and the start \<open>p0\<close> of the current token; the
  model keeps both as indices into the characters before the terminating NUL.
\<close>

section \<open>The parsers\<close>

text \<open>\<open>while (*p0 == ' ') p0++\<close>; the terminator stops the loop.\<close>

function skip_spaces :: "string \<Rightarrow> nat \<Rightarrow> nat" where
  "skip_spaces s p0 =
     (if p0 < length s \<and> s ! p0 = CHR '' '' then skip_spaces s (Suc p0) else p0)"
  by pat_completeness auto
termination
  by (relation "measure (\<lambda>(s, p0). length s - p0)") auto

declare skip_spaces.simps [simp del]

definition token :: "string \<Rightarrow> nat \<Rightarrow> nat \<Rightarrow> string" where
  "token s p0 p = take (p - p0) (drop p0 s)"

record parse_state =
  ps_p :: nat
  ps_p0 :: nat
  ps_key :: string
  ps_pairFlag :: bool
  ps_map :: param_map

definition parse_start :: "param_map \<Rightarrow> parse_state" where
  "parse_start m = \<lparr>ps_p = 0, ps_p0 = 0, ps_key = [], ps_pairFlag = False, ps_map = m\<rparr>"

text \<open>One turn of the loop of \<open>getParam\<close>.\<close>

definition getParam_step :: "string \<Rightarrow> char \<Rightarrow> parse_state \<Rightarrow> parse_state" where
  "getParam_step s sep st =
     (let p = ps_p st; p0 = skip_spaces s (ps_p0 st) in
      if s ! p = CHR ''='' then
        st\<lparr>ps_key := (if p0 \<noteq> p then token s p0 p else ps_key st), ps_p0 := p + 1, ps_p := p + 1\<rparr>
      else if s ! p = sep then
        st\<lparr>ps_map := (if p0 \<noteq> p then (ps_map st)(ps_key st \<mapsto> token s p0 p) else ps_map st),
          ps_p0 := p + 1, ps_p := p + 1\<rparr>
      else st\<lparr>ps_p := p + 1\<rparr>)"

text \<open>One turn of the loop of \<open>getParamv2\<close>.\<close>

definition getParamv2_step :: "string \<Rightarrow> char \<Rightarrow> parse_state \<Rightarrow> parse_state" where
  "getParamv2_step s sep st =
     (let p = ps_p st; p0 = skip_spaces s (ps_p0 st) in
      if \<not> ps_pairFlag st \<and> s ! p = CHR ''='' then
        st\<lparr>ps_key := (if p0 \<noteq> p then token s p0 p else ps_key st),
          ps_pairFlag := (p0 \<noteq> p), ps_p0 := p + 1, ps_p := p + 1\<rparr>
      else if s ! p = sep then
        (if p0 \<noteq> p \<or> (p0 < length s \<and> s ! p0 = sep) then
           st\<lparr>ps_map := (ps_map st)(ps_key st \<mapsto> token s p0 p), ps_pairFlag := False,
             ps_p0 := p + 1, ps_p := p + 1\<rparr>
         else st\<lparr>ps_p0 := p + 1, ps_p := p + 1\<rparr>)
      else st\<lparr>ps_p := p + 1\<rparr>)"

text \<open>The text left over at the terminator is a last value.\<close>

definition parse_finish :: "string \<Rightarrow> parse_state \<Rightarrow> param_map" where
  "parse_finish s st =
     (if ps_p st \<noteq> ps_p0 st then (ps_map st)(ps_key st \<mapsto> token s (ps_p0 st) (ps_p st))
      else ps_map st)"

definition getParam :: "param_map \<Rightarrow> string \<Rightarrow> char \<Rightarrow> param_map" where
  "getParam m buffer sep =
     (let s = cstr buffer
      in parse_finish s ((getParam_step s sep ^^ length s) (parse_start m)))"

definition getParamv2 :: "param_map \<Rightarrow> string \<Rightarrow> char \<Rightarrow> param_map" where
  "getParamv2 m buffer sep =
     (let s = cstr buffer
      in parse_finish s ((getParamv2_step s sep ^^ length s) (parse_start m)))"

definition getCookiesParam :: "param_map \<Rightarrow> string \<Rightarrow> param_map" where
  "getCookiesParam m buffer = getParam m buffer CHR '';''"

text \<open>\<open>m[key]\<close> of an unordered map gives the empty string for a missing key.\<close>

definition map_index :: "param_map \<Rightarrow> string \<Rightarrow> string" where
  "map_index m k = (case m k of Some v \<Rightarrow> v | None \<Rightarrow> [])"

definition extractCookiesParam :: "string \<Rightarrow> string \<Rightarrow> string" where
  "extractCookiesParam key input = map_index (getParamv2 Map.empty input CHR '';'') key"

section \<open>Extractors\<close>

text \<open>\<open>long\<close> arithmetic wraps at 64 bits.\<close>

definition extractNumber :: "string \<Rightarrow> i64" where
  "extractNumber input =
     foldl (\<lambda>result c. if 0x30 \<le> schar c \<and> schar c \<le> 0x39
        then (push_bit 3 result + push_bit 1 result) + word_of_int (schar c - 0x30) else result)
       0 (cstr input)"

text \<open>\<open>extractAreaInfo\<close> moves \<open>p2\<close> to the next dash and steps over it; stepping over the terminator is outside.\<close>

definition area_token :: "string \<Rightarrow> string \<times> string option" where
  "area_token s =
     (takeWhile (\<lambda>c. c \<noteq> CHR ''-'') s,
      case dropWhile (\<lambda>c. c \<noteq> CHR ''-'') s of [] \<Rightarrow> None | _ # r \<Rightarrow> Some r)"

definition extractAreaInfo :: "string \<Rightarrow> (int \<times> int \<times> int) result" where
  "extractAreaInfo input =
     (let s1 = cstr input in
      case snd (area_token s1) of None \<Rightarrow> Inl MemoryFault
      | Some s2 \<Rightarrow> (case snd (area_token s2) of None \<Rightarrow> Inl MemoryFault
         | Some s3 \<Rightarrow> Inr (atoi s1, atoi s2, atoi s3)))"

definition stringSafeInput :: "string \<Rightarrow> nat \<Rightarrow> string" where
  "stringSafeInput input len = (if len < length input then take len input else input)"

definition stringSafeNumber :: "string \<Rightarrow> string" where
  "stringSafeNumber input = (case stol input of Inr num \<Rightarrow> to_string num | Inl e \<Rightarrow> ''0'')"

definition stringSafeNumber_inplace :: "string \<Rightarrow> string" where
  "stringSafeNumber_inplace input =
     (if \<exists>c \<in> set (cstr input). schar c < 0x30 \<or> schar c > 0x39 then ''0'' else input)"

definition stringToInt :: "string \<Rightarrow> int" where
  "stringToInt s = (case stol s of Inr v \<Rightarrow> v | Inl e \<Rightarrow> 0)"

definition intToString :: "int \<Rightarrow> string" where
  "intToString i = to_string i"

section \<open>Replacement\<close>

definition url_replace :: "string \<Rightarrow> string \<Rightarrow> string \<Rightarrow> bool \<times> string" where
  "url_replace str from to =
     (case str_find str from 0 of None \<Rightarrow> (False, str)
      | Some pos \<Rightarrow> (True, str_replace str pos (length from) to))"

text \<open>The loop of \<open>url_replace_all\<close> searches again from the position of the last replacement; it need not end.\<close>

partial_function (option) url_replace_all_loop ::
  "string \<Rightarrow> string \<Rightarrow> string \<Rightarrow> nat \<Rightarrow> string option" where
  "url_replace_all_loop str from to pos =
     (case str_find str from pos of None \<Rightarrow> Some str
      | Some pos' \<Rightarrow> url_replace_all_loop (str_replace str pos' (length from) to) from to pos')"

definition url_replace_all :: "string \<Rightarrow> string \<Rightarrow> string \<Rightarrow> string option" where
  "url_replace_all str from to = url_replace_all_loop str from to 0"

section \<open>The contract of a pair parser\<close>

text \<open>The text of a list of pairs, and the pairs a parser can be expected to read back.\<close>

fun query :: "char \<Rightarrow> (string \<times> string) list \<Rightarrow> string" where
  "query sep [] = []"
| "query sep [(k, v)] = k @ CHR ''='' # v"
| "query sep ((k, v) # kv # kvs) = k @ CHR ''='' # v @ sep # query sep (kv # kvs)"

definition plain_pair :: "(char \<Rightarrow> bool) \<Rightarrow> bool \<Rightarrow> char \<Rightarrow> string \<times> string \<Rightarrow> bool" where
  "plain_pair value_char emp sep kv \<longleftrightarrow> fst kv \<noteq> [] \<and> hd (fst kv) \<noteq> CHR '' '' \<and>
     (\<forall>c \<in> set (fst kv). c \<noteq> CHR ''='' \<and> c \<noteq> sep \<and> c \<noteq> NUL) \<and>
     (\<forall>c \<in> set (snd kv). value_char c \<and> c \<noteq> NUL) \<and>
     (snd kv = [] \<longrightarrow> emp) \<and> (snd kv \<noteq> [] \<longrightarrow> hd (snd kv) \<noteq> CHR '' '')"

text \<open>At the end of the text an empty value is not seen: a last pair without value is not stored.\<close>

definition stored_pairs :: "(string \<times> string) list \<Rightarrow> (string \<times> string) list" where
  "stored_pairs kvs = (if kvs \<noteq> [] \<and> snd (last kvs) = [] then butlast kvs else kvs)"

lemma stored_pairs_simps [simp]:
  "stored_pairs [] = []"
  "stored_pairs [(k, v)] = (if v = [] then [] else [(k, v)])"
  "stored_pairs (x # y # kvs) = x # stored_pairs (y # kvs)"
  by (simp_all add: stored_pairs_def)

lemma skip_spaces_stop: "p0 < length s \<Longrightarrow> s ! p0 \<noteq> CHR '' '' \<Longrightarrow> skip_spaces s p0 = p0"
  by (simp add: skip_spaces.simps)

lemma token_append: "token (pre @ w @ post) (length pre) (length pre + length w) = w"
  by (simp add: token_def)

lemma map_upd_add_rev: "m(k \<mapsto> v) ++ map_of (rev r) = m ++ map_of (rev ((k, v) # r))"
  by (simp add: map_add_def fun_eq_iff split: option.splits)

lemma funpow_then: "(f ^^ b) x = y \<Longrightarrow> (f ^^ a) y = z \<Longrightarrow> (f ^^ (a + b)) x = z"
  by (simp add: funpow_add)

lemma plain_pair_NUL: "plain_pair vc emp sep (k, v) \<Longrightarrow> NUL \<notin> set k \<and> NUL \<notin> set v"
  unfolding plain_pair_def by fastforce

lemma query_NUL:
  "sep \<noteq> NUL \<Longrightarrow> \<forall>kv \<in> set kvs. plain_pair vc emp sep kv \<Longrightarrow> NUL \<notin> set (query sep kvs)"
  by (induction sep kvs rule: query.induct) (simp_all, (metis plain_pair_NUL)+)

text \<open>
  Both parsers are instances of one contract: what a turn does on a plain character, on the equals sign
  that ends a key and on the separator that ends a value.  \<open>flag\<close> is the value of \<open>pairFlag\<close> between the
  equals sign and the separator, \<open>val_char\<close> the characters a value may hold, \<open>empty_ok\<close> whether an empty
  value is stored.
\<close>

locale pair_parser =
  fixes step :: "string \<Rightarrow> char \<Rightarrow> parse_state \<Rightarrow> parse_state"
    and flag :: bool and val_char :: "char \<Rightarrow> char \<Rightarrow> bool" and empty_ok :: bool
  assumes on_key_char: "s ! ps_p st \<noteq> CHR ''='' \<Longrightarrow> s ! ps_p st \<noteq> sep \<Longrightarrow>
      step s sep st = st\<lparr>ps_p := ps_p st + 1\<rparr>"
    and on_value_char: "val_char sep (s ! ps_p st) \<Longrightarrow> ps_pairFlag st = flag \<Longrightarrow>
      step s sep st = st\<lparr>ps_p := ps_p st + 1\<rparr>"
    and on_equals: "s ! ps_p st = CHR ''='' \<Longrightarrow> \<not> ps_pairFlag st \<Longrightarrow>
      skip_spaces s (ps_p0 st) = ps_p0 st \<Longrightarrow> ps_p0 st \<noteq> ps_p st \<Longrightarrow>
      step s sep st = st\<lparr>ps_key := token s (ps_p0 st) (ps_p st), ps_pairFlag := flag,
        ps_p0 := ps_p st + 1, ps_p := ps_p st + 1\<rparr>"
    and on_separator: "ps_p st < length s \<Longrightarrow> s ! ps_p st = sep \<Longrightarrow> sep \<noteq> CHR ''='' \<Longrightarrow>
      skip_spaces s (ps_p0 st) = ps_p0 st \<Longrightarrow> ps_p0 st \<noteq> ps_p st \<or> empty_ok \<Longrightarrow>
      ps_pairFlag st = flag \<Longrightarrow>
      step s sep st = st\<lparr>ps_map := (ps_map st)(ps_key st \<mapsto> token s (ps_p0 st) (ps_p st)),
        ps_pairFlag := False, ps_p0 := ps_p st + 1, ps_p := ps_p st + 1\<rparr>"
begin

lemma run_key:
  "\<forall>c \<in> set w. c \<noteq> CHR ''='' \<and> c \<noteq> sep \<Longrightarrow> s = pre @ w @ post \<Longrightarrow> ps_p st = length pre \<Longrightarrow>
   (step s sep ^^ length w) st = st\<lparr>ps_p := ps_p st + length w\<rparr>"
proof (induction w arbitrary: pre st)
  case (Cons c w)
  have "step s sep st = st\<lparr>ps_p := ps_p st + 1\<rparr>"
    using Cons.prems by (intro on_key_char) simp_all
  then show ?case
    using Cons.IH [of "pre @ [c]" "st\<lparr>ps_p := ps_p st + 1\<rparr>"] Cons.prems
    by (simp add: funpow_swap1)
qed simp

lemma run_value:
  "\<forall>c \<in> set w. val_char sep c \<Longrightarrow> s = pre @ w @ post \<Longrightarrow> ps_p st = length pre \<Longrightarrow> ps_pairFlag st = flag \<Longrightarrow>
   (step s sep ^^ length w) st = st\<lparr>ps_p := ps_p st + length w\<rparr>"
proof (induction w arbitrary: pre st)
  case (Cons c w)
  have "step s sep st = st\<lparr>ps_p := ps_p st + 1\<rparr>"
    using Cons.prems by (intro on_value_char) simp_all
  then show ?case
    using Cons.IH [of "pre @ [c]" "st\<lparr>ps_p := ps_p st + 1\<rparr>"] Cons.prems
    by (simp add: funpow_swap1)
qed simp

lemma on_key:
  assumes ok: "plain_pair (val_char sep) empty_ok sep (k, v)"
    and s: "s = pre @ k @ CHR ''='' # post"
    and st: "ps_p st = length pre" "ps_p0 st = length pre" "\<not> ps_pairFlag st"
  shows "(step s sep ^^ (length k + 1)) st =
    st\<lparr>ps_key := k, ps_pairFlag := flag, ps_p0 := length pre + length k + 1, ps_p := length pre + length k + 1\<rparr>"
proof -
  let ?st = "st\<lparr>ps_p := length pre + length k\<rparr>"
  have k: "k \<noteq> []" "hd k \<noteq> CHR '' ''" using ok by (simp_all add: plain_pair_def)
  have "(step s sep ^^ length k) st = ?st"
    using run_key [of k sep s pre "CHR ''='' # post" st] ok s st by (simp add: plain_pair_def)
  moreover have "skip_spaces s (length pre) = length pre"
    using k s by (intro skip_spaces_stop) (auto simp: nth_append hd_conv_nth)
  moreover have "token s (length pre) (length pre + length k) = k"
    unfolding s by (rule token_append)
  moreover have "s ! (length pre + length k) = CHR ''=''" using s by (simp add: nth_append)
  ultimately show ?thesis
    using on_equals [of s ?st sep] st k by simp
qed

lemma on_value:
  assumes ok: "plain_pair (val_char sep) empty_ok sep (k, v)" and sep: "sep \<noteq> CHR ''=''" "sep \<noteq> CHR '' ''"
    and s: "s = pre @ v @ sep # post"
    and st: "ps_p st = length pre" "ps_p0 st = length pre" "ps_pairFlag st = flag" "ps_key st = k"
  shows "(step s sep ^^ (length v + 1)) st =
    st\<lparr>ps_map := (ps_map st)(k \<mapsto> v), ps_pairFlag := False,
      ps_p0 := length pre + length v + 1, ps_p := length pre + length v + 1\<rparr>"
proof -
  let ?st = "st\<lparr>ps_p := length pre + length v\<rparr>"
  have "(step s sep ^^ length v) st = ?st"
    using run_value [of v sep s pre "sep # post" st] ok s st by (simp add: plain_pair_def)
  moreover have "skip_spaces s (length pre) = length pre"
    using ok s sep by (intro skip_spaces_stop) (cases v; auto simp: nth_append plain_pair_def)+
  moreover have "token s (length pre) (length pre + length v) = v"
    unfolding s by (rule token_append)
  moreover have "s ! (length pre + length v) = sep" "length pre + length v < length s" using s by (simp_all add: nth_append)
  moreover have "v = [] \<longrightarrow> empty_ok" using ok by (simp add: plain_pair_def)
  ultimately show ?thesis
    using on_separator [of ?st s sep] st sep by auto
qed

lemma run_query:
  assumes "\<forall>kv \<in> set kvs. plain_pair (val_char sep) empty_ok sep kv" "sep \<noteq> CHR ''=''" "sep \<noteq> CHR '' ''"
    "s = pre @ query sep kvs"
    "ps_p st = length pre" "ps_p0 st = length pre" "\<not> ps_pairFlag st"
  shows "parse_finish s ((step s sep ^^ length (query sep kvs)) st) = ps_map st ++ map_of (rev (stored_pairs kvs))"
  using assms
proof (induction sep kvs arbitrary: pre st rule: query.induct)
  case (1 sep)
  from "1.prems" show ?case by (simp add: parse_finish_def)
next
  case (2 sep k v)
  let ?p = "length pre + length k + 1"
  have key: "(step s sep ^^ (length k + 1)) st = st\<lparr>ps_key := k, ps_pairFlag := flag, ps_p0 := ?p, ps_p := ?p\<rparr>"
    using "2.prems" by (intro on_key [of sep k v s pre v]) simp_all
  have val: "(step s sep ^^ length v) (st\<lparr>ps_key := k, ps_pairFlag := flag, ps_p0 := ?p, ps_p := ?p\<rparr>) =
      st\<lparr>ps_key := k, ps_pairFlag := flag, ps_p0 := ?p, ps_p := ?p + length v\<rparr>"
    using "2.prems" run_value [of v sep s "pre @ k @ ''=''" "[]"] by (simp add: plain_pair_def)
  have len: "length (query sep [(k, v)]) = length v + (length k + 1)" by simp
  have "token s ?p (?p + length v) = v"
    using token_append [of "pre @ k @ ''=''" v "[]"] "2.prems" by simp
  then show ?case
    unfolding len funpow_then [OF key val]
    by (simp add: parse_finish_def map_add_def fun_eq_iff)
next
  case (3 sep k v kv kvs)
  let ?p = "length pre + length k + 1" and ?post = "query sep (kv # kvs)"
  let ?q = "?p + length v + 1"
  let ?st = "st\<lparr>ps_key := k, ps_map := (ps_map st)(k \<mapsto> v), ps_pairFlag := False, ps_p0 := ?q, ps_p := ?q\<rparr>"
  have key: "(step s sep ^^ (length k + 1)) st = st\<lparr>ps_key := k, ps_pairFlag := flag, ps_p0 := ?p, ps_p := ?p\<rparr>"
    using "3.prems" by (intro on_key [of sep k v s pre "v @ sep # ?post"]) simp_all
  have val: "(step s sep ^^ (length v + 1)) (st\<lparr>ps_key := k, ps_pairFlag := flag, ps_p0 := ?p, ps_p := ?p\<rparr>) = ?st"
    using "3.prems" by (subst on_value [of sep k v s "pre @ k @ ''=''" ?post]) simp_all
  have len: "length (query sep ((k, v) # kv # kvs)) = length ?post + ((length v + 1) + (length k + 1))" by simp
  have run: "(step s sep ^^ length (query sep ((k, v) # kv # kvs))) st = (step s sep ^^ length ?post) ?st"
    unfolding len by (rule funpow_then [OF funpow_then [OF key val] refl])
  have "parse_finish s ((step s sep ^^ length ?post) ?st) = ps_map ?st ++ map_of (rev (stored_pairs (kv # kvs)))"
    using "3.prems" by (intro "3.IH" [of "pre @ k @ ''='' @ v @ [sep]"]) simp_all
  also have "ps_map ?st ++ map_of (rev (stored_pairs (kv # kvs))) = ps_map st ++ map_of (rev (stored_pairs ((k, v) # kv # kvs)))"
    using map_upd_add_rev [of "ps_map st" k v "stored_pairs (kv # kvs)"] by simp
  finally show ?case by (simp only: run)
qed

end

interpretation v1: pair_parser getParam_step False "\<lambda>sep c. c \<noteq> sep \<and> c \<noteq> CHR ''=''" False
  by unfold_locales (simp_all add: getParam_step_def Let_def)

interpretation v2: pair_parser getParamv2_step True "\<lambda>sep c. c \<noteq> sep" True
  by unfold_locales (auto simp: getParamv2_step_def Let_def)

text \<open>C16: What \<open>getParamv2\<close> returns for every printed list of plain pairs (keys without separators or a leading
  blank, values without the separator or a leading blank, possibly empty, an equals sign in a value included): a
  repeated key keeps the last value, older entries of the map stay, and exactly a last pair with an empty value is lost.\<close>

theorem getParamv2_query:
  assumes "\<forall>kv \<in> set kvs. plain_pair (\<lambda>c. c \<noteq> sep) True sep kv" "sep \<notin> {CHR ''='', CHR '' '', NUL}"
  shows "getParamv2 m (query sep kvs) sep =
    m ++ map_of (rev (if kvs \<noteq> [] \<and> snd (last kvs) = [] then butlast kvs else kvs))"
proof -
  have "cstr (query sep kvs) = query sep kvs"
    using assms(2) query_NUL [OF _ assms(1)] by (intro cstr_id) simp
  then show ?thesis
    using v2.run_query [of kvs sep "query sep kvs" "[]" "parse_start m"] assms
    unfolding stored_pairs_def by (simp add: getParamv2_def parse_start_def)
qed

theorem getParamv2_query_witness:
  "getParamv2 Map.empty ''_q_=YWI=&x=&y=2'' CHR ''&'' =
     [''_q_'' \<mapsto> ''YWI='', ''x'' \<mapsto> [], ''y'' \<mapsto> ''2''] \<and>
   getParamv2 [''b'' \<mapsto> ''7''] ''a=1&b='' CHR ''&'' = [''a'' \<mapsto> ''1'', ''b'' \<mapsto> ''7'']"
proof
  show "getParamv2 Map.empty ''_q_=YWI=&x=&y=2'' CHR ''&'' = [''_q_'' \<mapsto> ''YWI='', ''x'' \<mapsto> [], ''y'' \<mapsto> ''2'']"
    using getParamv2_query [of "[(''_q_'', ''YWI=''), (''x'', []), (''y'', ''2'')]" "CHR ''&''" Map.empty]
    by (simp add: plain_pair_def fun_upd_twist)
  show "getParamv2 [''b'' \<mapsto> ''7''] ''a=1&b='' CHR ''&'' = [''a'' \<mapsto> ''1'', ''b'' \<mapsto> ''7'']"
    using getParamv2_query [of "[(''a'', ''1''), (''b'', [])]" "CHR ''&''" "[''b'' \<mapsto> ''7'']"]
    by (simp add: plain_pair_def fun_eq_iff)
qed

text \<open>C38: \<open>getParam\<close> reads back printed lists of pairs with non-empty values that contain no equals sign;
  this is the parser behind \<open>getCookiesParam\<close>.\<close>

theorem getParam_query:
  assumes "\<forall>kv \<in> set kvs. plain_pair (\<lambda>c. c \<noteq> sep \<and> c \<noteq> CHR ''='') False sep kv" "kvs \<noteq> []"
    "sep \<notin> {CHR ''='', CHR '' '', NUL}"
  shows "getParam m (query sep kvs) sep = m ++ map_of (rev kvs)"
proof -
  have "cstr (query sep kvs) = query sep kvs"
    using assms(3) query_NUL [OF _ assms(1)] by (intro cstr_id) simp
  moreover have "stored_pairs kvs = kvs"
  proof -
    have "plain_pair (\<lambda>c. c \<noteq> sep \<and> c \<noteq> CHR ''='') False sep (last kvs)" using assms(1,2) by simp
    then show ?thesis by (simp add: stored_pairs_def plain_pair_def)
  qed
  ultimately show ?thesis
    using v1.run_query [of kvs sep "query sep kvs" "[]" "parse_start m"] assms
    by (simp add: getParam_def parse_start_def)
qed

theorem getParam_query_witness:
  "getParam Map.empty ''a=1;b=22'' CHR '';'' = [''a'' \<mapsto> ''1'', ''b'' \<mapsto> ''22'']"
  using getParam_query [of "[(''a'', ''1''), (''b'', ''22'')]" "CHR '';''" Map.empty]
  by (simp add: plain_pair_def fun_upd_twist)

text \<open>a segment without an equals sign is not skipped: \<open>getParamv2\<close> stores it under the key of the
  segment before it and so replaces that key's value.\<close>

theorem getParamv2_stale_key:
  assumes "plain_pair (\<lambda>c. c \<noteq> sep) True sep (k, v)" "sep \<notin> {CHR ''='', CHR '' '', NUL}"
    "w \<noteq> []" "\<forall>c \<in> set w. c \<noteq> sep \<and> c \<noteq> CHR ''='' \<and> c \<noteq> NUL"
  shows "getParamv2 m (k @ CHR ''='' # v @ sep # w) sep = m(k \<mapsto> w)"
proof -
  let ?s = "k @ CHR ''='' # v @ sep # w" and ?p = "length k + 1"
  let ?q = "?p + length v + 1"
  let ?st = "(parse_start m)\<lparr>ps_key := k, ps_pairFlag := True, ps_p0 := ?p, ps_p := ?p\<rparr>"
  let ?st' = "(parse_start m)\<lparr>ps_key := k, ps_map := m(k \<mapsto> v), ps_pairFlag := False, ps_p0 := ?q, ps_p := ?q\<rparr>"
  have s: "cstr ?s = ?s"
    using assms(2,4) plain_pair_NUL [OF assms(1)] by (intro cstr_id) auto
  have key: "(getParamv2_step ?s sep ^^ (length k + 1)) (parse_start m) = ?st"
    using v2.on_key [OF assms(1), of ?s "[]" "v @ sep # w" "parse_start m"] by (simp add: parse_start_def)
  have val: "(getParamv2_step ?s sep ^^ (length v + 1)) ?st = ?st'"
    using v2.on_value [OF assms(1), of ?s "k @ ''=''" w ?st] assms(2) by (simp add: parse_start_def)
  have rest: "(getParamv2_step ?s sep ^^ length w) ?st' = ?st'\<lparr>ps_p := ?q + length w\<rparr>"
    using v2.run_key [of w sep ?s "k @ ''='' @ v @ [sep]" "[]" ?st'] assms(4) by simp
  have len: "length ?s = length w + ((length v + 1) + (length k + 1))" by simp
  have "token ?s ?q (?q + length w) = w"
    using token_append [of "k @ ''='' @ v @ [sep]" w "[]"] by simp
  then show ?thesis
    unfolding getParamv2_def Let_def s len funpow_then [OF funpow_then [OF key val] rest]
    using assms(3) by (simp add: parse_finish_def)
qed

theorem getParamv2_stale_key_witness:
  "getParamv2 Map.empty ''u=abc&junk'' CHR ''&'' = [''u'' \<mapsto> ''junk'']"
  using getParamv2_stale_key [of "CHR ''&''" "''u''" "''abc''" "''junk''" Map.empty]
  by (simp add: plain_pair_def)

section \<open>Replacement\<close>

lemma find_sub_single: "find_sub [a] s = (if a \<in> set s then Some (length (takeWhile (\<lambda>c. c \<noteq> a) s)) else None)"
  by (induction s) auto

lemma subst_absent: "a \<notin> set s \<Longrightarrow> concat (map (\<lambda>c. if c = a then t else [c]) s) = s"
  by (induction s) auto

lemma str_find_char:
  assumes "a \<notin> set pre" "n \<le> length pre" 
  shows "a \<notin> set s \<Longrightarrow> str_find (pre @ s) [a] n = None"
    "a \<notin> set u \<Longrightarrow> str_find (pre @ u @ a # w) [a] n = Some (length pre + length u)"
proof -
  show "a \<notin> set s \<Longrightarrow> str_find (pre @ s) [a] n = None"
    using assms by (auto simp: str_find_def find_sub_single dest: in_set_dropD)
  assume "a \<notin> set u"
  then have "a \<notin> set (drop n pre @ u)" using assms(1) by (auto dest: in_set_dropD)
  then have "takeWhile (\<lambda>c. c \<noteq> a) ((drop n pre @ u) @ a # w) = drop n pre @ u"
    by (subst takeWhile_append2) auto
  then show "str_find (pre @ u @ a # w) [a] n = Some (length pre + length u)"
    using assms(2) by (simp add: str_find_def find_sub_single)
qed

lemma replace_single_loop:
  assumes "a \<notin> set t"
  shows "a \<notin> set pre \<Longrightarrow> n \<le> length pre \<Longrightarrow>
    url_replace_all_loop (pre @ s) [a] t n = Some (pre @ concat (map (\<lambda>c. if c = a then t else [c]) s))"
proof (induction "length s" arbitrary: pre s n rule: less_induct)
  case less
  note loop = url_replace_all_loop.simps [of "pre @ s" "[a]" t n]
  show ?case
  proof (cases "a \<in> set s")
    case False
    then show ?thesis
      unfolding loop str_find_char(1) [OF less.prems False] by (simp add: subst_absent)
  next
    case True
    then obtain u w where s: "s = u @ a # w" "a \<notin> set u" by (meson split_list_first)
    let ?q = "length pre + length u"
    have "str_replace (pre @ s) ?q (length [a]) t = (pre @ u @ t) @ w"
      using s by (simp add: str_replace_def)
    then have "url_replace_all_loop (pre @ s) [a] t n = url_replace_all_loop ((pre @ u @ t) @ w) [a] t ?q"
      unfolding loop using str_find_char(2) [OF less.prems s(2), of w] s(1) by simp
    also have "\<dots> = Some ((pre @ u @ t) @ concat (map (\<lambda>c. if c = a then t else [c]) w))"
      using less.prems s assms by (intro less.hyps) simp_all
    finally show ?thesis using s subst_absent [OF s(2)] by simp
  qed
qed

text \<open>C40: replacing every occurrence of one character by a text that does not contain it ends, and the
  result is the character-wise substitution (the \<open>-\<close> to \<open>%\<close> repair of \<open>processParamDataWithRetry\<close>).\<close>

theorem url_replace_all_char:
  assumes "a \<notin> set t"
  shows "url_replace_all s [a] t = Some (concat (map (\<lambda>c. if c = a then t else [c]) s))"
  using replace_single_loop [OF assms, of "[]" 0 s] by (simp add: url_replace_all_def)

theorem url_replace_all_char_witness: "url_replace_all ''-7c_mh_-7c'' ''-'' ''%'' = Some ''%7c_mh_%7c''"
  using url_replace_all_char [of "CHR ''-''" "''%''" "''-7c_mh_-7c''"] by simp

lemma replace_all_loop_result:
  assumes "url_replace_all_loop s f t p = Some y"
  shows "str_contains t f \<longrightarrow> str_find s f p = None"
proof (rule url_replace_all_loop.raw_induct [where P = "\<lambda>s f t p y. str_contains t f \<longrightarrow> str_find s f p = None", OF _ assms], rule impI)
  fix loop s f t p y
  assume ih: "\<And>s f t p y. loop s f t p = Some y \<Longrightarrow> str_contains t f \<longrightarrow> str_find s f p = None"
    and body: "(case str_find s f p of None \<Rightarrow> Some s | Some q \<Rightarrow> loop (str_replace s q (length f) t) f t q) = Some y"
    and t: "str_contains t f"
  show "str_find s f p = None"
  proof (rule ccontr)
    assume "str_find s f p \<noteq> None"
    then obtain q where q: "str_find s f p = Some q" by auto
    with ih t body have none: "str_find (str_replace s q (length f) t) f q = None" by simp
    obtain u v where t: "t = u @ f @ v" using t by (auto simp: str_contains_iff)
    have "q \<le> length s"
      using q by (auto simp: str_find_def dest: find_sub_SomeD split: if_splits)
    then have "drop q (str_replace s q (length f) t) = u @ f @ v @ drop (q + length f) s"
      "\<not> length (str_replace s q (length f) t) < q"
      using t by (simp_all add: str_replace_def)
    with none have "find_sub f (u @ f @ v @ drop (q + length f) s) = None" by (simp add: str_find_def)
    then show False unfolding find_sub_None_iff by blast
  qed
qed

text \<open>when the replacement contains the searched text and the text occurs, the loop of
  \<open>url_replace_all\<close> never ends.\<close>

theorem url_replace_all_diverges:
  assumes "str_contains str from" "str_contains to from"
  shows "url_replace_all str from to = None"
proof (rule ccontr)
  assume "url_replace_all str from to \<noteq> None"
  then have "str_find str from 0 = None"
    using assms(2) replace_all_loop_result by (auto simp: url_replace_all_def)
  with assms(1) show False by (simp add: str_contains_def str_find_def)
qed

theorem url_replace_all_diverges_witness: "url_replace_all ''http:x'' ''http:'' ''https:http:'' = None"
  by (rule url_replace_all_diverges) (simp_all add: str_contains_def)

section \<open>Numbers in parameters\<close>

text \<open>the copying \<open>stringSafeNumber\<close> always returns a canonical number: applying it twice changes
  nothing, and it keeps every printed 64-bit number.\<close>

theorem stringSafeNumber_canonical:
  "stringSafeNumber (stringSafeNumber s) = stringSafeNumber s \<and>
   (int64_min \<le> i \<and> i \<le> int64_max \<longrightarrow> stringSafeNumber (to_string i) = to_string i)"
proof -
  have keep: "stringSafeNumber (to_string i) = to_string i" if "int64_min \<le> i" "i \<le> int64_max" for i
    using that by (simp add: stringSafeNumber_def)
  have "to_string 0 = ''0''" by (simp add: to_string_def nat_to_string.simps digit_char_def char_of_def bit_iff_odd)
  then have "stringSafeNumber ''0'' = ''0''" using keep [of 0] by (simp add: int_limits)
  moreover have "int64_min \<le> v \<and> v \<le> int64_max" if "stol s = Inr v" for v
    using that by (auto simp: stol_def split: option.splits if_splits)
  ultimately have "stringSafeNumber (stringSafeNumber s) = stringSafeNumber s"
    using keep by (cases "stol s") (auto simp: stringSafeNumber_def [of s])
  with keep show ?thesis by blast
qed

theorem stringSafeNumber_canonical_witness: "stringSafeNumber (to_string (-42)) = to_string (-42)"
  using stringSafeNumber_canonical [of "[]" "-42"] by (simp add: int_limits)

lemma stringToInt_to_string [simp]:
  "int64_min \<le> i \<Longrightarrow> i \<le> int64_max \<Longrightarrow> stringToInt (to_string i) = i"
  by (simp add: stringToInt_def)

lemma stringToInt_range: "int64_min \<le> stringToInt s \<and> stringToInt s \<le> int64_max"
  by (auto simp: stringToInt_def stol_def int_limits split: option.splits sum.splits)

end
