(* ===== verification/Codec.thy ===== *)
theory Codec
  imports Prelude
begin

text \<open>
  Self-delimiting byte codes.  \<open>codec\<close> is the contract of an encoder and a decoder that finds the end of
  a code word by itself; the variable-length numbers that utility/url.cpp (on \<open>int64_t\<close>) and
  utility/escape.cpp (on \<open>int\<close>) share are defined here once, for any word length, and shown to meet it.
\<close>

section \<open>The loops of \<open>numberEncode\<close> and \<open>numberDecode\<close>\<close>

text \<open>\<open>while (number > 0) { buf[i] = (number & 0x7F) | 0x80; number >>= 7; i++; }\<close>\<close>

function numberEncode_loop :: "int \<Rightarrow> byte list" where
  "numberEncode_loop number =
     (if number > 0 then word_of_int ((number AND 0x7F) OR 0x80) # numberEncode_loop (drop_bit 7 number)
      else [])"
  by pat_completeness auto
termination
  by (relation "measure nat") (auto simp: drop_bit_eq_div)

declare numberEncode_loop.simps [simp del]

text \<open>\<open>buf[i - 1] &= 0x7F\<close>: the last byte loses the continuation bit.\<close>

definition close_number :: "byte list \<Rightarrow> byte list" where
  "close_number bs = butlast bs @ [last bs AND 0x7F]"

text \<open>The accumulation of \<open>numberDecode\<close>, from the last byte down to the first.\<close>

fun numberDecode_loop :: "byte list \<Rightarrow> nat \<Rightarrow> 'w::len word \<Rightarrow> 'w word" where
  "numberDecode_loop buf 0 result = result + ucast (buf ! 0 AND 0x7F)"
| "numberDecode_loop buf (Suc i) result =
     numberDecode_loop buf i (push_bit 7 (result + ucast (buf ! Suc i AND 0x7F)))"

section \<open>The contract\<close>

locale codec =
  fixes valid :: "'a \<Rightarrow> bool" and enc :: "'a \<Rightarrow> byte list"
    and dec :: "byte list \<Rightarrow> ('a \<times> byte list) result"
  assumes dec_enc: "valid x \<Longrightarrow> dec (enc x @ rest) = Inr (x, rest)"
begin

text \<open>No code word is a prefix of another one; in particular the code is injective.\<close>

lemma prefix_free:
  assumes "valid x" "valid y" "enc x @ r = enc y @ s"
  shows "x = y \<and> r = s"
  using dec_enc [OF assms(1), of r] dec_enc [OF assms(2), of s] assms(3)
  by (metis sum.inject(2) prod.inject)

fun dec_list :: "nat \<Rightarrow> byte list \<Rightarrow> ('a list \<times> byte list) result" where
  "dec_list 0 bs = Inr ([], bs)"
| "dec_list (Suc n) bs = bind_result (dec bs) (\<lambda>(x, bs').
     bind_result (dec_list n bs') (\<lambda>(xs, bs''). Inr (x # xs, bs'')))"

lemma dec_list_enc:
  "\<forall>x \<in> set xs. valid x \<Longrightarrow> dec_list (length xs) (concat (map enc xs) @ rest) = Inr (xs, rest)"
  by (induction xs) (simp_all add: dec_enc)

end

section \<open>Variable-length numbers\<close>

definition varint :: "int \<Rightarrow> byte list" where
  "varint n = close_number (numberEncode_loop n)"

lemma high_bit:
  fixes n :: int
  shows "n AND 0x7F = n mod 128" "n mod 128 OR 0x80 = n mod 128 + 128"
proof -
  show "n AND 0x7F = n mod 128"
    using take_bit_eq_mask [of 7 n] by (simp add: take_bit_eq_mod mask_eq_exp_minus_1)
  have "take_bit 7 n + 2 ^ 7 = take_bit 7 n OR 2 ^ 7"
    by (rule disjunctive_add) (simp only: bit_exp_iff bit_take_bit_iff, blast)
  then show "n mod 128 OR 0x80 = n mod 128 + 128"
    by (simp add: take_bit_eq_mod)
qed

definition low7 :: "byte \<Rightarrow> 'w::len word" where
  "low7 b = ucast (b AND 0x7F)"

lemma byte_mask7: "(b :: byte) AND 0x7F = take_bit 7 b"
  by (simp add: take_bit_eq_mask mask_eq_exp_minus_1)

lemma low7_close [simp]: "low7 (b AND 0x7F) = low7 b"
  by (simp add: low7_def and.assoc)

lemma close_small: "\<not> (b AND 0x7F :: byte) > 0x7F"
proof -
  have "unat (take_bit 7 b) \<le> 127"
    unfolding unsigned_take_bit_eq using take_bit_nat_less_exp [of 7 "unat b"] by simp
  then show ?thesis unfolding byte_mask7 by (simp add: word_less_nat_alt)
qed

lemma digit_byte:
  fixes n :: int
  defines "b \<equiv> word_of_int ((n AND 0x7F) OR 0x80) :: byte"
  shows "b > 0x7F" "low7 b = (word_of_int (n mod 128) :: 'w::len word)"
proof -
  have b: "b = word_of_int (n mod 128 + 128)"
    unfolding b_def high_bit ..
  have v: "uint b = n mod 128 + 128"
    unfolding b uint_word_of_int by simp
  then show "b > 0x7F" by (simp add: word_less_def)
  have "uint (take_bit 7 b) = n mod 128"
    unfolding unsigned_take_bit_eq v by (simp add: take_bit_eq_mod)
  then show "low7 b = (word_of_int (n mod 128) :: 'w word)"
    unfolding low7_def byte_mask7 by (metis ucast_eq)
qed

definition digits7 :: "byte list \<Rightarrow> 'w::len word \<Rightarrow> 'w word" where
  "digits7 bs r = foldr (\<lambda>b r. push_bit 7 r + low7 b) bs r"

lemma digits7_simps [simp]:
  "digits7 [] r = r" "digits7 (b # bs) r = push_bit 7 (digits7 bs r) + low7 b"
  "digits7 (as @ bs) r = digits7 as (digits7 bs r)"
  by (simp_all add: digits7_def)

lemma numberDecode_loop_digits7:
  "i < length buf \<Longrightarrow> numberDecode_loop buf i r = digits7 (take i buf) (r + low7 (buf ! i))"
  by (induction buf i r rule: numberDecode_loop.induct)
    (simp_all add: low7_def take_Suc_conv_app_nth)

lemma digits7_numberEncode: "digits7 (numberEncode_loop n) 0 = (word_of_int (max 0 n) :: 'w::len word)"
proof (induction n rule: numberEncode_loop.induct)
  case (1 n)
  show ?case
  proof (cases "n > 0")
    case True
    let ?b = "word_of_int ((n AND 0x7F) OR 0x80) :: byte"
    have "0 \<le> n div 128" using True by simp
    have "numberEncode_loop n = ?b # numberEncode_loop (n div 128)"
      using True by (simp add: numberEncode_loop.simps [of n] drop_bit_eq_div)
    then have "digits7 (numberEncode_loop n) (0 :: 'w word) = push_bit 7 (word_of_int (n div 128)) + word_of_int (n mod 128)"
      using 1 [OF True] \<open>0 \<le> n div 128\<close> by (simp add: drop_bit_eq_div digit_byte(2))
    also have "\<dots> = word_of_int (128 * (n div 128) + n mod 128)"
      by (simp only: push_bit_eq_mult of_int_add of_int_mult) simp
    finally show ?thesis using True by simp
  qed (simp add: numberEncode_loop.simps)
qed

lemma numberEncode_loop_high: "b \<in> set (numberEncode_loop n) \<Longrightarrow> b > 0x7F"
  by (induction n rule: numberEncode_loop.induct)
    (subst (asm) (2) numberEncode_loop.simps, auto simp: digit_byte split: if_splits)

lemma numberEncode_loop_Nil_iff [simp]: "numberEncode_loop n = [] \<longleftrightarrow> n \<le> 0"
  by (subst numberEncode_loop.simps) simp


text \<open>The position of the first byte without continuation bit.\<close>

definition scan :: "byte list \<Rightarrow> nat" where
  "scan buf = length (takeWhile (\<lambda>b. b > 0x7F) buf)"

lemma varint_split:
  assumes "n > 0"
  obtains ds d where "numberEncode_loop n = ds @ [d]" "varint n = ds @ [d AND 0x7F]"
    "\<forall>b \<in> set ds. b > 0x7F"
proof -
  have "numberEncode_loop n \<noteq> []" using assms by simp
  then obtain ds d where "numberEncode_loop n = ds @ [d]" by (metis append_butlast_last_id)
  then show thesis
    using numberEncode_loop_high [of _ n] by (intro that) (auto simp: varint_def close_number_def)
qed

lemma varint_decode:
  assumes "n > 0"
  shows "scan (varint n @ rest) = length (varint n) - 1" "varint n \<noteq> []"
    "numberDecode_loop (varint n @ rest) (length (varint n) - 1) 0 = (word_of_int n :: 'w::len word)"
proof -
  obtain ds d where v: "numberEncode_loop n = ds @ [d]" "varint n = ds @ [d AND 0x7F]"
    "\<forall>b \<in> set ds. b > 0x7F"
    using varint_split [OF assms] .
  show "varint n \<noteq> []" using v(2) by simp
  have "takeWhile (\<lambda>b. b > 0x7F) (ds @ (d AND 0x7F) # rest) = ds"
    using v(3) close_small [of d] by (subst takeWhile_append2) auto
  then show "scan (varint n @ rest) = length (varint n) - 1"
    using v(2) by (simp add: scan_def)
  have "numberDecode_loop (varint n @ rest) (length (varint n) - 1) (0 :: 'w word) = digits7 ds (low7 d)"
    using v(2) by (simp add: numberDecode_loop_digits7)
  also have "\<dots> = digits7 (numberEncode_loop n) 0" using v(1) by simp
  finally show "numberDecode_loop (varint n @ rest) (length (varint n) - 1) 0 = (word_of_int n :: 'w word)"
    using assms by (simp add: digits7_numberEncode)
qed

lemma length_varint: "0 < n \<Longrightarrow> n < 2 ^ (7 * k) \<Longrightarrow> length (varint n) \<le> k"
proof -
  have "n < 2 ^ (7 * k) \<Longrightarrow> length (numberEncode_loop n) \<le> k" for n
  proof (induction n arbitrary: k rule: numberEncode_loop.induct)
    case (1 n)
    show ?case
    proof (cases "n > 0")
      case True
      with 1 obtain k' where k: "k = Suc k'" by (cases k) auto
      have "n div 128 < 2 ^ (7 * k')"
        using "1.prems" k by (simp add: power_add div_less_iff_less_mult [of 128] )
      then have "length (numberEncode_loop (drop_bit 7 n)) \<le> k'"
        using 1 True by (simp add: drop_bit_eq_div)
      with True k show ?thesis by (simp add: numberEncode_loop.simps [of n])
    qed (simp add: numberEncode_loop.simps)
  qed
  then show "0 < n \<Longrightarrow> n < 2 ^ (7 * k) \<Longrightarrow> length (varint n) \<le> k"
    by (metis (no_types, lifting) length_append_singleton varint_split)
qed

end
