(* ===== verification/Url_Helper.thy ===== *)
theory Url_Helper
  imports Url_Param Codec
begin

text \<open>
  Model of the class \<open>URLHelper\<close> of utility/url.h and utility/url.cpp: a URL split into its parts with a
  map of parameters and a map of macros, the binary serialisation of the parameters with its
  verification code, the ciphered URL built on it, and the reader that undoes it.  The names of the
  parameters come from mtty/constants.h, which is not part of the repository, and the base64 coder is
  CryptoPP's; both are arguments, as is the iteration order of \<open>std::unordered_map\<close>.
\<close>

section \<open>The parameter table and the object\<close>

datatype param_type = PARAM_INT | PARAM_STRING

type_synonym binding_table = "(string \<times> param_type) list"

text \<open>The types of the 37 bound parameters, in the order of the table; the names are \<open>names\<close>.\<close>

definition paramBindingTypes :: "param_type list" where
  "paramBindingTypes =
     [PARAM_STRING, PARAM_STRING, PARAM_STRING, PARAM_STRING, PARAM_INT, PARAM_INT, PARAM_INT,
      PARAM_INT, PARAM_INT, PARAM_STRING, PARAM_STRING, PARAM_INT, PARAM_INT, PARAM_STRING, PARAM_INT,
      PARAM_STRING, PARAM_STRING, PARAM_INT, PARAM_INT, PARAM_INT, PARAM_INT, PARAM_INT, PARAM_STRING,
      PARAM_STRING, PARAM_STRING, PARAM_STRING, PARAM_STRING, PARAM_INT, PARAM_INT, PARAM_INT,
      PARAM_STRING, PARAM_STRING, PARAM_STRING, PARAM_INT, PARAM_STRING, PARAM_STRING, PARAM_INT]"

definition paramBindingTable :: "string list \<Rightarrow> binding_table" where
  "paramBindingTable names = zip names paramBindingTypes"

definition MACRO_HOLDER :: string where "MACRO_HOLDER = ''_mh_''"
definition ENCODE_HOLDER :: string where "ENCODE_HOLDER = ''_q_''"

record url_helper =
  paramMap :: param_map
  macroParamMap :: param_map
  protocolName :: string
  host :: string
  port :: string
  path :: string

definition URLHelper_empty :: url_helper where
  "URLHelper_empty = \<lparr>paramMap = Map.empty, macroParamMap = Map.empty, protocolName = [], host = [],
     port = [], path = []\<rparr>"

text \<open>\<open>m.insert({k, v})\<close> keeps an existing entry.\<close>

definition map_insert :: "param_map \<Rightarrow> string \<Rightarrow> string \<Rightarrow> param_map" where
  "map_insert m k v = (if m k = None then m(k \<mapsto> v) else m)"

definition url_add :: "string \<Rightarrow> string \<Rightarrow> url_helper \<Rightarrow> url_helper" where
  "url_add k v h = h\<lparr>paramMap := (paramMap h)(k \<mapsto> v)\<rparr>"

definition addNoDuplicate :: "string \<Rightarrow> string \<Rightarrow> url_helper \<Rightarrow> bool \<times> url_helper" where
  "addNoDuplicate k v h = (paramMap h k = None, h\<lparr>paramMap := map_insert (paramMap h) k v\<rparr>)"

definition addMacro :: "string \<Rightarrow> string \<Rightarrow> url_helper \<Rightarrow> url_helper" where
  "addMacro k v h = h\<lparr>macroParamMap := (macroParamMap h)(k \<mapsto> v)\<rparr>"

definition url_remove :: "string \<Rightarrow> url_helper \<Rightarrow> url_helper" where
  "url_remove k h = h\<lparr>paramMap := (paramMap h)(k := None)\<rparr>"

definition removeMacro :: "string \<Rightarrow> url_helper \<Rightarrow> url_helper" where
  "removeMacro k h = h\<lparr>macroParamMap := (macroParamMap h)(k := None)\<rparr>"

definition getProtocol :: "url_helper \<Rightarrow> string" where
  "getProtocol h = (if protocolName h = [] then ''http'' else protocolName h)"

definition getPort :: "url_helper \<Rightarrow> string" where
  "getPort h = (if port h = [] then ''80'' else port h)"

definition setPort :: "string \<Rightarrow> url_helper \<Rightarrow> url_helper" where
  "setPort p h = (if \<exists>c r. cstr p = c # r \<and> is_digit_char c then h\<lparr>port := p\<rparr> else h)"

section \<open>Serialisation\<close>

text \<open>
  The 2048-byte buffer: the bytes written so far, the remaining size the code keeps in
  \<open>bufRemainSize\<close>, and the verification code.  A write behind the buffer is \<open>MemoryFault\<close>.
\<close>

record ser_state =
  ser_out :: "byte list"
  ser_remain :: int
  ser_vc :: u64

definition buf_size :: nat where "buf_size = 2048"

definition buf_put :: "byte list \<Rightarrow> ser_state \<Rightarrow> ser_state result" where
  "buf_put bs st =
     (if length (ser_out st) + length bs \<le> buf_size then Inr (st\<lparr>ser_out := ser_out st @ bs\<rparr>)
      else Inl MemoryFault)"

text \<open>
  \<open>numberEncode\<close>; a number that is not positive writes nothing and clears the top bit of the byte before
  the cursor.
\<close>

definition numberEncode :: "int \<Rightarrow> ser_state \<Rightarrow> ser_state result" where
  "numberEncode number st =
     (if ser_remain st \<le> 10 then Inl (UrlError ''numberEncode:buffer reach boundary'')
      else let bs = numberEncode_loop number in
        if bs = [] then
          (if ser_out st = [] then Inl MemoryFault else Inr (st\<lparr>ser_out := close_number (ser_out st)\<rparr>))
        else buf_put (close_number bs) (st\<lparr>ser_remain := ser_remain st - int (length bs)\<rparr>))"

definition writeStringToBuf :: "string \<Rightarrow> ser_state \<Rightarrow> ser_state result" where
  "writeStringToBuf src st =
     (if length src > 0 then
        bind_result (numberEncode (int (length src)) st) (\<lambda>st.
          if ser_remain st < int (length src)
          then Inl (UrlError ''buffer remained not large enough to hold string '')
          else bind_result (buf_put (map ord8 src) st) (\<lambda>st.
            Inr (st\<lparr>ser_remain := ser_remain st - int (length src)\<rparr>)))
      else if ser_remain st \<ge> 1 then
        bind_result (buf_put [0] st) (\<lambda>st. Inr (st\<lparr>ser_remain := ser_remain st - 1\<rparr>))
      else Inl (UrlError ''writeStringToBuf:url encode invalid status,maybe size invalid or buffer not enough''))"

text \<open>The zero byte of \<open>writeIntToBuf\<close> is not subtracted from the remaining size.\<close>

definition writeIntToBuf :: "int \<Rightarrow> ser_state \<Rightarrow> ser_state result" where
  "writeIntToBuf src st =
     (if src > 0 then numberEncode src st
      else if ser_remain st \<ge> 1 then buf_put [0] st
      else Inl (UrlError ''writeIntToBuf:url encode invalid status,maybe buffer not enough''))"

definition encodeUrlParam :: "param_type \<Rightarrow> string \<Rightarrow> ser_state \<Rightarrow> ser_state result" where
  "encodeUrlParam t value st =
     (case t of
        PARAM_STRING \<Rightarrow> bind_result (writeStringToBuf value st) (\<lambda>st.
          Inr (st\<lparr>ser_vc := ser_vc st XOR of_nat (length value)\<rparr>))
      | PARAM_INT \<Rightarrow> (let num = (if value = [] then 0 else stringToInt value) in
          bind_result (writeIntToBuf num st) (\<lambda>st.
            Inr (st\<lparr>ser_vc := ser_vc st XOR word_of_int num\<rparr>))))"

fun serialize_loop :: "binding_table \<Rightarrow> param_map \<Rightarrow> ser_state \<Rightarrow> ser_state result" where
  "serialize_loop [] m st = Inr st"
| "serialize_loop ((name, t) # tbl) m st =
     bind_result (encodeUrlParam t (case m name of Some str \<Rightarrow> str | None \<Rightarrow> []) st)
       (serialize_loop tbl m)"

definition ser_start :: ser_state where
  "ser_start = \<lparr>ser_out = [], ser_remain = int buf_size, ser_vc = 0xFFFFFFFF\<rparr>"

text \<open>The result is the byte string; the verification code goes into the macro map in hex.\<close>

definition vc_string :: "u64 \<Rightarrow> string" where
  "vc_string vc = nat_to_hex (unat vc)"

definition urlParamSerialize :: "binding_table \<Rightarrow> url_helper \<Rightarrow> (string \<times> url_helper) result" where
  "urlParamSerialize tbl h =
     bind_result (serialize_loop tbl (paramMap h) ser_start) (\<lambda>st.
       Inr (map chr8 (ser_out st),
            h\<lparr>macroParamMap := (macroParamMap h)(MACRO_HOLDER \<mapsto> vc_string (ser_vc st))\<rparr>))"

section \<open>Deserialisation\<close>

text \<open>The decoders return the value and the rest of the input.\<close>

definition numberDecode :: "byte list \<Rightarrow> (int \<times> byte list) result" where
  "numberDecode buf =
     (let i = scan buf in
      if length buf \<le> i then Inl (UrlError ''numberDecode:reach boundary'')
      else Inr (sint (numberDecode_loop buf i 0 :: i64), drop (i + 1) buf))"

definition decodeUrlParamStr :: "byte list \<Rightarrow> (string \<times> byte list) result" where
  "decodeUrlParamStr p =
     bind_result (numberDecode p) (\<lambda>(num, p).
       if num > 0 \<and> num \<le> int (length p) then Inr (map chr8 (take (nat num) p), drop (nat num) p)
       else Inr ([], p))"

definition decodeUrlParamNum :: "byte list \<Rightarrow> (int \<times> byte list) result" where
  "decodeUrlParamNum p = numberDecode p"

fun deserialize_loop :: "binding_table \<Rightarrow> byte list \<Rightarrow> param_map \<Rightarrow> u64 \<Rightarrow> (param_map \<times> u64) result" where
  "deserialize_loop [] p m vc = Inr (m, vc)"
| "deserialize_loop ((name, t) # tbl) p m vc =
     (if p = [] then deserialize_loop tbl p m vc
      else case t of
        PARAM_INT \<Rightarrow> bind_result (decodeUrlParamNum p) (\<lambda>(num, p).
          deserialize_loop tbl p (if num \<noteq> 0 then map_insert m name (to_string num) else m)
            (vc XOR word_of_int num))
      | PARAM_STRING \<Rightarrow> bind_result (decodeUrlParamStr p) (\<lambda>(v, p).
          deserialize_loop tbl p (if v \<noteq> [] then map_insert m name v else m)
            (vc XOR of_nat (length v))))"

definition urlParamDeserialize :: "binding_table \<Rightarrow> string \<Rightarrow> param_map \<Rightarrow> (param_map \<times> u64) result" where
  "urlParamDeserialize tbl input m = deserialize_loop tbl (map ord8 input) m 0xFFFFFFFF"

section \<open>Printing a URL\<close>

text \<open>\<open>order\<close> is the order in which \<open>for (auto & iter : m)\<close> visits an unordered map.\<close>

type_synonym map_order = "param_map \<Rightarrow> (string \<times> string) list"

fun append_params :: "string \<Rightarrow> nat \<Rightarrow> (string \<times> string) list \<Rightarrow> string" where
  "append_params data seq [] = data"
| "append_params data seq ((k, v) # kvs) =
     append_params ((if seq \<noteq> 0 then data @ ''&'' else data) @ k @ ''='' @ v) (Suc seq) kvs"

definition toUrlParam :: "map_order \<Rightarrow> url_helper \<Rightarrow> string" where
  "toUrlParam order h =
     (let data = append_params [] 0 (order (paramMap h))
      in append_params data (if data = [] then 0 else 1) (order (macroParamMap h)))"

definition url_location :: "url_helper \<Rightarrow> string" where
  "url_location h =
     (if protocolName h = [] then ''http://'' else protocolName h @ ''://'') @ host h @
     (if port h = [] then [] else '':'' @ port h) @ path h"

definition toUrl :: "map_order \<Rightarrow> url_helper \<Rightarrow> string" where
  "toUrl order h =
     (let data = toUrlParam order h
      in url_location h @ (if data = [] then [] else ''?'' @ data))"

text \<open>\<open>b64enc\<close> is the base64 encoder; its output is percent-encoded into a buffer of 2048 bytes.\<close>

definition cipherParam ::
  "(string \<Rightarrow> string) \<Rightarrow> map_order \<Rightarrow> binding_table \<Rightarrow> url_helper \<Rightarrow> (string \<times> url_helper) result" where
  "cipherParam b64enc order tbl h =
     bind_result (urlParamSerialize tbl h) (\<lambda>(encodeParam, h).
       bind_result (urlEncode_f 2048 (b64enc encodeParam)) (\<lambda>urlSafeParam.
         Inr (ENCODE_HOLDER @ ''='' @ urlSafeParam @
              concat (map (\<lambda>(k, v). ''%7c'' @ k @ ''%7c'' @ v) (order (macroParamMap h))) @ ''%7c'', h)))"

text \<open>A C++ exception ends in the handler; an access outside an array does not.\<close>

definition cipherUrl ::
  "(string \<Rightarrow> string) \<Rightarrow> map_order \<Rightarrow> binding_table \<Rightarrow> url_helper \<Rightarrow> (string \<times> url_helper) result" where
  "cipherUrl b64enc order tbl h =
     (case cipherParam b64enc order tbl h of
        Inr (urlSafeParam, h') \<Rightarrow>
          Inr (url_location h' @ (if urlSafeParam = [] then [] else ''?'' @ urlSafeParam), h')
      | Inl e \<Rightarrow> if e = MemoryFault then Inl e else Inr ([], h))"

section \<open>Reading a URL\<close>

fun insert_pairs :: "string list \<Rightarrow> param_map \<Rightarrow> param_map" where
  "insert_pairs (k # v # tmp) m = insert_pairs tmp (map_insert m k v)"
| "insert_pairs tmp m = m"

text \<open>The body of the \<open>try\<close> block for ciphered data: the flag is the value of the \<open>return\<close>.\<close>

definition processEncoded ::
  "(string \<Rightarrow> string option) \<Rightarrow> binding_table \<Rightarrow> string \<Rightarrow> url_helper \<Rightarrow> (bool \<times> url_helper) result" where
  "processEncoded b64dec tbl data h =
     bind_result (urlDecode_f 2048 data) (\<lambda>safeData.
     bind_result (if str_contains safeData ''%7c'' then urlDecode_f 2048 safeData else Inr safeData) (\<lambda>safeData.
       let tmp = split_any ''|'' safeData;
           mainPart = map_index (getParamv2 Map.empty (hd tmp) CHR ''&'') ENCODE_HOLDER
       in case b64dec mainPart of
            None \<Rightarrow> Inr (False, h)
          | Some base64param \<Rightarrow>
              bind_result (urlParamDeserialize tbl base64param (paramMap h)) (\<lambda>(m, vc).
                let m = insert_pairs (tl tmp) m
                in Inr (True, h\<lparr>paramMap :=
                     if map_index m MACRO_HOLDER \<noteq> vc_string vc then Map.empty else m\<rparr>))))"

definition processParamData ::
  "(string \<Rightarrow> string option) \<Rightarrow> binding_table \<Rightarrow> string \<Rightarrow> bool \<Rightarrow> url_helper \<Rightarrow> (bool \<times> url_helper) result" where
  "processParamData b64dec tbl data encoded h =
     (if encoded then
        (case processEncoded b64dec tbl data h of
           Inr r \<Rightarrow> Inr r
         | Inl e \<Rightarrow> if e = MemoryFault then Inl e else Inr (False, h\<lparr>paramMap := Map.empty\<rparr>))
      else Inr (True, h\<lparr>paramMap := getParamv2 (paramMap h) data CHR ''&''\<rparr>))"

text \<open>\<open>None\<close> is a run that does not return, which the replacement loop could cause.\<close>

definition processParamDataWithRetry ::
  "(string \<Rightarrow> string option) \<Rightarrow> binding_table \<Rightarrow> string \<Rightarrow> bool \<Rightarrow> url_helper \<Rightarrow> url_helper result option" where
  "processParamDataWithRetry b64dec tbl data encoded h =
     (if 2048 \<le> length data then Some (Inr h)
      else case processParamData b64dec tbl data encoded h of
        Inl e \<Rightarrow> Some (Inl e)
      | Inr (True, h) \<Rightarrow> Some (Inr h)
      | Inr (False, h) \<Rightarrow>
          (case (if str_contains data ''-7c'' then url_replace_all data ''-'' ''%'' else Some data) of
             None \<Rightarrow> None
           | Some escapeData \<Rightarrow> Some
               (bind_result (urlDecode_f 2048 escapeData) (\<lambda>safeData.
                 bind_result (processParamData b64dec tbl safeData encoded h) (\<lambda>(ok, h). Inr h)))))"

text \<open>Reading \<open>cUrl[i]\<close> up to the terminator.\<close>

definition c_at :: "string \<Rightarrow> nat \<Rightarrow> char" where
  "c_at s i = (if i < length s then s ! i else NUL)"

text \<open>
  The colon loop of the constructor: it returns the start of the host and the three parts found so far.
  \<open>url.length() - 3\<close> is unsigned and wraps around for a shorter string.
\<close>

function colon_loop ::
  "string \<Rightarrow> nat \<Rightarrow> nat \<Rightarrow> string \<Rightarrow> nat \<times> string \<times> string \<times> string" where
  "colon_loop url pos hostBegin proto =
     (case str_find url '':'' pos of
        None \<Rightarrow> (hostBegin, proto, [], [])
      | Some pos \<Rightarrow>
          if (length url < 3 \<or> pos < length url - 3) \<and> c_at url (pos + 1) = CHR ''/'' \<and> c_at url (pos + 2) = CHR ''/''
          then colon_loop url (pos + 3) (pos + 3) (take pos url)
          else if (length url < 2 \<or> pos < length url - 2) \<and> is_digit_char (c_at url (pos + 1))
          then (hostBegin, proto, token url hostBegin pos, to_string (atoi (drop (pos + 1) url)))
          else (hostBegin, proto, [], []))"
  by pat_completeness auto
termination
proof (relation "measure (\<lambda>(url, pos, hostBegin, proto). length url + 3 - pos)", goal_cases)
  case (2 url pos hostBegin proto q)
  then have "pos \<le> q \<and> pos \<le> length url" by (auto simp: str_find_def split: if_splits)
  then have "length url + 3 - (q + 3) < length url + 3 - pos" by arith
  then show ?case by simp
qed simp

declare colon_loop.simps [simp del]

definition URLHelper_url ::
  "(string \<Rightarrow> string option) \<Rightarrow> binding_table \<Rightarrow> string \<Rightarrow> bool \<Rightarrow> url_helper result option" where
  "URLHelper_url b64dec tbl url encoded =
     (let (hostBegin, proto, hst, prt) = colon_loop url 0 0 [];
          h = URLHelper_empty\<lparr>protocolName := proto, host := hst, port := prt\<rparr>
      in case str_find url ''/'' hostBegin of
           None \<Rightarrow> Some (Inr h)
         | Some pos \<Rightarrow>
             let h = (if hst = [] then h\<lparr>host := token url hostBegin pos\<rparr> else h)
             in case str_find url ''?'' pos of
                  None \<Rightarrow> Some (Inr (h\<lparr>path := drop pos url\<rparr>))
                | Some q \<Rightarrow> processParamDataWithRetry b64dec tbl (drop (q + 1) url) encoded
                    (h\<lparr>path := token url pos q\<rparr>))"

definition URLHelper_parts :: "string \<Rightarrow> string \<Rightarrow> string \<Rightarrow> string \<Rightarrow> url_helper" where
  "URLHelper_parts proto hst prt pth =
     URLHelper_empty\<lparr>protocolName := proto, host := hst, port := prt,
       path := if c_at pth 0 \<noteq> CHR ''/'' then ''/'' @ pth else pth\<rparr>"

definition URLHelper_data ::
  "(string \<Rightarrow> string option) \<Rightarrow> binding_table \<Rightarrow> string \<Rightarrow> string \<Rightarrow> string \<Rightarrow> string \<Rightarrow> string \<Rightarrow> bool \<Rightarrow>
   url_helper result option" where
  "URLHelper_data b64dec tbl proto hst prt pth data encoded =
     processParamDataWithRetry b64dec tbl data encoded (URLHelper_parts proto hst prt pth)"

definition fromCipherUrl :: "(string \<Rightarrow> string option) \<Rightarrow> binding_table \<Rightarrow> string \<Rightarrow> url_helper result option" where
  "fromCipherUrl b64dec tbl cipher = URLHelper_url b64dec tbl cipher True"

definition fromUrl :: "(string \<Rightarrow> string option) \<Rightarrow> binding_table \<Rightarrow> string \<Rightarrow> url_helper result option" where
  "fromUrl b64dec tbl url = URLHelper_url b64dec tbl url False"

section \<open>The codes of one parameter\<close>

text \<open>What \<open>writeIntToBuf\<close> and \<open>writeStringToBuf\<close> append to the buffer.\<close>

definition int_code :: "int \<Rightarrow> byte list" where
  "int_code n = (if n > 0 then varint n else [0])"

definition str_code :: "string \<Rightarrow> byte list" where
  "str_code s = (if s = [] then [0] else varint (int (length s)) @ map ord8 s)"

lemma numberDecode_int_code:
  assumes "0 \<le> n" "n \<le> int64_max"
  shows "numberDecode (int_code n @ rest) = Inr (n, rest)"
proof (cases "n > 0")
  case True
  let ?v = "varint n"
  have "sint (word_of_int n :: i64) = n"
    using assms by (simp add: int_limits sint_sbintrunc' signed_take_bit_int_eq_self)
  moreover have "drop (length ?v - 1 + 1) (?v @ rest) = rest" "length ?v - 1 < length (?v @ rest)"
    using varint_decode(2) [OF True] by (cases ?v; simp)+
  ultimately show ?thesis
    using True varint_decode(1) [OF True, of rest] varint_decode(3) [OF True, of rest, where 'w = 64]
    by (simp add: numberDecode_def int_code_def Let_def)
next
  case False
  with assms(1) have "n = 0" by simp
  then show ?thesis by (simp add: int_code_def numberDecode_def scan_def)
qed

interpretation int_codec: codec "\<lambda>n. 0 \<le> n \<and> n \<le> int64_max" int_code decodeUrlParamNum
  by unfold_locales (simp add: decodeUrlParamNum_def numberDecode_int_code)

interpretation str_codec: codec "\<lambda>s. int (length s) \<le> int64_max" str_code decodeUrlParamStr
proof unfold_locales
  fix s :: string and rest
  assume len: "int (length s) \<le> int64_max"
  show "decodeUrlParamStr (str_code s @ rest) = Inr (s, rest)"
  proof (cases "s = []")
    case True
    then show ?thesis using numberDecode_int_code [of 0 rest] by (simp add: decodeUrlParamStr_def str_code_def int_code_def int_limits)
  next
    case False
    then have "numberDecode (varint (int (length s)) @ map ord8 s @ rest) = Inr (int (length s), map ord8 s @ rest)"
      using numberDecode_int_code [of "int (length s)" "map ord8 s @ rest"] len by (simp add: int_code_def)
    with False show ?thesis by (simp add: decodeUrlParamStr_def str_code_def)
  qed
qed

section \<open>What the serialiser writes\<close>

definition field_code :: "param_type \<Rightarrow> string \<Rightarrow> byte list" where
  "field_code t v = (case t of PARAM_INT \<Rightarrow> int_code (stringToInt v) | PARAM_STRING \<Rightarrow> str_code v)"

definition field_vc :: "param_type \<Rightarrow> string \<Rightarrow> u64" where
  "field_vc t v = (case t of PARAM_INT \<Rightarrow> word_of_int (stringToInt v) | PARAM_STRING \<Rightarrow> of_nat (length v))"

lemma stringToInt_Nil [simp]: "stringToInt [] = 0"
  by (simp add: stringToInt_def stol_def strtol_value_def)

lemma buf_put_Inr:
  "buf_put bs st = Inr st' \<longleftrightarrow> length (ser_out st) + length bs \<le> buf_size \<and> st' = st\<lparr>ser_out := ser_out st @ bs\<rparr>"
  by (auto simp: buf_put_def)

lemma numberEncode_Inr:
  assumes "numberEncode n st = Inr st'" "n > 0"
  shows "ser_out st' = ser_out st @ varint n \<and> ser_vc st' = ser_vc st \<and>
    ser_remain st' = ser_remain st - int (length (varint n)) \<and> length (ser_out st') \<le> buf_size"
proof -
  have "length (close_number (numberEncode_loop n)) = length (numberEncode_loop n)"
    using assms(2) by (simp add: close_number_def)
  with assms show ?thesis
    by (auto simp: numberEncode_def Let_def varint_def buf_put_Inr split: if_splits)
qed

lemma encodeUrlParam_Inr:
  assumes "encodeUrlParam t v st = Inr st'"
  shows "ser_out st' = ser_out st @ field_code t v \<and> ser_vc st' = ser_vc st XOR field_vc t v"
proof (cases t)
  case PARAM_INT
  have "(if v = [] then 0 else stringToInt v) = stringToInt v" by simp
  with PARAM_INT assms obtain st1 where w: "writeIntToBuf (stringToInt v) st = Inr st1"
    "st' = st1\<lparr>ser_vc := ser_vc st1 XOR word_of_int (stringToInt v)\<rparr>"
    by (auto simp: encodeUrlParam_def bind_result_eq_Inr Let_def)
  then have "ser_out st1 = ser_out st @ int_code (stringToInt v)" "ser_vc st1 = ser_vc st"
    using numberEncode_Inr [of "stringToInt v" st st1]
    by (auto simp: writeIntToBuf_def int_code_def buf_put_Inr split: if_splits)
  with PARAM_INT w(2) show ?thesis by (simp add: field_code_def field_vc_def)
next
  case PARAM_STRING
  with assms obtain st1 where w: "writeStringToBuf v st = Inr st1"
    "st' = st1\<lparr>ser_vc := ser_vc st1 XOR of_nat (length v)\<rparr>"
    by (auto simp: encodeUrlParam_def bind_result_eq_Inr)
  have "ser_out st1 = ser_out st @ str_code v \<and> ser_vc st1 = ser_vc st"
  proof (cases "v = []")
    case True
    with w(1) show ?thesis
      by (auto simp: writeStringToBuf_def str_code_def buf_put_Inr bind_result_eq_Inr split: if_splits)
  next
    case False
    with w(1) obtain st0 where n: "numberEncode (int (length v)) st = Inr st0"
      and "st1 = st0\<lparr>ser_out := ser_out st0 @ map ord8 v, ser_remain := ser_remain st0 - int (length v)\<rparr>"
      by (auto simp: writeStringToBuf_def buf_put_Inr bind_result_eq_Inr split: if_splits)
    with numberEncode_Inr [OF n] False show ?thesis
      by (simp add: str_code_def)
  qed
  with PARAM_STRING w(2) show ?thesis by (simp add: field_code_def field_vc_def)
qed

section \<open>Reading back what was written\<close>

definition table_code :: "binding_table \<Rightarrow> param_map \<Rightarrow> byte list" where
  "table_code tbl m = concat (map (\<lambda>(n, t). field_code t (map_index m n)) tbl)"

text \<open>The verification code over a table, for a contribution \<open>f\<close> of each value.\<close>

definition table_vc ::
  "(param_type \<Rightarrow> string \<Rightarrow> u64) \<Rightarrow> binding_table \<Rightarrow> param_map \<Rightarrow> u64 \<Rightarrow> u64" where
  "table_vc f tbl m vc = foldl (\<lambda>vc (n, t). vc XOR f t (map_index m n)) vc tbl"

lemma table_code_simps [simp]:
  "table_code [] m = []"
  "table_code ((n, t) # tbl) m = field_code t (map_index m n) @ table_code tbl m"
  by (simp_all add: table_code_def)

lemma table_vc_simps [simp]:
  "table_vc f [] m vc = vc"
  "table_vc f ((n, t) # tbl) m vc = table_vc f tbl m (vc XOR f t (map_index m n))"
  by (simp_all add: table_vc_def)

lemma serialize_loop_Inr:
  "serialize_loop tbl m st = Inr st' \<Longrightarrow>
   ser_out st' = ser_out st @ table_code tbl m \<and> ser_vc st' = table_vc field_vc tbl m (ser_vc st)"
proof (induction tbl m st rule: serialize_loop.induct)
  case (2 name t tbl m st)
  then obtain st1 where st1: "encodeUrlParam t (map_index m name) st = Inr st1" "serialize_loop tbl m st1 = Inr st'"
    by (auto simp: bind_result_eq_Inr map_index_def)
  with 2 encodeUrlParam_Inr [OF st1(1)] show ?case by (simp add: map_index_def)
qed simp

lemma encodeUrlParam_bound:
  "encodeUrlParam t v st = Inr st' \<Longrightarrow> length (ser_out st') \<le> buf_size"
  by (auto simp: encodeUrlParam_def writeIntToBuf_def writeStringToBuf_def bind_result_eq_Inr buf_put_Inr
      Let_def dest: numberEncode_Inr split: if_splits param_type.splits)

lemma serialize_loop_bound:
  "serialize_loop tbl m st = Inr st' \<Longrightarrow> length (ser_out st) \<le> buf_size \<Longrightarrow> length (ser_out st') \<le> buf_size"
  by (induction tbl m st rule: serialize_loop.induct)
    (auto simp: bind_result_eq_Inr dest: encodeUrlParam_bound)

text \<open>What the reader makes of a value, and of the whole map.\<close>

definition decoded_param :: "param_type \<Rightarrow> string \<Rightarrow> string option" where
  "decoded_param t v = (case t of
     PARAM_INT \<Rightarrow> (let n = stringToInt v in if n \<le> 0 then None else Some (to_string n))
   | PARAM_STRING \<Rightarrow> if v = [] then None else Some v)"

definition decoded_map :: "binding_table \<Rightarrow> param_map \<Rightarrow> param_map" where
  "decoded_map tbl m k =
     (case map_of tbl k of None \<Rightarrow> None | Some t \<Rightarrow> decoded_param t (map_index m k))"

definition read_vc :: "param_type \<Rightarrow> string \<Rightarrow> u64" where
  "read_vc t v = (case t of PARAM_INT \<Rightarrow> word_of_int (max 0 (stringToInt v)) | PARAM_STRING \<Rightarrow> of_nat (length v))"

lemma field_code_nonempty [simp]: "field_code t v \<noteq> []"
  using varint_decode(2) by (auto simp: field_code_def int_code_def str_code_def split: param_type.splits)

lemma decode_field:
  assumes "t = PARAM_STRING \<longrightarrow> int (length v) \<le> int64_max"
  shows "deserialize_loop ((name, t) # tbl) (field_code t v @ rest) m vc =
    deserialize_loop tbl rest (case decoded_param t v of None \<Rightarrow> m | Some s \<Rightarrow> map_insert m name s) (vc XOR read_vc t v)"
proof (cases t)
  case PARAM_INT
  have "int_code (stringToInt v) = int_code (max 0 (stringToInt v))" by (simp add: int_code_def)
  then have "decodeUrlParamNum (int_code (stringToInt v) @ rest) = Inr (max 0 (stringToInt v), rest)"
    using stringToInt_range [of v] by (simp add: int_codec.dec_enc int_limits)
  with PARAM_INT show ?thesis
    by (simp add: field_code_def read_vc_def decoded_param_def Let_def field_code_nonempty [of PARAM_INT, unfolded field_code_def, simplified])
next
  case PARAM_STRING
  have "decodeUrlParamStr (str_code v @ rest) = Inr (v, rest)"
    using assms PARAM_STRING by (intro str_codec.dec_enc) simp
  with PARAM_STRING show ?thesis
    by (simp add: field_code_def read_vc_def decoded_param_def field_code_nonempty [of PARAM_STRING, unfolded field_code_def, simplified])
qed

lemma decoded_map_Cons:
  "n \<notin> fst ` set tbl \<Longrightarrow> decoded_map ((n, t) # tbl) m = (decoded_map tbl m)(n := decoded_param t (map_index m n))"
proof
  fix k assume "n \<notin> fst ` set tbl"
  then have "map_of tbl n = None" by (simp add: map_of_eq_None_iff)
  then show "decoded_map ((n, t) # tbl) m k = ((decoded_map tbl m)(n := decoded_param t (map_index m n))) k"
    by (simp add: decoded_map_def)
qed

lemma deserialize_table_code:
  assumes "distinct (map fst tbl)" "\<forall>(n, t) \<in> set tbl. (t = PARAM_STRING \<longrightarrow> int (length (map_index m n)) \<le> int64_max) \<and> m0 n = None"
  shows "deserialize_loop tbl (table_code tbl m) m0 vc = Inr (m0 ++ decoded_map tbl m, table_vc read_vc tbl m vc)"
  using assms
proof (induction tbl arbitrary: m0 vc)
  case Nil
  then show ?case by (simp add: decoded_map_def [abs_def] map_add_def)
next
  case (Cons nt tbl)
  obtain n t where nt: "nt = (n, t)" by fastforce
  let ?v = "map_index m n"
  let ?m1 = "case decoded_param t ?v of None \<Rightarrow> m0 | Some s \<Rightarrow> map_insert m0 n s"
  have n: "n \<notin> fst ` set tbl" "m0 n = None" "t = PARAM_STRING \<longrightarrow> int (length ?v) \<le> int64_max" using Cons.prems nt by auto
  then have m1: "?m1 = (case decoded_param t ?v of None \<Rightarrow> m0 | Some s \<Rightarrow> m0(n \<mapsto> s))"
    by (simp add: map_insert_def split: option.splits)
  have "?m1 k = None" if "(k, t') \<in> set tbl" for k t'
    using Cons.prems that n nt unfolding m1 by (force split: option.splits)
  then have "deserialize_loop tbl (table_code tbl m) ?m1 (vc XOR read_vc t ?v) =
      Inr (?m1 ++ decoded_map tbl m, table_vc read_vc tbl m (vc XOR read_vc t ?v))"
    using Cons.prems nt by (intro Cons.IH) auto
  moreover have "?m1 ++ decoded_map tbl m = m0 ++ decoded_map (nt # tbl) m"
  proof -
    have "decoded_map tbl m n = None" using n(1) by (simp add: decoded_map_def map_of_eq_None_iff [THEN iffD2])
    then show ?thesis unfolding m1 nt decoded_map_Cons [OF n(1)]
      using n(2) by (auto simp: map_add_def fun_eq_iff split: option.splits)
  qed
  ultimately show ?case by (simp only: nt table_code_simps table_vc_simps decode_field [OF n(3)])
qed

lemma table_code_string_bound:
  "(n, PARAM_STRING) \<in> set tbl \<Longrightarrow> length (map_index m n) \<le> length (table_code tbl m)"
  by (induction tbl) (auto simp: field_code_def str_code_def)

lemma deserialize_serialized:
  assumes "distinct (map fst tbl)" "serialize_loop tbl m ser_start = Inr st"
  shows "deserialize_loop tbl (ser_out st) Map.empty 0xFFFFFFFF =
      Inr (decoded_map tbl m, table_vc read_vc tbl m 0xFFFFFFFF)"
    "ser_vc st = table_vc field_vc tbl m 0xFFFFFFFF" "length (ser_out st) \<le> buf_size"
proof -
  have out: "ser_out st = table_code tbl m" and vc: "ser_vc st = table_vc field_vc tbl m 0xFFFFFFFF"
    using serialize_loop_Inr [OF assms(2)] by (simp_all add: ser_start_def)
  show len: "length (ser_out st) \<le> buf_size"
    using serialize_loop_bound [OF assms(2)] by (simp add: ser_start_def)
  have "int (length (map_index m n)) \<le> int64_max" if "(n, PARAM_STRING) \<in> set tbl" for n
    using table_code_string_bound [OF that, of m] len out by (simp add: buf_size_def int_limits)
  then show "deserialize_loop tbl (ser_out st) Map.empty 0xFFFFFFFF =
      Inr (decoded_map tbl m, table_vc read_vc tbl m 0xFFFFFFFF)"
    unfolding out by (subst deserialize_table_code [OF assms(1)]) auto
  show "ser_vc st = table_vc field_vc tbl m 0xFFFFFFFF" by (fact vc)
qed

lemma table_vc_cong:
  "(\<And>n t. (n, t) \<in> set tbl \<Longrightarrow> f t (map_index m n) = g t (map_index m n)) \<Longrightarrow> table_vc f tbl m vc = table_vc g tbl m vc"
proof (induction tbl arbitrary: vc)
  case (Cons nt tbl)
  then show ?case by (cases nt) simp
qed simp

definition no_negative :: "binding_table \<Rightarrow> param_map \<Rightarrow> bool" where
  "no_negative tbl m \<longleftrightarrow> (\<forall>(n, t) \<in> set tbl. t = PARAM_INT \<longrightarrow> 0 \<le> stringToInt (map_index m n))"

lemma vc_agrees: "no_negative tbl m \<Longrightarrow> table_vc field_vc tbl m vc = table_vc read_vc tbl m vc"
  by (rule table_vc_cong)
    (auto simp: no_negative_def field_vc_def read_vc_def max_def split: param_type.splits)

lemma serialized_params:
  assumes "distinct (map fst tbl)" "no_negative tbl (paramMap h)" "urlParamSerialize tbl h = Inr (s, h')"
  obtains vc where "urlParamDeserialize tbl s Map.empty = Inr (decoded_map tbl (paramMap h), vc)"
    "h' = h\<lparr>macroParamMap := (macroParamMap h)(MACRO_HOLDER \<mapsto> vc_string vc)\<rparr>" "length s \<le> buf_size"
proof -
  obtain st where st: "serialize_loop tbl (paramMap h) ser_start = Inr st" "s = map chr8 (ser_out st)"
    "h' = h\<lparr>macroParamMap := (macroParamMap h)(MACRO_HOLDER \<mapsto> vc_string (ser_vc st))\<rparr>"
    using assms(3) by (auto simp: urlParamSerialize_def bind_result_eq_Inr)
  show thesis
    using deserialize_serialized [OF assms(1) st(1)] vc_agrees [OF assms(2), of "0xFFFFFFFF"] st(2,3)
    by (intro that [of "ser_vc st"]) (simp_all add: urlParamDeserialize_def)
qed

section \<open>When the serialiser succeeds\<close>

definition room :: "ser_state \<Rightarrow> bool" where
  "room st \<longleftrightarrow> int buf_size \<le> ser_remain st + int (length (ser_out st))"

lemma length_close_number: "bs \<noteq> [] \<Longrightarrow> length (close_number bs) = length bs"
  by (simp add: close_number_def)

lemma numberEncode_total:
  assumes "room st" "length (ser_out st) + length (varint n) + 11 \<le> buf_size" "n > 0"
  shows "numberEncode n st = Inr (st\<lparr>ser_out := ser_out st @ varint n,
    ser_remain := ser_remain st - int (length (varint n))\<rparr>)"
  using assms length_close_number [of "numberEncode_loop n"]
  by (simp add: numberEncode_def Let_def buf_put_def varint_def room_def)

lemma encodeUrlParam_total:
  assumes "room st" "length (ser_out st) + length (field_code t v) + 11 \<le> buf_size"
  obtains st' where "encodeUrlParam t v st = Inr st'" "room st'"
proof (cases t)
  case PARAM_INT
  have "(if v = [] then 0 else stringToInt v) = stringToInt v" by simp
  moreover have "\<exists>st'. writeIntToBuf (stringToInt v) st = Inr st' \<and> room st'"
    using assms PARAM_INT numberEncode_total [OF assms(1), of "stringToInt v"]
    by (auto simp: field_code_def int_code_def writeIntToBuf_def buf_put_def room_def)
  ultimately show thesis
    using PARAM_INT that by (auto simp: encodeUrlParam_def Let_def room_def)
next
  case PARAM_STRING
  have "\<exists>st'. writeStringToBuf v st = Inr st' \<and> room st'"
    using assms PARAM_STRING numberEncode_total [OF assms(1), of "int (length v)"]
    by (auto simp: field_code_def str_code_def writeStringToBuf_def buf_put_def room_def)
  with PARAM_STRING that show thesis by (auto simp: encodeUrlParam_def room_def)
qed

lemma serialize_loop_total:
  assumes "room st" "length (ser_out st) + length (table_code tbl m) + 11 \<le> buf_size"
  shows "\<exists>st'. serialize_loop tbl m st = Inr st'"
  using assms
proof (induction tbl m st rule: serialize_loop.induct)
  case (2 name t tbl m st)
  have "length (ser_out st) + length (field_code t (map_index m name)) + 11 \<le> buf_size"
    using "2.prems"(2) by simp
  then obtain st1 where st1: "encodeUrlParam t (map_index m name) st = Inr st1" "room st1"
    using encodeUrlParam_total [OF "2.prems"(1)] by blast
  have "\<exists>st'. serialize_loop tbl m st1 = Inr st'"
    using "2.IH" [OF _ st1(2)] st1(1) "2.prems"(2) encodeUrlParam_Inr [OF st1(1)] by (simp add: map_index_def)
  with st1(1) show ?case by (simp add: map_index_def)
qed simp

text \<open>serialisation succeeds whenever the code of the parameters leaves 11 bytes of the 2048-byte
  buffer free.\<close>

theorem urlParamSerialize_total:
  assumes "length (table_code tbl (paramMap h)) + 11 \<le> buf_size"
  shows "\<exists>s h'. urlParamSerialize tbl h = Inr (s, h')"
proof -
  have "room ser_start" by (simp add: room_def ser_start_def)
  then obtain st where "serialize_loop tbl (paramMap h) ser_start = Inr st"
    using serialize_loop_total [of ser_start] assms by (auto simp: ser_start_def)
  then show ?thesis by (simp add: urlParamSerialize_def)
qed

lemma stringToInt_300: "stringToInt ''300'' = 300"
  by (simp add: stringToInt_def stol_def strtol_value_def digits_val_def digit_val_def is_digit_char_def
      is_space_char_def int_limits)

lemma to_string_300: "to_string 300 = ''300''"
  by (simp add: to_string_def nat_to_string.simps digit_char_def char_of_def bit_iff_odd)

definition sample_table :: binding_table where
  "sample_table = [(''u'', PARAM_STRING), (''p'', PARAM_INT)]"

definition sample_helper :: url_helper where
  "sample_helper = url_add ''p'' ''300'' (url_add ''u'' ''ab'' URLHelper_empty)"

lemmas sample_defs = sample_table_def sample_helper_def url_add_def URLHelper_empty_def map_index_def

lemma sample_room: "length (table_code sample_table (paramMap sample_helper)) + 11 \<le> buf_size"
  using length_varint [of 2 1] length_varint [of 300 2]
  by (simp add: sample_defs field_code_def str_code_def int_code_def buf_size_def stringToInt_300)

lemma sample_facts:
  "distinct (map fst sample_table)" "no_negative sample_table (paramMap sample_helper)"
  "decoded_map sample_table (paramMap sample_helper) = [''u'' \<mapsto> ''ab'', ''p'' \<mapsto> ''300'']"
  by (simp_all add: sample_defs no_negative_def stringToInt_300 decoded_map_def decoded_param_def
      to_string_300 fun_eq_iff)

theorem urlParamSerialize_total_witness: "\<exists>s h'. urlParamSerialize sample_table sample_helper = Inr (s, h')"
  by (rule urlParamSerialize_total [OF sample_room])

lemma sample_serializes:
  obtains s h' where "urlParamSerialize sample_table sample_helper = Inr (s, h')"
proof -
  have "room ser_start" by (simp add: room_def ser_start_def)
  then obtain st where "serialize_loop sample_table (paramMap sample_helper) ser_start = Inr st"
    using serialize_loop_total [of ser_start] sample_room by (auto simp: ser_start_def)
  then show thesis by (intro that) (simp add: urlParamSerialize_def)
qed

text \<open>C3: reading back a serialised parameter map gives the bound parameters in normal form (numbers
  reprinted, zeros and empty strings dropped), and the verification code the reader computes is the one
  the writer left in the macro map.  The buffer is never overrun by a successful run.\<close>

theorem url_param_round_trip:
  assumes "distinct (map fst tbl)" "no_negative tbl (paramMap h)" "urlParamSerialize tbl h = Inr (s, h')"
  shows "length s \<le> buf_size \<and> (\<exists>vc. macroParamMap h' MACRO_HOLDER = Some (vc_string vc) \<and>
    urlParamDeserialize tbl s Map.empty = Inr (decoded_map tbl (paramMap h), vc))"
  using serialized_params [OF assms] by fastforce

theorem url_param_round_trip_witness:
  "\<exists>s h' vc. urlParamSerialize sample_table sample_helper = Inr (s, h') \<and>
    urlParamDeserialize sample_table s Map.empty = Inr ([''u'' \<mapsto> ''ab'', ''p'' \<mapsto> ''300''], vc)"
proof -
  obtain s h' where s: "urlParamSerialize sample_table sample_helper = Inr (s, h')"
    by (rule sample_serializes)
  from url_param_round_trip [OF sample_facts(1,2) s] s show ?thesis
    unfolding sample_facts(3) by blast
qed

section \<open>Two defects of the writer\<close>

text \<open>the size the writer keeps is larger than the space that is left: after five absent numbers a string
  of 2042 characters passes the check although it does not fit, and the copy leaves the buffer.\<close>

theorem urlParamSerialize_overflow:
  assumes "distinct [n0, n1, n2, n3, n4, n5, n6, n7, n8, n9]" "v = replicate 2042 CHR ''a''"
  shows "urlParamSerialize (paramBindingTable (n0 # n1 # n2 # n3 # n4 # n5 # n6 # n7 # n8 # n9 # ns))
    (url_add n9 v URLHelper_empty) = Inl MemoryFault"
proof -
  have v: "length v = 2042" "v \<noteq> []" using assms(2) by auto
  have enc: "numberEncode_loop 2042 = [0xFA, 0x8F]"
    by (simp add: numberEncode_loop.simps)
  show ?thesis
    using assms(1) v enc
    by (simp add: urlParamSerialize_def paramBindingTable_def paramBindingTypes_def url_add_def
        URLHelper_empty_def ser_start_def buf_size_def encodeUrlParam_def writeStringToBuf_def
        writeIntToBuf_def buf_put_def numberEncode_def close_number_def)
qed

theorem urlParamSerialize_overflow_witness:
  "urlParamSerialize (paramBindingTable [''f'', ''s'', ''o'', ''r'', ''d'', ''e'', ''ep'', ''c'', ''x'', ''h''])
    (url_add ''h'' (replicate 2042 CHR ''a'') URLHelper_empty) = Inl MemoryFault"
  by (rule urlParamSerialize_overflow [OF _ refl]) simp

lemma table_vc_XOR: "table_vc f tbl m (vc XOR d) = table_vc f tbl m vc XOR d"
proof (induction tbl arbitrary: vc)
  case (Cons nt tbl)
  obtain n t where "nt = (n, t)" by fastforce
  then show ?case using Cons [of "vc XOR f t (map_index m n)"] by (simp add: xor.assoc xor.commute xor.left_commute)
qed simp

lemma no_negative_Cons:
  "no_negative ((k, t) # tbl) m \<longleftrightarrow> (t = PARAM_INT \<longrightarrow> 0 \<le> stringToInt (map_index m k)) \<and> no_negative tbl m"
  by (auto simp: no_negative_def)

lemma xor_eq_self_iff: "a XOR w = a \<longleftrightarrow> w = (0 :: u64)"
proof
  assume "a XOR w = a"
  then have "a XOR (a XOR w) = 0" by simp
  then show "w = 0" by (simp flip: xor.assoc)
qed simp

lemma table_vc_one_negative:
  assumes "distinct (map fst tbl)" "(n, PARAM_INT) \<in> set tbl" "stringToInt (map_index m n) < 0"
    "no_negative tbl (m(n := None))"
  shows "table_vc field_vc tbl m vc = table_vc read_vc tbl m vc XOR word_of_int (stringToInt (map_index m n))"
  using assms
proof (induction tbl arbitrary: vc)
  case (Cons kt tbl)
  obtain k t where kt: "kt = (k, t)" by fastforce
  show ?case
  proof (cases "k = n")
    case True
    then have "t = PARAM_INT" using Cons.prems kt by (auto simp: rev_image_eqI)
    have "no_negative tbl m"
    proof -
      have "0 \<le> stringToInt (map_index m x)" if "(x, PARAM_INT) \<in> set tbl" for x
      proof -
        have "x \<noteq> n" using that Cons.prems(1) kt True by (auto simp: rev_image_eqI)
        with that Cons.prems(4) kt show ?thesis by (auto simp: no_negative_def map_index_def)
      qed
      then show ?thesis by (auto simp: no_negative_def)
    qed
    then have "table_vc field_vc tbl m vc' = table_vc read_vc tbl m vc'" for vc' by (rule vc_agrees)
    with True \<open>t = PARAM_INT\<close> kt Cons.prems(3) show ?thesis
      by (simp add: field_vc_def [of PARAM_INT] read_vc_def [of PARAM_INT] table_vc_XOR max_def)
  next
    case False
    have "field_vc t (map_index m k) = read_vc t (map_index m k)"
      using Cons.prems(4) False kt
      by (auto simp: no_negative_def field_vc_def read_vc_def map_index_def max_def split: param_type.splits)
    moreover have ih: "(n, PARAM_INT) \<in> set tbl" "no_negative tbl (m(n := None))" "distinct (map fst tbl)"
      using Cons.prems kt False by (auto simp: no_negative_Cons simp del: fun_upd_apply)
    ultimately show ?thesis using Cons.IH [OF ih(3,1) Cons.prems(3) ih(2)] kt by simp
  qed
qed simp

text \<open>a negative number is written as zero but enters the writer's verification code: with exactly one
  negative number the code the reader computes differs from the writer's.\<close>

theorem negative_number_breaks_vc:
  assumes "distinct (map fst tbl)" "(n, PARAM_INT) \<in> set tbl"
    "stringToInt (map_index (paramMap h) n) < 0" "no_negative tbl ((paramMap h)(n := None))"
    "urlParamSerialize tbl h = Inr (s, h')"
  shows "\<exists>m vc vc'. urlParamDeserialize tbl s Map.empty = Inr (m, vc) \<and>
    macroParamMap h' MACRO_HOLDER = Some (vc_string vc') \<and> vc \<noteq> vc'"
proof -
  let ?n = "stringToInt (map_index (paramMap h) n)"
  obtain st where st: "serialize_loop tbl (paramMap h) ser_start = Inr st" "s = map chr8 (ser_out st)"
    "macroParamMap h' MACRO_HOLDER = Some (vc_string (ser_vc st))"
    using assms(5) by (auto simp: urlParamSerialize_def bind_result_eq_Inr)
  have "(word_of_int ?n :: u64) \<noteq> 0"
  proof
    assume "(word_of_int ?n :: u64) = 0"
    then have "2 ^ 64 dvd ?n" by (simp add: word_of_int_eq_0_iff)
    moreover have "\<bar>?n\<bar> < 2 ^ 64" using stringToInt_range [of "map_index (paramMap h) n"] by (auto simp: int_limits)
    ultimately show False using assms(3) by (auto dest: dvd_imp_le_int)
  qed
  then have "ser_vc st \<noteq> table_vc read_vc tbl (paramMap h) 0xFFFFFFFF"
    unfolding deserialize_serialized(2) [OF assms(1) st(1)] table_vc_one_negative [OF assms(1-4)]
    by (simp add: xor_eq_self_iff)
  with deserialize_serialized(1) [OF assms(1) st(1)] st(2,3) show ?thesis
    by (auto simp: urlParamDeserialize_def)
qed

theorem negative_number_breaks_vc_witness:
  "\<exists>s h' m vc vc'. urlParamSerialize [(''p'', PARAM_INT)] (url_add ''p'' ''-1'' URLHelper_empty) = Inr (s, h') \<and>
    urlParamDeserialize [(''p'', PARAM_INT)] s Map.empty = Inr (m, vc) \<and>
    macroParamMap h' MACRO_HOLDER = Some (vc_string vc') \<and> vc \<noteq> vc'"
proof -
  let ?h = "url_add ''p'' ''-1'' URLHelper_empty"
  have neg: "stringToInt ''-1'' = -1"
    by (simp add: stringToInt_def stol_def strtol_value_def digits_val_def digit_val_def is_digit_char_def
        is_space_char_def int_limits)
  obtain s h' where s: "urlParamSerialize [(''p'', PARAM_INT)] ?h = Inr (s, h')"
    by (simp add: urlParamSerialize_def encodeUrlParam_def writeIntToBuf_def buf_put_def neg
        ser_start_def buf_size_def url_add_def URLHelper_empty_def)
  have "stringToInt (map_index (paramMap ?h) ''p'') < 0" "no_negative [(''p'', PARAM_INT)] ((paramMap ?h)(''p'' := None))"
    by (simp_all add: neg url_add_def map_index_def no_negative_def URLHelper_empty_def)
  with negative_number_breaks_vc [of "[(''p'', PARAM_INT)]" "''p''" ?h s h'] s show ?thesis by auto
qed

end
