(* ===== verification/Url_Cipher.thy ===== *)
theory Url_Cipher
  imports Url_Helper Cypher
begin

text \<open>
  Properties of \<open>URLHelper\<close> as a whole: a ciphered parameter string is read back to the parameters it was
  made from, the reader always returns, and the constructor that splits a URL undoes the printer.  The
  base64 coder and the iteration order of the maps enter through their documented laws.
\<close>

section \<open>The ciphered parameters\<close>

lemma decode_plain:
  "CHR ''%'' \<notin> set s \<Longrightarrow> urlDecode_f_loop (s @ t) = bind_result (urlDecode_f_loop t) (\<lambda>out. Inr (s @ out))"
proof (induction s)
  case Nil
  then show ?case by (cases "urlDecode_f_loop t") simp_all
next
  case (Cons c s)
  then show ?case by (cases "urlDecode_f_loop t") auto
qed

lemma decode_bar: "urlDecode_f_loop (''%7c'' @ t) = bind_result (urlDecode_f_loop t) (\<lambda>out. Inr (''|'' @ out))"
proof -
  have "unreserved CHR ''7''" "unreserved CHR ''c''" by (simp_all add: unreserved_def schar_def)
  then have "urlDecode_f_pair CHR ''7'' CHR ''c'' = Inr (urlDecode_pair CHR ''7'' CHR ''c'')"
    by (intro urlDecode_f_pair_ascii unreserved_is_ascii)
  moreover have "urlDecode_pair CHR ''7'' CHR ''c'' = CHR ''|''"
    by (simp add: urlDecode_pair_def urlDecode_digit_def schar_def chr8_def char_of_def bit_iff_odd)
  ultimately show ?thesis by simp
qed

text \<open>What the reader splits: the main part and the macros, each behind a bar.\<close>

definition barred :: "(string \<times> string) list \<Rightarrow> string" where
  "barred kvs = concat (map (\<lambda>(k, v). ''|'' @ k @ ''|'' @ v) kvs) @ ''|''"

lemma decode_macros:
  assumes "\<forall>(k, v) \<in> set kvs. CHR ''%'' \<notin> set k \<and> CHR ''%'' \<notin> set v"
  shows "urlDecode_f_loop (concat (map (\<lambda>(k, v). ''%7c'' @ k @ ''%7c'' @ v) kvs) @ ''%7c'') = Inr (barred kvs)"
  using assms
proof (induction kvs)
  case Nil
  show ?case using decode_bar [of "[]"] by (simp add: barred_def)
next
  case (Cons kv kvs)
  obtain k v where kv: "kv = (k, v)" by fastforce
  with Cons.prems have k: "CHR ''%'' \<notin> set k" and v: "CHR ''%'' \<notin> set v" by auto
  let ?rest = "concat (map (\<lambda>(k, v). ''%7c'' @ k @ ''%7c'' @ v) kvs) @ ''%7c''"
  have ih: "urlDecode_f_loop ?rest = Inr (barred kvs)" using Cons by simp
  have "urlDecode_f_loop (''%7c'' @ k @ ''%7c'' @ v @ ?rest) = Inr (''|'' @ k @ ''|'' @ v @ barred kvs)"
    by (simp only: decode_bar decode_plain [OF k] decode_plain [OF v] ih bind_result_simps)
  with kv show ?case by (simp add: barred_def del: urlDecode_f_loop.simps)
qed

lemma split_barred:
  assumes "CHR ''|'' \<notin> set x" "\<forall>(k, v) \<in> set kvs. CHR ''|'' \<notin> set k \<and> CHR ''|'' \<notin> set v"
  shows "split_any ''|'' (x @ barred kvs) = x # concat (map (\<lambda>(k, v). [k, v]) kvs) @ [[]]"
  using assms
proof (induction kvs arbitrary: x)
  case Nil
  then show ?case using split_any_append [of x "''|''" "CHR ''|''" "[]"] by (simp add: barred_def)
next
  case (Cons kv kvs)
  obtain k v where kv: "kv = (k, v)" by fastforce
  have "split_any ''|'' (x @ CHR ''|'' # k @ CHR ''|'' # v @ barred kvs) = x # k # split_any ''|'' (v @ barred kvs)"
    using Cons.prems kv by (simp add: split_any_append)
  with Cons kv show ?case by (simp add: barred_def)
qed

lemma insert_pairs_map_of:
  "insert_pairs (concat (map (\<lambda>(k, v). [k, v]) kvs) @ [[]]) m = map_of kvs ++ m"
proof (induction kvs arbitrary: m)
  case (Cons kv kvs)
  then show ?case
    by (cases kv) (auto simp: map_insert_def map_add_def fun_eq_iff split: option.splits)
qed simp

lemma getParamv2_holder:
  assumes "\<forall>c \<in> set b. c \<noteq> CHR ''&'' \<and> c \<noteq> NUL \<and> c \<noteq> CHR '' ''"
  shows "map_index (getParamv2 Map.empty (''_q_='' @ b) CHR ''&'') ENCODE_HOLDER = b"
proof -
  let ?kv = "[(''_q_'', b)]"
  have "cstr (query CHR ''&'' ?kv) = query CHR ''&'' ?kv" using assms by (intro cstr_id) auto
  moreover have "parse_finish (query CHR ''&'' ?kv)
      ((getParamv2_step (query CHR ''&'' ?kv) CHR ''&'' ^^ length (query CHR ''&'' ?kv)) (parse_start Map.empty)) =
      ps_map (parse_start Map.empty) ++ map_of (rev (stored_pairs ?kv))"
    using assms
    by (intro v2.run_query [of ?kv "CHR ''&''" _ "[]"]) (auto simp: plain_pair_def parse_start_def)
  ultimately show ?thesis
    by (simp add: getParamv2_def parse_start_def map_index_def ENCODE_HOLDER_def)
qed

text \<open>The laws of base64 and of map iteration the class relies on.\<close>

definition base64_alphabet :: string where
  "base64_alphabet =
     ''ABCDEFGHIJKLMNOPQRSTUVWXYZabcdefghijklmnopqrstuvwxyz0123456789+/='' @ [CHR 0x0A]"

definition base64_codec :: "(string \<Rightarrow> string) \<Rightarrow> (string \<Rightarrow> string option) \<Rightarrow> bool" where
  "base64_codec b64enc b64dec \<longleftrightarrow>
     (\<forall>s. b64dec (b64enc s) = Some s \<and> set (b64enc s) \<subseteq> set base64_alphabet)"

definition iterates :: "map_order \<Rightarrow> bool" where
  "iterates order \<longleftrightarrow> (\<forall>m. finite (dom m) \<longrightarrow> distinct (map fst (order m)) \<and> map_of (order m) = m)"

text \<open>Macros travel unencoded, so they must not contain the two characters the reader interprets.\<close>

definition plain_macro :: "string \<Rightarrow> bool" where
  "plain_macro s \<longleftrightarrow> CHR ''%'' \<notin> set s \<and> CHR ''|'' \<notin> set s"

definition plain_macros :: "param_map \<Rightarrow> bool" where
  "plain_macros m \<longleftrightarrow> finite (dom m) \<and> (\<forall>k v. m k = Some v \<longrightarrow> plain_macro k \<and> plain_macro v)"

lemma set_nat_to_hex: "set (nat_to_hex n) \<subseteq> set ''0123456789abcdef''"
proof (induction n rule: nat_to_hex.induct)
  case (1 n)
  have d: "''0123456789abcdef'' ! (k mod 16) \<in> set ''0123456789abcdef''" for k
    by (rule nth_mem) simp
  show ?case
  proof (cases "n < 16")
    case True
    then show ?thesis using d [of n] by (simp add: nat_to_hex.simps [of n])
  next
    case False
    then show ?thesis using 1 d [of n] by (simp add: nat_to_hex.simps [of n])
  qed
qed

lemma plain_vc: "plain_macro (vc_string vc)" "plain_macro MACRO_HOLDER"
  using set_nat_to_hex [of "unat vc"] by (auto simp: plain_macro_def vc_string_def MACRO_HOLDER_def)

lemma base64_chars:
  assumes "base64_codec b64enc b64dec" "c \<in> set (b64enc s)"
  shows "c \<notin> {CHR ''|'', CHR ''%'', CHR ''&'', CHR '' '', NUL}"
proof -
  have "c \<in> set base64_alphabet" using assms by (auto simp: base64_codec_def)
  then show ?thesis by (auto simp: base64_alphabet_def)
qed

lemma no_percent: "CHR ''%'' \<notin> set s \<Longrightarrow> \<not> str_contains s ''%7c''"
  by (auto simp: str_contains_iff)

lemma processEncoded_cipher:
  assumes b64: "base64_codec b64enc b64dec" and order: "iterates order"
    and tbl: "distinct (map fst tbl)" "MACRO_HOLDER \<notin> fst ` set tbl"
    and h: "no_negative tbl (paramMap h)" "plain_macros (macroParamMap h)"
    and cipher: "cipherParam b64enc order tbl h = Inr (data, h')"
    and fits: "length data < 2048" and h0: "paramMap h0 = Map.empty"
  shows "processEncoded b64dec tbl data h0 =
    Inr (True, h0\<lparr>paramMap := macroParamMap h' ++ decoded_map tbl (paramMap h)\<rparr>)"
proof -
  obtain bin e where ser: "urlParamSerialize tbl h = Inr (bin, h')"
    and e: "urlEncode_f 2048 (b64enc bin) = Inr e"
    and data: "data = ''_q_='' @ e @ concat (map (\<lambda>(k, v). ''%7c'' @ k @ ''%7c'' @ v) (order (macroParamMap h'))) @ ''%7c''"
    using cipher by (auto simp: cipherParam_def bind_result_eq_Inr ENCODE_HOLDER_def)
  obtain vc where vc: "urlParamDeserialize tbl bin Map.empty = Inr (decoded_map tbl (paramMap h), vc)"
    "h' = h\<lparr>macroParamMap := (macroParamMap h)(MACRO_HOLDER \<mapsto> vc_string vc)\<rparr>"
    using serialized_params [OF tbl(1) h(1) ser] by blast
  let ?b = "b64enc bin" and ?kvs = "order (macroParamMap h')"
  have "plain_macros (macroParamMap h')"
    using h(2) plain_vc unfolding vc(2) plain_macros_def by auto
  then have kvs: "map_of ?kvs = macroParamMap h'" and dist: "distinct (map fst ?kvs)"
    and pm: "\<And>k v. macroParamMap h' k = Some v \<Longrightarrow> plain_macro k \<and> plain_macro v"
    using order by (auto simp: iterates_def plain_macros_def)
  have plain: "\<forall>(k, v) \<in> set ?kvs. plain_macro k \<and> plain_macro v"
    using pm map_of_is_SomeI [OF dist] kvs by fastforce
  let ?safe = "(''_q_='' @ ?b) @ barred ?kvs"
  have "urlDecode_f_loop data = Inr ?safe"
  proof -
    have "urlDecode_f_loop (concat (map (\<lambda>(k, v). ''%7c'' @ k @ ''%7c'' @ v) ?kvs) @ ''%7c'') = Inr (barred ?kvs)"
      using plain by (intro decode_macros) (auto simp: plain_macro_def)
    then show ?thesis
      unfolding data using decode_plain [of "''_q_=''"] urlEncode_f_decodes(1) [OF e] by simp
  qed
  then have dec: "urlDecode_f 2048 data = Inr ?safe" using fits by (simp add: urlDecode_f_def)
  have "CHR ''%'' \<notin> set ?safe"
    using plain base64_chars [OF b64, of _ bin] by (auto simp: barred_def plain_macro_def)
  then have no: "\<not> str_contains ?safe ''%7c''" by (rule no_percent)
  have split: "split_any ''|'' ?safe = (''_q_='' @ ?b) # concat (map (\<lambda>(k, v). [k, v]) ?kvs) @ [[]]"
    using plain base64_chars [OF b64, of _ bin] by (intro split_barred) (auto simp: plain_macro_def)
  have main: "map_index (getParamv2 Map.empty (''_q_='' @ ?b) CHR ''&'') ENCODE_HOLDER = ?b"
    using base64_chars [OF b64, of _ bin] by (intro getParamv2_holder) auto
  have "decoded_map tbl (paramMap h) MACRO_HOLDER = None"
    using tbl(2) by (simp add: decoded_map_def map_of_eq_None_iff [THEN iffD2])
  then have "map_index (macroParamMap h' ++ decoded_map tbl (paramMap h)) MACRO_HOLDER = vc_string vc"
    using vc(2) by (simp add: map_index_def map_add_def)
  moreover have "b64dec ?b = Some bin" using b64 by (simp add: base64_codec_def)
  ultimately show ?thesis
    unfolding processEncoded_def dec bind_result_simps using no
    by (simp add: split main h0 vc(1) insert_pairs_map_of kvs del: append_assoc append.simps)
qed

text \<open>C1: a ciphered parameter string of less than 2048 characters, without negative numbers and with plain
  macros, is read back: parsing what \<open>cipherParam\<close> produced, into a fresh
  object, always returns and yields the bound parameters in normal form together with the macros, and the
  verification code matches.  Base64 enters through its round trip and its alphabet.\<close>

theorem cipher_round_trip:
  assumes "base64_codec b64enc b64dec" "iterates order"
    "distinct (map fst tbl)" "MACRO_HOLDER \<notin> fst ` set tbl"
    "no_negative tbl (paramMap h)" "plain_macros (macroParamMap h)"
    "cipherParam b64enc order tbl h = Inr (data, h')" "length data < 2048" "paramMap h0 = Map.empty"
  shows "processParamDataWithRetry b64dec tbl data True h0 =
    Some (Inr (h0\<lparr>paramMap := macroParamMap h' ++ decoded_map tbl (paramMap h)\<rparr>))"
  using processEncoded_cipher [OF assms] assms(8)
  by (simp add: processParamDataWithRetry_def processParamData_def)

definition hex_enc :: "string \<Rightarrow> string" where
  "hex_enc s = toHex (map ord8 s)"

definition hex_dec :: "string \<Rightarrow> string option" where
  "hex_dec e = Some (map chr8 (fromHex e (replicate (length e div 2) 0)))"

definition key_order :: map_order where
  "key_order m = map (\<lambda>k. (k, the (m k))) (sorted_list_of_set (dom m))"

lemma hex_base64: "base64_codec hex_enc hex_dec"
proof -
  have "length (toHex bs) = 2 * length bs" for bs by (simp add: toHex_def)
  then have "hex_dec (hex_enc s) = Some s" for s
    using fromHex_loop_toHex [of "[]" "map ord8 s" "replicate (length s) 0"]
    by (simp add: hex_enc_def hex_dec_def fromHex_def toHex_def)
  moreover have "set (toHex bs) \<subseteq> set base64_alphabet" for bs
  proof -
    have "hexMap_upper ! v \<in> set base64_alphabet" if "v < 16" for v
      using nth_mem [of v hexMap_upper] that by (auto simp: hexMap_upper_def base64_alphabet_def)
    then show ?thesis unfolding toHex_def by (induction bs) auto
  qed
  ultimately show ?thesis by (simp add: base64_codec_def hex_enc_def)
qed

lemma key_order_iterates: "iterates key_order"
proof -
  have "map_of (key_order m) = m" if "finite (dom m)" for m
    using that by (intro ext) (auto simp: key_order_def map_of_map_keys restrict_map_def domIff)
  then show ?thesis by (simp add: iterates_def key_order_def comp_def)
qed

lemma sample_serialize:
  "urlParamSerialize sample_table sample_helper = Inr (map chr8 [2, 0x61, 0x62, 0xAC, 2],
     sample_helper\<lparr>macroParamMap := [MACRO_HOLDER \<mapsto> ''fffffed1'']\<rparr>)"
proof -
  have "numberEncode_loop 2 = [130]" "numberEncode_loop 300 = [0xAC, 0x82]"
    by (simp_all add: numberEncode_loop.simps)
  moreover have "nat_to_hex 0xFFFFFED1 = ''fffffed1''" by (simp add: nat_to_hex.simps)
  ultimately show ?thesis
    by (simp add: urlParamSerialize_def sample_defs ser_start_def buf_size_def encodeUrlParam_def writeStringToBuf_def
        writeIntToBuf_def buf_put_def numberEncode_def close_number_def stringToInt_300 vc_string_def ord8_def)
qed

lemma sample_cipher:
  "cipherParam hex_enc key_order sample_table sample_helper =
     Inr (''_q_=201626CA20%7c_mh_%7cfffffed1%7c'',
       sample_helper\<lparr>macroParamMap := [MACRO_HOLDER \<mapsto> ''fffffed1'']\<rparr>)"
proof -
  have "hex_enc (map chr8 [2, 0x61, 0x62, 0xAC, 2]) = ''201626CA20''"
    by (simp add: hex_enc_def toHex_def hexMap_upper_def)
  moreover have "urlEncode_f 2048 ''201626CA20'' = Inr ''201626CA20''"
    by (simp add: urlEncode_f_def urlEncode_f_loop_eq ascii_def urlEncode_f_char_def UrlEncodeTable_nth table_plain_def)
  ultimately show ?thesis
    by (simp add: cipherParam_def sample_serialize key_order_def MACRO_HOLDER_def ENCODE_HOLDER_def)
qed

theorem cipher_round_trip_witness:
  "processParamDataWithRetry hex_dec sample_table ''_q_=201626CA20%7c_mh_%7cfffffed1%7c'' True URLHelper_empty =
    Some (Inr (URLHelper_empty\<lparr>paramMap :=
      [MACRO_HOLDER \<mapsto> ''fffffed1''] ++ [''u'' \<mapsto> ''ab'', ''p'' \<mapsto> ''300'']\<rparr>))"
proof -
  have "MACRO_HOLDER \<notin> fst ` set sample_table" "plain_macros (macroParamMap sample_helper)"
    "paramMap URLHelper_empty = Map.empty"
    by (simp_all add: sample_defs MACRO_HOLDER_def plain_macros_def)
  with cipher_round_trip [OF hex_base64 key_order_iterates sample_facts(1) _ sample_facts(2) _ sample_cipher]
  show ?thesis by (simp add: sample_facts(3))
qed

lemma replace_dash: "url_replace_all s ''-'' ''%'' \<noteq> None"
  using replace_single_loop [of "CHR ''-''" "''%''" "[]" 0 s] by (simp add: url_replace_all_def)

text \<open>C17: reading parameter data always returns, for every input, with the object's address part unchanged
  in every branch that does not fault.\<close>

theorem processParamDataWithRetry_returns:
  "\<exists>r. processParamDataWithRetry b64dec tbl data encoded h = Some r \<and>
    (\<forall>h'. r = Inr h' \<longrightarrow> protocolName h' = protocolName h \<and> host h' = host h \<and> port h' = port h \<and>
      path h' = path h \<and> macroParamMap h' = macroParamMap h)"
proof -
  have keep: "protocolName h' = protocolName h \<and> host h' = host h \<and> port h' = port h \<and>
      path h' = path h \<and> macroParamMap h' = macroParamMap h"
    if "processParamData b64dec tbl data encoded h = Inr (ok, h')" for data h ok h'
    using that
    by (auto simp: processParamData_def processEncoded_def bind_result_eq_Inr bind_result_eq_Inl Let_def
        split: if_splits sum.splits option.splits)
  show ?thesis
    using replace_dash [of data]
    by (auto simp: processParamDataWithRetry_def bind_result_eq_Inr split: sum.splits bool.splits option.splits
        dest!: keep)
qed

theorem processParamDataWithRetry_returns_witness:
  "\<exists>h'. processParamDataWithRetry hex_dec sample_table ''x=1'' False (URLHelper_empty\<lparr>host := ''h''\<rparr>) = Some (Inr h') \<and>
     host h' = ''h''"
proof -
  let ?h = "URLHelper_empty\<lparr>host := ''h''\<rparr>"
  obtain h' where "processParamDataWithRetry hex_dec sample_table ''x=1'' False ?h = Some (Inr h')"
    by (simp add: processParamDataWithRetry_def processParamData_def)
  with processParamDataWithRetry_returns [of hex_dec sample_table "''x=1''" False ?h] show ?thesis by auto
qed

section \<open>Splitting a URL\<close>

lemma str_find_from:
  "a \<notin> set u \<Longrightarrow> str_find (pre @ u @ a # w) [a] (length pre) = Some (length pre + length u)"
  "a \<notin> set u \<Longrightarrow> str_find (pre @ u) [a] (length pre) = None"
  by (simp_all add: str_find_def find_sub_single) (metis (mono_tags, lifting) takeWhile_append2 takeWhile.simps(2) append_Nil2)+

lemma strtol_value_digits_then:
  assumes "\<forall>c \<in> set ds. is_digit_char c" "ds \<noteq> []" "\<not> is_digit_char c" 
  shows "strtol_value (ds @ c # r) = Some (digits_val ds)"
proof -
  from assms(2) obtain d ds' where ds: "ds = d # ds'" by (cases ds) auto
  have d: "d \<noteq> NUL" "d \<noteq> CHR ''-''" "d \<noteq> CHR ''+''" "\<not> is_space_char d"
    using assms(1) ds digit_not_special by simp_all
  have "takeWhile is_digit_char (cstr (ds @ c # r)) = ds"
    using assms(1,3)
  proof (induction ds)
    case (Cons x xs)
    then show ?case using digit_not_special(1) [of x] by auto
  qed simp
  moreover have "cstr (ds @ c # r) = d # cstr (ds' @ c # r)" using ds d by simp
  ultimately show ?thesis
    using ds d by (simp add: strtol_value_def Let_def)
qed

lemma atoi_port:
  assumes "0 \<le> p" "p \<le> int32_max" "\<not> is_digit_char c"
  shows "atoi (to_string p @ c # r) = p"
proof -
  have "strtol_value (nat_to_string (nat p) @ c # r) = Some (digits_val (nat_to_string (nat p)))"
    using nat_to_string_digits assms(3) by (intro strtol_value_digits_then) auto
  with assms show ?thesis by (simp add: atoi_def to_string_def int_limits wrap32_def)
qed

text \<open>The URLs the class prints unambiguously.\<close>

definition well_formed_url :: "url_helper \<Rightarrow> bool" where
  "well_formed_url h \<longleftrightarrow>
     protocolName h \<noteq> [] \<and> CHR '':'' \<notin> set (protocolName h) \<and>
     host h \<noteq> [] \<and> CHR '':'' \<notin> set (host h) \<and> CHR ''/'' \<notin> set (host h) \<and>
     (port h = [] \<or> (\<exists>p. 0 \<le> p \<and> p \<le> int32_max \<and> port h = to_string p)) \<and>
     (\<exists>r. path h = CHR ''/'' # r) \<and> CHR ''?'' \<notin> set (path h)"

lemma colon_loop_protocol:
  assumes "CHR '':'' \<notin> set P" "w \<noteq> []"
  shows "colon_loop ((P @ ''://'') @ w) 0 0 [] =
    colon_loop ((P @ ''://'') @ w) (length (P @ ''://'')) (length (P @ ''://'')) P"
proof -
  let ?url = "(P @ ''://'') @ w"
  have "str_find ?url '':'' 0 = Some (length P)"
    using str_find_from(1) [OF assms(1), of "[]" "''//'' @ w"] by simp
  moreover have "length P < length ?url - 3" "c_at ?url (length P + 1) = CHR ''/''"
    "c_at ?url (length P + 2) = CHR ''/''" "take (length P) ?url = P"
    using assms(2) by (simp_all add: c_at_def nth_append)
  moreover have "length P + 3 = length (P @ ''://'')" by simp
  ultimately show ?thesis
    by (subst colon_loop.simps) (simp only: option.case, simp)
qed

lemma colon_loop_none:
  "CHR '':'' \<notin> set w \<Longrightarrow> colon_loop (pre @ w) (length pre) (length pre) P = (length pre, P, [], [])"
  using str_find_from(2) [of "CHR '':''" w pre] by (subst colon_loop.simps) simp

lemma colon_loop_port:
  assumes "CHR '':'' \<notin> set H" "0 \<le> p" "p \<le> int32_max"
  shows "colon_loop (pre @ H @ CHR '':'' # to_string p @ CHR ''/'' # r) (length pre) (length pre) P =
    (length pre, P, H, to_string p)"
proof -
  let ?w = "to_string p @ CHR ''/'' # r"
  let ?url = "pre @ H @ CHR '':'' # ?w" and ?q = "length pre + length H"
  obtain d ds where p: "to_string p = d # ds" "is_digit_char d"
    using assms(2) nat_to_string_digits [of "nat p"] nat_to_string_nonempty [of "nat p"]
    by (cases "nat_to_string (nat p)") (auto simp: to_string_def)
  have "str_find ?url '':'' (length pre) = Some ?q"
    using str_find_from(1) [OF assms(1), of pre ?w] by simp
  moreover have "c_at ?url (?q + 1) = d" using p by (simp add: c_at_def nth_append)
  moreover have "drop (?q + 1) ?url = ?w" by simp
  moreover have "token ?url (length pre) ?q = H" by (rule token_append)
  moreover have "atoi ?w = p" using assms by (intro atoi_port) (simp_all add: is_digit_char_def)
  moreover have "d \<noteq> CHR ''/''" using p(2) by (auto simp: is_digit_char_def)
  moreover have "?q < length ?url - 2" using p(1) by simp
  ultimately show ?thesis
    using p(2) by (subst colon_loop.simps) (simp only: option.case, simp)
qed

lemma split_location:
  assumes "colon_loop (pre @ u @ pth @ CHR ''?'' # data) 0 0 [] = (length pre, proto, hst, prt)"
    "CHR ''/'' \<notin> set u" "pth = CHR ''/'' # r" "CHR ''?'' \<notin> set pth"
  shows "URLHelper_url b64dec tbl (pre @ u @ pth @ CHR ''?'' # data) encoded =
    processParamDataWithRetry b64dec tbl data encoded (URLHelper_empty\<lparr>protocolName := proto,
      host := if hst = [] then u else hst, port := prt, path := pth\<rparr>)"
proof -
  let ?url = "pre @ u @ pth @ CHR ''?'' # data"
  have slash: "str_find ?url ''/'' (length pre) = Some (length pre + length u)"
    using str_find_from(1) [OF assms(2), of pre "r @ CHR ''?'' # data"] assms(3) by simp
  have mark: "str_find ?url ''?'' (length pre + length u) = Some (length pre + length u + length pth)"
    using str_find_from(1) [OF assms(4), of "pre @ u" data] by simp
  have toks: "token ?url (length pre) (length pre + length u) = u"
    "token ?url (length pre + length u) (length pre + length u + length pth) = pth"
    "drop (length pre + length u + length pth + 1) ?url = data"
    by (simp_all add: token_def)
  show ?thesis
    unfolding URLHelper_url_def assms(1) using slash mark toks by (simp add: URLHelper_empty_def)
qed

text \<open>C5: the constructor that splits a URL undoes the printer: for an unambiguous URL (with a port, or
  without any further colon) it finds protocol, host, port and path again and hands the text behind the
  question mark to the parameter reader.\<close>

theorem url_split_print:
  assumes "well_formed_url h" "port h = [] \<longrightarrow> CHR '':'' \<notin> set (path h) \<union> set data"
  shows "URLHelper_url b64dec tbl (url_location h @ ''?'' @ data) encoded =
    processParamDataWithRetry b64dec tbl data encoded (URLHelper_empty\<lparr>protocolName := protocolName h,
      host := host h, port := port h, path := path h\<rparr>)"
proof -
  let ?P = "protocolName h" and ?H = "host h" and ?pre = "protocolName h @ ''://''"
  obtain r where wf: "?P \<noteq> []" "CHR '':'' \<notin> set ?P" "?H \<noteq> []" "CHR '':'' \<notin> set ?H" "CHR ''/'' \<notin> set ?H"
    "path h = CHR ''/'' # r" "CHR ''?'' \<notin> set (path h)"
    using assms(1) by (auto simp: well_formed_url_def)
  show ?thesis
  proof (cases "port h = []")
    case True
    let ?w = "?H @ path h @ CHR ''?'' # data"
    have "CHR '':'' \<notin> set ?w" using True wf assms(2) by auto
    then have "colon_loop (?pre @ ?w) 0 0 [] = (length ?pre, ?P, [], [])"
      using colon_loop_protocol [OF wf(2), of ?w] colon_loop_none [of ?w ?pre] wf(3)
      by (simp del: append_assoc)
    from split_location [OF this wf(5,6,7)] show ?thesis
      using True wf(1) by (simp add: url_location_def)
  next
    case False
    then obtain p where p: "0 \<le> p" "p \<le> int32_max" "port h = to_string p"
      using assms(1) by (auto simp: well_formed_url_def)
    let ?u = "?H @ CHR '':'' # port h"
    have u: "CHR ''/'' \<notin> set ?u"
      using wf(5) set_to_string [of "CHR ''/''" p] p(3) by (auto simp: is_digit_char_def)
    have "colon_loop (?pre @ ?u @ path h @ CHR ''?'' # data) 0 0 [] = (length ?pre, ?P, ?H, port h)"
      using colon_loop_protocol [OF wf(2), of "?u @ path h @ CHR ''?'' # data"]
        colon_loop_port [OF wf(4) p(1,2), of ?pre "r @ CHR ''?'' # data" ?P] wf(6) p(3) by simp
    from split_location [OF this u wf(6,7)] show ?thesis
      using wf(1,3) False by (simp add: url_location_def)
  qed
qed

definition sample_url :: url_helper where
  "sample_url = URLHelper_empty\<lparr>protocolName := ''http'', host := ''a.b'', port := to_string 80, path := ''/c''\<rparr>"

theorem url_split_print_witness:
  "URLHelper_url hex_dec sample_table (url_location sample_url @ ''?'' @ ''x=1:2'') False =
    processParamDataWithRetry hex_dec sample_table ''x=1:2'' False sample_url"
proof -
  have "well_formed_url sample_url"
    by (auto simp: well_formed_url_def sample_url_def URLHelper_empty_def int_limits intro: exI [of _ 80])
  moreover have "port sample_url \<noteq> []" by (simp add: sample_url_def)
  ultimately show ?thesis
    using url_split_print [of sample_url "''x=1:2''" hex_dec sample_table False]
    by (simp add: sample_url_def URLHelper_empty_def)
qed

text \<open>without a port the colon loop runs on into the parameters: an unencoded URL among them makes the
  constructor take everything before its scheme for the protocol and the embedded host for the host.\<close>

theorem embedded_url_confuses_split:
  assumes "CHR '':'' \<notin> set P" "CHR '':'' \<notin> set w" "CHR '':'' \<notin> set H" "H \<noteq> []" "CHR ''/'' \<notin> set H"
  shows "\<exists>h. URLHelper_url b64dec tbl (P @ ''://'' @ w @ ''://'' @ H @ ''/'') encoded = Some (Inr h) \<and>
    protocolName h = P @ ''://'' @ w \<and> host h = H \<and> path h = ''/''"
proof -
  let ?pre = "P @ ''://''" and ?pre2 = "(P @ ''://'' @ w) @ ''://''"
  let ?url = "?pre @ w @ CHR '':'' # ''//'' @ H @ ''/''"
  let ?q = "length ?pre + length w"
  have "str_find ?url '':'' (length ?pre) = Some ?q" using str_find_from(1) [OF assms(2)] .
  moreover have "?q < length ?url - 3" "c_at ?url (?q + 1) = CHR ''/''" "c_at ?url (?q + 2) = CHR ''/''"
    "take ?q ?url = ?pre @ w" "?q + 3 = length ?pre2"
    using assms(4) by (simp_all add: c_at_def nth_append eval_nat_numeral)
  ultimately have "colon_loop ?url (length ?pre) (length ?pre) P = colon_loop ?url (length ?pre2) (length ?pre2) (?pre @ w)"
    by (subst colon_loop.simps) (simp only: option.case, simp)
  moreover have "?url = ?pre2 @ H @ ''/''" by simp
  ultimately have loop: "colon_loop (?pre2 @ H @ ''/'') 0 0 [] = (length ?pre2, ?pre @ w, [], [])"
    using colon_loop_protocol [OF assms(1), of "w @ CHR '':'' # ''//'' @ H @ ''/''"]
      colon_loop_none [of "H @ ''/''" ?pre2 "?pre @ w"] assms(3) by simp
  have "str_find (?pre2 @ H @ ''/'') ''/'' (length ?pre2) = Some (length ?pre2 + length H)"
    using str_find_from(1) [OF assms(5)] .
  moreover have "str_find (?pre2 @ H @ ''/'') ''?'' (length ?pre2 + length H) = None"
    using str_find_from(2) [of "CHR ''?''" "''/''" "?pre2 @ H"] by (simp add: add.assoc)
  ultimately show ?thesis
    using loop token_append [of ?pre2 H "''/''"]
    by (simp add: URLHelper_url_def URLHelper_empty_def eval_nat_numeral)
qed

theorem embedded_url_confuses_split_witness:
  "\<exists>h. URLHelper_url hex_dec sample_table ''http://a/b?u=http://c/'' False = Some (Inr h) \<and>
    protocolName h = ''http://a/b?u=http'' \<and> host h = ''c''"
  using embedded_url_confuses_split [of "''http''" "''a/b?u=http''" "''c''" hex_dec sample_table False] by auto

end
