(* ===== verification/Machine.thy ===== *)
theory Machine
  imports Main
begin

text \<open>
  Transition systems: the states reachable from an initial one, and the contract under which a predicate
  holds in all of them.  The thread pool is interpreted as an instance.
\<close>

inductive reach :: "('s \<Rightarrow> bool) \<Rightarrow> ('s \<Rightarrow> 's \<Rightarrow> bool) \<Rightarrow> 's \<Rightarrow> bool" for start step where
  start: "start s \<Longrightarrow> reach start step s"
| step: "reach start step s \<Longrightarrow> step s s' \<Longrightarrow> reach start step s'"

lemma successively_reach: "successively step (s # ss) \<Longrightarrow> reach start step s \<Longrightarrow> reach start step (last (s # ss))"
proof (induction ss arbitrary: s)
  case (Cons s' ss)
  then have "reach start step s'" by (auto intro: reach.step)
  with Cons show ?case by simp
qed simp

locale machine =
  fixes start :: "'s \<Rightarrow> bool" and step :: "'s \<Rightarrow> 's \<Rightarrow> bool" and inv :: "'s \<Rightarrow> bool"
  assumes start_inv: "start s \<Longrightarrow> inv s"
    and step_inv: "inv s \<Longrightarrow> step s s' \<Longrightarrow> inv s'"
begin

lemma reach_inv: "reach start step s \<Longrightarrow> inv s"
  by (induction rule: reach.induct) (auto intro: start_inv step_inv)

end

text \<open>
  A machine that implements another: every step is, seen through \<open>abs\<close>, a step of the specification
  or invisible.
\<close>

locale implements = machine start step inv
  for start :: "'s \<Rightarrow> bool" and step :: "'s \<Rightarrow> 's \<Rightarrow> bool" and inv :: "'s \<Rightarrow> bool" +
  fixes astart :: "'a \<Rightarrow> bool" and astep :: "'a \<Rightarrow> 'a \<Rightarrow> bool" and abs :: "'s \<Rightarrow> 'a"
  assumes start_sim: "start s \<Longrightarrow> astart (abs s)"
    and step_sim: "inv s \<Longrightarrow> step s s' \<Longrightarrow> abs s' = abs s \<or> astep (abs s) (abs s')"
begin

text \<open>A whole run, seen through \<open>abs\<close> and without the repetitions, is a run of the specification.\<close>

lemma run_abs: "successively step (s # ss) \<Longrightarrow> inv s \<Longrightarrow> successively astep (remdups_adj (map abs (s # ss)))"
proof (induction ss arbitrary: s)
  case (Cons s' ss)
  have "step s s'" "successively step (s' # ss)" using Cons.prems(1) by simp_all
  moreover have "inv s'" using Cons.prems(2) \<open>step s s'\<close> by (rule step_inv)
  ultimately have IH: "successively astep (remdups_adj (map abs (s' # ss)))" using Cons.IH by blast
  have "hd (remdups_adj (map abs (s' # ss))) = abs s'" by (simp only: hd_remdups_adj list.map list.sel)
  with IH step_sim [OF Cons.prems(2) \<open>step s s'\<close>] show ?case by (auto simp: successively_Cons)
qed simp

end

end
