(* ===== verification/Executor.thy ===== *)
theory Executor
  imports Bin_Search Machine "HOL-Library.Multiset"
begin

text \<open>
  Model of core/core_executor.h and core/core_executor.cpp: the thread pool with its bounded queue, mutex
  and two condition variables as a step relation over the program counters of the workers, of the
  clients inside \<open>run\<close> and of the thread inside \<open>stop\<close>; and the table that gives every pool thread a
  sequence number.  A step is what a thread does between two points where another thread can
  interfere; everything a thread does to the queue it does while it holds the mutex.
\<close>

section \<open>The state\<close>

text \<open>
  Worker: at the test of \<open>isRunning\<close>; before \<open>mutex_.lock()\<close> in \<open>take\<close>; at the loop condition; about to
  wait; waiting on \<open>noempty_\<close>; woken and waiting for the mutex; past the loop, before the queue is
  read; running a task; ended.
\<close>

datatype 't wpc = WCheck | WLock | WTest | WBlock | WSleep | WWoken | WPop | WRun 't | WExit

text \<open>Client in \<open>run(t)\<close>: outside; before the lock; at the loop condition; about to wait; waiting on
  \<open>nofull_\<close>; woken; past the loop.\<close>

datatype 't ppc = PIdle | PLock 't | PTest 't | PBlock 't | PSleep 't | PWoken 't | PPush 't

datatype spc = SRun | SBroadcast | SJoin | SDone

datatype owner = Worker nat | Client nat

text \<open>\<open>pushed\<close>, \<open>taken\<close> and \<open>thrown\<close> record history: tasks put into and taken out of the queue, and whether
  a task has ended its thread by an exception.\<close>

record 't pool =
  queue :: "'t list"
  maxQueueSize :: nat
  running :: bool
  mutex :: "owner option"
  threadSize :: nat
  workers :: "nat \<Rightarrow> 't wpc"
  clients :: "nat \<Rightarrow> 't ppc"
  stopper :: spc
  pushed :: "'t list"
  taken :: "'t list"
  thrown :: bool

definition pool_start :: "nat \<Rightarrow> nat \<Rightarrow> 't pool" where
  "pool_start n qs =
     \<lparr>queue = [], maxQueueSize = qs, running = True, mutex = None, threadSize = n,
      workers = (\<lambda>_. WCheck), clients = (\<lambda>_. PIdle), stopper = SRun, pushed = [], taken = [],
      thrown = False\<rparr>"

definition set_worker :: "nat \<Rightarrow> 't wpc \<Rightarrow> 't pool \<Rightarrow> 't pool" where
  "set_worker w pc s = s\<lparr>workers := (workers s)(w := pc)\<rparr>"

definition set_client :: "nat \<Rightarrow> 't ppc \<Rightarrow> 't pool \<Rightarrow> 't pool" where
  "set_client p pc s = s\<lparr>clients := (clients s)(p := pc)\<rparr>"

text \<open>\<open>while (queue_.empty() && running_)\<close> and \<open>while (maxQueueSize_ > 0 && queue_.size() >= maxQueueSize_)\<close>.\<close>

definition must_wait :: "'t pool \<Rightarrow> bool" where
  "must_wait s \<longleftrightarrow> queue s = [] \<and> running s"

definition is_full :: "'t pool \<Rightarrow> bool" where
  "is_full s \<longleftrightarrow> maxQueueSize s > 0 \<and> length (queue s) \<ge> maxQueueSize s"

text \<open>A signal wakes one thread that waits on the condition, if there is one.\<close>

definition signal_noempty :: "'t pool \<Rightarrow> 't pool \<Rightarrow> bool" where
  "signal_noempty s s' \<longleftrightarrow>
     (if \<exists>w<threadSize s. workers s w = WSleep
      then \<exists>w<threadSize s. workers s w = WSleep \<and> s' = set_worker w WWoken s
      else s' = s)"

definition signal_nofull :: "'t pool \<Rightarrow> 't pool \<Rightarrow> bool" where
  "signal_nofull s s' \<longleftrightarrow>
     (if \<exists>p t. clients s p = PSleep t
      then \<exists>p t. clients s p = PSleep t \<and> s' = set_client p (PWoken t) s
      else s' = s)"

definition broadcast_noempty :: "'t pool \<Rightarrow> 't pool" where
  "broadcast_noempty s = s\<lparr>workers := (\<lambda>w. if workers s w = WSleep then WWoken else workers s w)\<rparr>"

section \<open>The steps\<close>

inductive pool_step :: "'t pool \<Rightarrow> 't pool \<Rightarrow> bool" where
  check: "w < threadSize s \<Longrightarrow> workers s w = WCheck \<Longrightarrow>
    pool_step s (set_worker w (if running s then WLock else WExit) s)"
| take_lock: "w < threadSize s \<Longrightarrow> workers s w = WLock \<Longrightarrow> mutex s = None \<Longrightarrow>
    pool_step s (set_worker w WTest (s\<lparr>mutex := Some (Worker w)\<rparr>))"
| take_test: "w < threadSize s \<Longrightarrow> workers s w = WTest \<Longrightarrow>
    pool_step s (set_worker w (if must_wait s then WBlock else WPop) s)"
| take_wait: "w < threadSize s \<Longrightarrow> workers s w = WBlock \<Longrightarrow>
    pool_step s (set_worker w WSleep (s\<lparr>mutex := None\<rparr>))"
| take_relock: "w < threadSize s \<Longrightarrow> workers s w = WWoken \<Longrightarrow> mutex s = None \<Longrightarrow>
    pool_step s (set_worker w WTest (s\<lparr>mutex := Some (Worker w)\<rparr>))"
| take_pop: "w < threadSize s \<Longrightarrow> workers s w = WPop \<Longrightarrow> queue s = t # q \<Longrightarrow>
    (if maxQueueSize s > 0 then signal_nofull (s\<lparr>queue := q, taken := taken s @ [t], mutex := None\<rparr>) s1
     else s1 = s\<lparr>queue := q, taken := taken s @ [t], mutex := None\<rparr>) \<Longrightarrow>
    pool_step s (set_worker w (WRun t) s1)"
| take_none: "w < threadSize s \<Longrightarrow> workers s w = WPop \<Longrightarrow> queue s = [] \<Longrightarrow>
    pool_step s (set_worker w WCheck (s\<lparr>mutex := None\<rparr>))"
| task_returns: "w < threadSize s \<Longrightarrow> workers s w = WRun t \<Longrightarrow> pool_step s (set_worker w WCheck s)"
| task_throws: "w < threadSize s \<Longrightarrow> workers s w = WRun t \<Longrightarrow>
    pool_step s (set_worker w WExit (s\<lparr>thrown := True\<rparr>))"
| run_call: "clients s p = PIdle \<Longrightarrow> pool_step s (set_client p (PLock t) s)"
| run_lock: "clients s p = PLock t \<Longrightarrow> mutex s = None \<Longrightarrow>
    pool_step s (set_client p (PTest t) (s\<lparr>mutex := Some (Client p)\<rparr>))"
| run_test: "clients s p = PTest t \<Longrightarrow>
    pool_step s (set_client p (if is_full s then PBlock t else PPush t) s)"
| run_wait: "clients s p = PBlock t \<Longrightarrow> pool_step s (set_client p (PSleep t) (s\<lparr>mutex := None\<rparr>))"
| run_relock: "clients s p = PWoken t \<Longrightarrow> mutex s = None \<Longrightarrow>
    pool_step s (set_client p (PTest t) (s\<lparr>mutex := Some (Client p)\<rparr>))"
| run_push: "clients s p = PPush t \<Longrightarrow>
    signal_noempty (s\<lparr>queue := queue s @ [t], pushed := pushed s @ [t], mutex := None\<rparr>) s1 \<Longrightarrow>
    pool_step s (set_client p PIdle s1)"
| stop_flag: "stopper s = SRun \<Longrightarrow> pool_step s (s\<lparr>running := False, stopper := SBroadcast\<rparr>)"
| stop_broadcast: "stopper s = SBroadcast \<Longrightarrow> pool_step s ((broadcast_noempty s)\<lparr>stopper := SJoin\<rparr>)"
| stop_join: "stopper s = SJoin \<Longrightarrow> \<forall>w<threadSize s. workers s w = WExit \<Longrightarrow>
    pool_step s (s\<lparr>stopper := SDone\<rparr>)"

text \<open>A wait may also return without a signal.\<close>

inductive spurious_wakeup :: "'t pool \<Rightarrow> 't pool \<Rightarrow> bool" where
  worker: "w < threadSize s \<Longrightarrow> workers s w = WSleep \<Longrightarrow> spurious_wakeup s (set_worker w WWoken s)"
| client: "clients s p = PSleep t \<Longrightarrow> spurious_wakeup s (set_client p (PWoken t) s)"

definition any_step :: "'t pool \<Rightarrow> 't pool \<Rightarrow> bool" where
  "any_step s s' \<longleftrightarrow> pool_step s s' \<or> spurious_wakeup s s'"

definition pendingTasks :: "'t pool \<Rightarrow> nat" where
  "pendingTasks s = length (queue s)"

section \<open>The executor\<close>

record executor =
  coreNum :: int
  threadNum :: int
  pureCompute :: bool
  queueSize :: int

definition Executor_new :: "bool \<Rightarrow> int \<Rightarrow> int \<Rightarrow> executor" where
  "Executor_new forCompute threads taskQueueSize =
     \<lparr>coreNum = 1, threadNum = (if threads = 0 then 1 else threads), pureCompute = forCompute,
      queueSize = (if taskQueueSize = 0 then 5000 else taskQueueSize)\<rparr>"

text \<open>\<open>nprocessors\<close> is the answer of \<open>sysconf\<close>.\<close>

definition configureForCompute :: "int \<Rightarrow> executor \<Rightarrow> executor" where
  "configureForCompute nprocessors e = e\<lparr>coreNum := if nprocessors \<le> 0 then 1 else nprocessors\<rparr>"

definition Executor_start :: "int \<Rightarrow> executor \<Rightarrow> executor \<times> 't pool" where
  "Executor_start nprocessors e =
     (let e = (if pureCompute e then configureForCompute nprocessors e else e)
      in (e, pool_start (nat (threadNum e)) (nat (queueSize e))))"

section \<open>Thread sequence numbers\<close>

text \<open>
  \<open>RunInCore\<close> run by the threads one after another: each enters its handle into the table of 128
  entries, the last one sorts it.
\<close>

record core_table =
  runCore :: nat
  threadMappingTable :: "int list"

definition RunInCore :: "nat \<Rightarrow> int \<Rightarrow> core_table \<Rightarrow> core_table result" where
  "RunInCore totalThread me c =
     (if length (threadMappingTable c) \<le> runCore c then Inl MemoryFault
      else let tbl = (threadMappingTable c)[runCore c := me]; rc = runCore c + 1
           in Inr \<lparr>runCore = rc, threadMappingTable =
                (if rc = totalThread then sort (take totalThread tbl) @ drop totalThread tbl else tbl)\<rparr>)"

fun run_initializers :: "nat \<Rightarrow> int list \<Rightarrow> core_table \<Rightarrow> core_table result" where
  "run_initializers totalThread [] c = Inr c"
| "run_initializers totalThread (me # ms) c =
     bind_result (RunInCore totalThread me c) (run_initializers totalThread ms)"

text \<open>\<open>getThreadSeqId\<close>; the assertion is the error branch.\<close>

definition getThreadSeqId :: "int list \<Rightarrow> int \<Rightarrow> int \<Rightarrow> int result" where
  "getThreadSeqId table threads key =
     (let l = fst (bs_loop (\<lambda>mid. key \<le> table ! nat mid) 0 (threads - 1))
      in if 0 \<le> l \<and> l < threads \<and> table ! nat l = key then Inr l else Inl (MtError ''assert''))"

section \<open>Invariants\<close>

lemmas pool_defs = set_worker_def set_client_def must_wait_def is_full_def broadcast_noempty_def

definition w_holds :: "'t wpc \<Rightarrow> bool" where
  "w_holds pc \<longleftrightarrow> pc \<in> {WTest, WBlock, WPop}"

definition c_holds :: "'t ppc \<Rightarrow> bool" where
  "c_holds pc \<longleftrightarrow> (\<exists>t. pc \<in> {PTest t, PBlock t, PPush t})"

definition holds :: "'t pool \<Rightarrow> owner \<Rightarrow> bool" where
  "holds s ow = (case ow of Worker w \<Rightarrow> w_holds (workers s w) | Client p \<Rightarrow> c_holds (clients s p))"

text \<open>Exactly the thread recorded in \<open>mutex\<close> is between lock and unlock.\<close>

definition mutex_inv :: "'t pool \<Rightarrow> bool" where
  "mutex_inv s \<longleftrightarrow> holds s = (\<lambda>ow. mutex s = Some ow)"

lemma holds_simps [simp]:
  "\<not> w_holds WCheck" "\<not> w_holds WLock" "w_holds WTest" "w_holds WBlock" "\<not> w_holds WSleep" "\<not> w_holds WWoken"
  "w_holds WPop" "\<not> w_holds (WRun t)" "\<not> w_holds WExit"
  "\<not> c_holds PIdle" "\<not> c_holds (PLock t)" "c_holds (PTest t)" "c_holds (PBlock t)" "\<not> c_holds (PSleep t)"
  "\<not> c_holds (PWoken t)" "c_holds (PPush t)"
  by (simp_all add: w_holds_def c_holds_def)

lemma signal_noempty_cases:
  assumes "signal_noempty s s'"
  obtains "s' = s" "\<forall>w<threadSize s. workers s w \<noteq> WSleep"
  | w where "w < threadSize s" "workers s w = WSleep" "s' = set_worker w WWoken s"
  using assms by (auto simp: signal_noempty_def split: if_splits)

lemma signal_nofull_cases:
  assumes "signal_nofull s s'"
  obtains "s' = s" | p t where "clients s p = PSleep t" "s' = set_client p (PWoken t) s"
  using assms by (auto simp: signal_nofull_def split: if_splits)

lemma set_worker_client: "set_worker w a (set_client p b s) = set_client p b (set_worker w a s)"
  by (simp add: set_worker_def set_client_def)

lemma set_fields [simp]:
  "clients (set_worker w a s) = clients s" "workers (set_client p b s) = workers s"
  "queue (set_worker w a s) = queue s" "queue (set_client p b s) = queue s"
  "workers (set_worker w a s) = (workers s)(w := a)" "clients (set_client p b s) = (clients s)(p := b)"
  "running (set_worker w a s) = running s" "running (set_client p b s) = running s"
  "threadSize (set_worker w a s) = threadSize s" "threadSize (set_client p b s) = threadSize s"
  "maxQueueSize (set_worker w a s) = maxQueueSize s" "maxQueueSize (set_client p b s) = maxQueueSize s"
  "taken (set_worker w a s) = taken s" "taken (set_client p b s) = taken s"
  "pushed (set_worker w a s) = pushed s" "pushed (set_client p b s) = pushed s"
  "thrown (set_worker w a s) = thrown s" "thrown (set_client p b s) = thrown s"
  "stopper (set_worker w a s) = stopper s" "stopper (set_client p b s) = stopper s"
  "mutex (set_worker w a s) = mutex s" "mutex (set_client p b s) = mutex s"
  by (simp_all add: set_worker_def set_client_def)

lemma mutex_inv_holder:
  "mutex_inv s \<Longrightarrow> w_holds (workers s w) \<longleftrightarrow> mutex s = Some (Worker w)"
  "mutex_inv s \<Longrightarrow> c_holds (clients s p) \<longleftrightarrow> mutex s = Some (Client p)"
  by (simp_all add: mutex_inv_def fun_eq_iff holds_def split: owner.splits)

lemma holds_upd:
  "holds (set_worker w pc s) = (holds s)(Worker w := w_holds pc)"
  "holds (set_client p qc s) = (holds s)(Client p := c_holds qc)"
  "holds (broadcast_noempty s) = holds s"
  "holds (s\<lparr>mutex := m\<rparr>) = holds s"
  by (auto simp: fun_eq_iff holds_def set_worker_def set_client_def broadcast_noempty_def split: owner.splits)

lemma mutex_inv_fields [simp]:
  "mutex_inv (s\<lparr>thrown := b\<rparr>) = mutex_inv s" "mutex_inv (s\<lparr>running := b\<rparr>) = mutex_inv s"
  "mutex_inv (s\<lparr>stopper := c\<rparr>) = mutex_inv s" "mutex_inv (s\<lparr>queue := q\<rparr>) = mutex_inv s"
  "mutex_inv (s\<lparr>pushed := q\<rparr>) = mutex_inv s" "mutex_inv (s\<lparr>taken := q\<rparr>) = mutex_inv s"
  by (simp_all add: mutex_inv_def holds_def [abs_def])

text \<open>A thread moves without touching the mutex, acquires it, or releases it.\<close>

lemma mutex_inv_worker:
  assumes "mutex_inv s"
  shows "w_holds (workers s w) = w_holds pc \<Longrightarrow> mutex_inv (set_worker w pc s)"
    and "mutex s = None \<Longrightarrow> w_holds pc \<Longrightarrow> mutex_inv (set_worker w pc (s\<lparr>mutex := Some (Worker w)\<rparr>))"
    and "w_holds (workers s w) \<Longrightarrow> \<not> w_holds pc \<Longrightarrow> mutex_inv (set_worker w pc (s\<lparr>mutex := None\<rparr>))"
proof -
  note hs = assms [unfolded mutex_inv_def]
  note at = mutex_inv_holder(1) [OF assms, of w]
  show "w_holds (workers s w) = w_holds pc \<Longrightarrow> mutex_inv (set_worker w pc s)"
    using at by (simp add: mutex_inv_def holds_upd hs fun_upd_idem_iff)
  show "mutex s = None \<Longrightarrow> w_holds pc \<Longrightarrow> mutex_inv (set_worker w pc (s\<lparr>mutex := Some (Worker w)\<rparr>))"
    by (auto simp: mutex_inv_def holds_upd hs fun_eq_iff)
  show "w_holds (workers s w) \<Longrightarrow> \<not> w_holds pc \<Longrightarrow> mutex_inv (set_worker w pc (s\<lparr>mutex := None\<rparr>))"
    using at by (simp add: mutex_inv_def holds_upd hs fun_eq_iff)
qed

lemma mutex_inv_client:
  assumes "mutex_inv s"
  shows "c_holds (clients s p) = c_holds pc \<Longrightarrow> mutex_inv (set_client p pc s)"
    and "mutex s = None \<Longrightarrow> c_holds pc \<Longrightarrow> mutex_inv (set_client p pc (s\<lparr>mutex := Some (Client p)\<rparr>))"
    and "c_holds (clients s p) \<Longrightarrow> \<not> c_holds pc \<Longrightarrow> mutex_inv (set_client p pc (s\<lparr>mutex := None\<rparr>))"
proof -
  note hs = assms [unfolded mutex_inv_def]
  note at = mutex_inv_holder(2) [OF assms, of p]
  show "c_holds (clients s p) = c_holds pc \<Longrightarrow> mutex_inv (set_client p pc s)"
    using at by (simp add: mutex_inv_def holds_upd hs fun_upd_idem_iff)
  show "mutex s = None \<Longrightarrow> c_holds pc \<Longrightarrow> mutex_inv (set_client p pc (s\<lparr>mutex := Some (Client p)\<rparr>))"
    by (auto simp: mutex_inv_def holds_upd hs fun_eq_iff)
  show "c_holds (clients s p) \<Longrightarrow> \<not> c_holds pc \<Longrightarrow> mutex_inv (set_client p pc (s\<lparr>mutex := None\<rparr>))"
    using at by (simp add: mutex_inv_def holds_upd hs fun_eq_iff)
qed

lemmas mutex_inv_rules = mutex_inv_worker mutex_inv_client

lemma mutex_inv_broadcast: "mutex_inv s \<Longrightarrow> mutex_inv (broadcast_noempty s)"
  by (simp add: mutex_inv_def holds_upd) (simp add: broadcast_noempty_def)

lemma mutex_inv_step:
  assumes "mutex_inv s" "pool_step s s'"
  shows "mutex_inv s'"
  using assms(2)
proof cases
  case (take_pop w t q s1)
  let ?r = "s\<lparr>queue := q, taken := taken s @ [t], mutex := None\<rparr>"
  have r: "mutex_inv (set_worker w (WRun t) ?r)"
    using mutex_inv_worker(3) [of "s\<lparr>queue := q, taken := taken s @ [t]\<rparr>" w "WRun t"] assms(1) take_pop by simp
  show ?thesis
  proof (cases "s1 = ?r")
    case False
    then obtain p t' where p: "clients ?r p = PSleep t'" "s1 = set_client p (PWoken t') ?r"
      using take_pop by (auto elim: signal_nofull_cases split: if_splits)
    then show ?thesis
      using mutex_inv_client(1) [OF r, of p "PWoken t'"] take_pop by (simp add: set_worker_client)
  qed (use r take_pop in simp)
next
  case (run_push p t s1)
  let ?r = "s\<lparr>queue := queue s @ [t], pushed := pushed s @ [t], mutex := None\<rparr>"
  have r: "mutex_inv (set_client p PIdle ?r)"
    using mutex_inv_client(3) [of "s\<lparr>queue := queue s @ [t], pushed := pushed s @ [t]\<rparr>" p PIdle] assms(1) run_push by simp
  from run_push(3) show ?thesis
  proof (cases rule: signal_noempty_cases)
    case 1
    with r run_push show ?thesis by simp
  next
    case (2 w)
    with run_push show ?thesis
      using mutex_inv_worker(1) [OF r, of w WWoken] by (simp flip: set_worker_client)
  qed
next
  case (take_lock w)
  then show ?thesis using mutex_inv_worker(2) [OF assms(1)] by simp
next
  case (take_relock w)
  then show ?thesis using mutex_inv_worker(2) [OF assms(1)] by simp
next
  case (take_wait w)
  then show ?thesis using mutex_inv_worker(3) [OF assms(1)] by simp
next
  case (take_none w)
  then show ?thesis using mutex_inv_worker(3) [OF assms(1)] by simp
next
  case (run_lock p t)
  then show ?thesis using mutex_inv_client(2) [OF assms(1)] by simp
next
  case (run_relock p t)
  then show ?thesis using mutex_inv_client(2) [OF assms(1)] by simp
next
  case (run_wait p t)
  then show ?thesis using mutex_inv_client(3) [OF assms(1)] by simp
next
  case (stop_broadcast)
  then show ?thesis using mutex_inv_broadcast [OF assms(1)] by simp
qed (use assms(1) in \<open>simp_all add: mutex_inv_worker(1) mutex_inv_client(1)\<close>)

section \<open>The queue\<close>

text \<open>First in, first out, never above the bound; a thread past its loop has what it waited for.\<close>

definition queue_inv :: "'t pool \<Rightarrow> bool" where
  "queue_inv s \<longleftrightarrow> taken s @ queue s = pushed s \<and> (0 < maxQueueSize s \<longrightarrow> length (queue s) \<le> maxQueueSize s) \<and>
     (\<forall>p t. clients s p = PPush t \<longrightarrow> \<not> is_full s) \<and> (\<forall>w. workers s w = WBlock \<longrightarrow> queue s = []) \<and>
     (\<forall>w. workers s w = WPop \<longrightarrow> running s \<longrightarrow> queue s \<noteq> []) \<and> (\<forall>p t. clients s p = PBlock t \<longrightarrow> is_full s)"

text \<open>While one thread is inside, no other is.\<close>

lemma mutex_inv_only:
  "mutex_inv s \<Longrightarrow> w_holds (workers s w) \<Longrightarrow> w_holds (workers s w') \<Longrightarrow> w' = w"
  "mutex_inv s \<Longrightarrow> w_holds (workers s w) \<Longrightarrow> \<not> c_holds (clients s p)"
  "mutex_inv s \<Longrightarrow> c_holds (clients s p) \<Longrightarrow> c_holds (clients s p') \<Longrightarrow> p' = p"
  "mutex_inv s \<Longrightarrow> c_holds (clients s p) \<Longrightarrow> \<not> w_holds (workers s w)"
  by (simp_all add: mutex_inv_holder)

lemma full_fields [simp]:
  "is_full (set_worker w a s) = is_full s" "is_full (set_client p b s) = is_full s"
  "is_full (s\<lparr>mutex := m\<rparr>) = is_full s" "is_full (s\<lparr>thrown := x\<rparr>) = is_full s"
  "is_full (s\<lparr>running := x\<rparr>) = is_full s" "is_full (s\<lparr>stopper := y\<rparr>) = is_full s"
  "is_full (broadcast_noempty s) = is_full s" "is_full (s\<lparr>pushed := q\<rparr>) = is_full s"
  "is_full (s\<lparr>taken := q\<rparr>) = is_full s"
  by (simp_all add: is_full_def broadcast_noempty_def)

lemma signal_wakes:
  assumes "signal_noempty s s'"
  shows "queue s' = queue s \<and> taken s' = taken s \<and> pushed s' = pushed s \<and> maxQueueSize s' = maxQueueSize s \<and>
    running s' = running s \<and> clients s' = clients s \<and> threadSize s' = threadSize s \<and> mutex s' = mutex s \<and>
    (\<forall>w. w_holds (workers s' w) \<longrightarrow> workers s' w = workers s w)"
  using assms by (cases rule: signal_noempty_cases) auto

lemma signal_nofull_wakes:
  assumes "signal_nofull s s'"
  shows "queue s' = queue s \<and> taken s' = taken s \<and> pushed s' = pushed s \<and> maxQueueSize s' = maxQueueSize s \<and>
    running s' = running s \<and> workers s' = workers s \<and> threadSize s' = threadSize s \<and> mutex s' = mutex s \<and>
    (\<forall>p. c_holds (clients s' p) \<longrightarrow> clients s' p = clients s p)"
  using assms by (cases rule: signal_nofull_cases) auto

lemma queue_inv_dest:
  "queue_inv s \<Longrightarrow> workers s w = WBlock \<Longrightarrow> queue s = []"
  "queue_inv s \<Longrightarrow> workers s w = WPop \<Longrightarrow> running s \<Longrightarrow> queue s \<noteq> []"
  "queue_inv s \<Longrightarrow> clients s p = PPush t \<Longrightarrow> \<not> is_full s"
  "queue_inv s \<Longrightarrow> clients s p = PBlock t \<Longrightarrow> is_full s"
  unfolding queue_inv_def by blast+

lemma queue_inv_stay:
  assumes "queue_inv s" "queue s' = queue s" "taken s' = taken s" "pushed s' = pushed s" "maxQueueSize s' = maxQueueSize s"
    "running s' \<longrightarrow> running s"
    "\<And>w. w_holds (workers s' w) \<Longrightarrow> workers s' w = workers s w \<or> workers s' w = WTest \<or>
      workers s' w = (if must_wait s then WBlock else WPop)"
    "\<And>p. c_holds (clients s' p) \<Longrightarrow> clients s' p = clients s p \<or> (\<exists>t. clients s' p = PTest t \<or>
      clients s' p = (if is_full s then PBlock t else PPush t))"
  shows "queue_inv s'"
proof -
  have full: "is_full s' = is_full s" using assms(2,5) by (simp add: is_full_def)
  have "queue s = []" if "workers s' w = WBlock" for w
    using queue_inv_dest(1) [OF assms(1), of w] assms(7) [of w] that by (simp add: must_wait_def split: if_splits)
  moreover have "running s' \<Longrightarrow> queue s \<noteq> []" if "workers s' w = WPop" for w
    using queue_inv_dest(2) [OF assms(1), of w] assms(6) assms(7) [of w] that by (simp add: must_wait_def split: if_splits)
  moreover have "\<not> is_full s" if "clients s' p = PPush t" for p t
    using queue_inv_dest(3) [OF assms(1), of p t] assms(8) [of p] that by (auto split: if_splits)
  moreover have "is_full s" if "clients s' p = PBlock t" for p t
    using queue_inv_dest(4) [OF assms(1), of p t] assms(8) [of p] that by (auto split: if_splits)
  ultimately show ?thesis using assms(1-5) full by (simp add: queue_inv_def)
qed

lemma queue_inv_step:
  assumes m: "mutex_inv s" and q: "queue_inv s" and step: "pool_step s s'"
  shows "queue_inv s'"
  using step
proof cases
  case (take_pop w t q' s1)
  let ?r = "s\<lparr>queue := q', taken := taken s @ [t], mutex := None\<rparr>"
  have s1: "queue s1 = q'" "taken s1 = taken s @ [t]" "pushed s1 = pushed s" "maxQueueSize s1 = maxQueueSize s"
    "workers s1 = workers s" "\<And>p. c_holds (clients s1 p) \<Longrightarrow> clients s1 p = clients s p"
    using take_pop(5) signal_nofull_wakes [of ?r s1] by (auto split: if_splits)
  have "w_holds (workers s w)" using take_pop by simp
  then have "\<not> c_holds (clients s p)" "w_holds (workers s w') \<Longrightarrow> w' = w" for p w'
    using mutex_inv_only [OF m] by blast+
  then have "\<not> c_holds (clients s1 p)" "w_holds (((workers s)(w := WRun t)) w') \<Longrightarrow> False" for p w'
    using s1(6) [of p] by (auto split: if_splits)
  then have "clients s1 p \<noteq> PPush t'" "clients s1 p \<noteq> PBlock t'" "((workers s)(w := WRun t)) w' \<noteq> WBlock"
    "((workers s)(w := WRun t)) w' \<noteq> WPop" for p w' t'
    by (metis holds_simps)+
  with s1 q take_pop show ?thesis by (auto simp: queue_inv_def)
next
  case (run_push p t s1)
  let ?r = "s\<lparr>queue := queue s @ [t], pushed := pushed s @ [t], mutex := None\<rparr>"
  note s1 = signal_wakes [OF run_push(3)]
  have "c_holds (clients s p)" using run_push by simp
  then have "\<not> w_holds (workers s w)" "c_holds (clients s p') \<Longrightarrow> p' = p" for p' w
    using mutex_inv_only [OF m] by blast+
  then have "\<not> w_holds (workers s1 w)" "c_holds (((clients s)(p := PIdle)) p') \<Longrightarrow> False" for p' w
    using s1 by (auto split: if_splits)
  then have "((clients s)(p := PIdle)) p' \<noteq> PPush t'" "((clients s)(p := PIdle)) p' \<noteq> PBlock t'"
    "workers s1 w \<noteq> WBlock" "workers s1 w \<noteq> WPop" for p' w t'
    by (metis holds_simps)+
  moreover have "\<not> is_full s" using queue_inv_dest(3) [OF q] run_push by blast
  ultimately show ?thesis using s1 q run_push by (auto simp: queue_inv_def is_full_def)
qed (rule queue_inv_stay [OF q]; auto simp: broadcast_noempty_def split: if_splits)+

section \<open>Wakeups\<close>

text \<open>Workers on their way to the queue: neither asleep, nor busy, nor ended.\<close>

definition searching :: "'t wpc \<Rightarrow> bool" where
  "searching pc \<longleftrightarrow> pc \<in> {WCheck, WLock, WTest, WWoken, WPop}"

definition active :: "'t pool \<Rightarrow> nat set" where
  "active s = {w. w < threadSize s \<and> searching (workers s w)}"

definition sleeper :: "'t pool \<Rightarrow> bool" where
  "sleeper s \<longleftrightarrow> (\<exists>w<threadSize s. workers s w = WSleep)"

text \<open>While a worker sleeps, every queued task has a worker on its way to it.\<close>

definition wake_inv :: "'t pool \<Rightarrow> bool" where
  "wake_inv s \<longleftrightarrow> (running s \<longrightarrow> sleeper s \<longrightarrow> length (queue s) \<le> card (active s))"

lemma searching_simps [simp]:
  "searching WCheck" "searching WLock" "searching WTest" "\<not> searching WBlock" "\<not> searching WSleep"
  "searching WWoken" "searching WPop" "\<not> searching (WRun t)" "\<not> searching WExit"
  by (simp_all add: searching_def)

lemma finite_active [simp]: "finite (active s)"
  by (simp add: active_def)

lemma wake_inv_empty: "queue s = [] \<Longrightarrow> wake_inv s"
  by (simp add: wake_inv_def)

lemma wake_inv_mono:
  assumes "wake_inv s" "queue s' = queue s" "threadSize s' = threadSize s" "running s' \<longrightarrow> running s"
    "\<And>w. running s' \<Longrightarrow> searching (workers s w) \<Longrightarrow> searching (workers s' w)"
    "\<And>w. workers s' w = WSleep \<Longrightarrow> workers s w = WSleep"
  shows "wake_inv s'"
proof -
  have "running s' \<Longrightarrow> card (active s) \<le> card (active s')"
    by (rule card_mono) (use assms(3,5) in \<open>auto simp: active_def\<close>)
  moreover have "sleeper s' \<Longrightarrow> sleeper s" using assms(3,6) by (auto simp: sleeper_def)
  ultimately show ?thesis using assms(1,2,4) by (auto simp: wake_inv_def)
qed

lemma wake_inv_step:
  assumes q: "queue_inv s" and k: "wake_inv s" and step: "pool_step s s'"
  shows "wake_inv s'"
  using step
proof cases
  case (take_pop w t q' s1)
  let ?r = "s\<lparr>queue := q', taken := taken s @ [t], mutex := None\<rparr>"
  have s1: "queue s1 = q'" "threadSize s1 = threadSize s" "workers s1 = workers s" "running s1 = running s"
    using take_pop(5) signal_nofull_wakes [of ?r s1] by (auto split: if_splits)
  have "w \<in> active s" "active s' = active s - {w}" using s1 take_pop by (auto simp: active_def)
  then have "card (active s') = card (active s) - 1" by simp
  moreover have "sleeper s' \<Longrightarrow> sleeper s" using s1 take_pop(1) by (auto simp: sleeper_def split: if_splits)
  moreover have "length (queue s) = Suc (length (queue s'))" "running s' = running s" using s1 take_pop by simp_all
  ultimately show ?thesis using k unfolding wake_inv_def by (metis diff_Suc_1 diff_le_mono)
next
  case (run_push p t s1)
  let ?r = "s\<lparr>queue := queue s @ [t], pushed := pushed s @ [t], mutex := None\<rparr>"
  from run_push(3) show ?thesis
  proof (cases rule: signal_noempty_cases)
    case 1
    then have "\<not> sleeper s'" using run_push(1) by (simp add: sleeper_def)
    then show ?thesis unfolding wake_inv_def by blast
  next
    case (2 w)
    then have "active s' = insert w (active s)" "w \<notin> active s"
      using run_push(1) by (auto simp: active_def)
    moreover have "running s' = running s" "queue s' = queue s @ [t]" using 2 run_push(1) by simp_all
    moreover have "sleeper s" using 2 by (auto simp: sleeper_def)
    ultimately show ?thesis using k unfolding wake_inv_def by simp
  qed
next
  case (take_wait w)
  then show ?thesis using queue_inv_dest(1) [OF q, of w] by (simp add: wake_inv_empty)
next
  case (take_test w)
  show ?thesis
  proof (cases "must_wait s")
    case True
    with take_test show ?thesis by (intro wake_inv_empty) (simp add: must_wait_def)
  next
    case False
    with take_test show ?thesis by - (rule wake_inv_mono [OF k]; auto split: if_splits)
  qed
qed (rule wake_inv_mono [OF k]; auto simp: broadcast_noempty_def split: if_splits)+

section \<open>Every reachable state\<close>

definition pool_inv :: "nat \<Rightarrow> nat \<Rightarrow> 't pool \<Rightarrow> bool" where
  "pool_inv n qs s \<longleftrightarrow> threadSize s = n \<and> maxQueueSize s = qs \<and> mutex_inv s \<and> queue_inv s \<and> wake_inv s"

lemma pool_inv_start: "pool_inv n qs (pool_start n qs)"
  by (simp add: pool_inv_def pool_start_def mutex_inv_def queue_inv_def wake_inv_def holds_def fun_eq_iff split: owner.splits)

lemma pool_step_sizes:
  assumes "pool_step s s'"
  shows "threadSize s' = threadSize s \<and> maxQueueSize s' = maxQueueSize s"
  using assms by cases (auto dest!: signal_wakes signal_nofull_wakes simp: broadcast_noempty_def split: if_splits)

lemma pool_inv_spurious:
  assumes "pool_inv n qs s" "spurious_wakeup s s'"
  shows "pool_inv n qs s'"
proof -
  have inv: "mutex_inv s" "queue_inv s" "wake_inv s" using assms(1) by (simp_all add: pool_inv_def)
  from assms(2) have "mutex_inv s'"
    by cases (simp_all add: inv mutex_inv_worker(1) mutex_inv_client(1))
  moreover from assms(2) have "queue_inv s'"
    by cases (rule queue_inv_stay [OF inv(2)]; auto split: if_splits)+
  moreover from assms(2) have "wake_inv s'"
    by cases (rule wake_inv_mono [OF inv(3)]; auto split: if_splits)+
  moreover from assms have "threadSize s' = n" "maxQueueSize s' = qs"
    by (auto simp: pool_inv_def elim: spurious_wakeup.cases)
  ultimately show ?thesis by (simp add: pool_inv_def)
qed

lemma pool_inv_step: "pool_inv n qs s \<Longrightarrow> any_step s s' \<Longrightarrow> pool_inv n qs s'"
  using pool_inv_spurious [of n qs s s'] mutex_inv_step [of s s'] queue_inv_step [of s s'] wake_inv_step [of s s']
    pool_step_sizes [of s s'] by (auto simp: any_step_def pool_inv_def)

section \<open>The bounded buffer it implements\<close>

text \<open>What a client relies on: a buffer of at most \<open>cap\<close> entries (0: unbounded), read in order of entry.\<close>

record 't buffer =
  content :: "'t list"
  entered :: "'t list"
  left :: "'t list"

definition buffer_start :: "'t buffer" where
  "buffer_start = \<lparr>content = [], entered = [], left = []\<rparr>"

inductive buffer_step :: "nat \<Rightarrow> 't buffer \<Rightarrow> 't buffer \<Rightarrow> bool" for cap where
  put: "cap = 0 \<or> length (content b) < cap \<Longrightarrow>
    buffer_step cap b (b\<lparr>content := content b @ [t], entered := entered b @ [t]\<rparr>)"
| get: "content b = t # q \<Longrightarrow> buffer_step cap b (b\<lparr>content := q, left := left b @ [t]\<rparr>)"

definition buffer_of :: "'t pool \<Rightarrow> 't buffer" where
  "buffer_of s = \<lparr>content = queue s, entered = pushed s, left = taken s\<rparr>"

lemma buffer_of_stay:
  "queue s' = queue s \<Longrightarrow> pushed s' = pushed s \<Longrightarrow> taken s' = taken s \<Longrightarrow> buffer_of s' = buffer_of s"
  by (simp add: buffer_of_def)

lemma buffer_sim:
  assumes "pool_inv n qs s" "pool_step s s'"
  shows "buffer_of s' = buffer_of s \<or> buffer_step qs (buffer_of s) (buffer_of s')"
  using assms(2)
proof cases
  case (take_pop w t q s1)
  let ?r = "s\<lparr>queue := q, taken := taken s @ [t], mutex := None\<rparr>"
  have "queue s1 = q" "taken s1 = taken s @ [t]" "pushed s1 = pushed s"
    using take_pop(5) signal_nofull_wakes [of ?r s1] by (auto split: if_splits)
  with take_pop buffer_step.get [of "buffer_of s" t q qs] show ?thesis by (simp add: buffer_of_def)
next
  case (run_push p t s1)
  have "queue_inv s" "maxQueueSize s = qs" using assms(1) by (simp_all add: pool_inv_def)
  then have "\<not> is_full s" using queue_inv_dest(3) [of s p t] run_push by simp
  then have "qs = 0 \<or> length (content (buffer_of s)) < qs"
    using \<open>maxQueueSize s = qs\<close> by (auto simp: is_full_def buffer_of_def)
  from buffer_step.put [OF this, of t] signal_wakes [OF run_push(3)] run_push(1) show ?thesis
    by (simp add: buffer_of_def)
qed (rule disjI1, simp add: buffer_of_def broadcast_noempty_def)+

lemma buffer_sim_spurious: "spurious_wakeup s s' \<Longrightarrow> buffer_of s' = buffer_of s"
  by (auto simp: buffer_of_def elim: spurious_wakeup.cases)

lemma buffer_of_start: "buffer_of (pool_start n qs) = buffer_start"
  by (simp add: buffer_of_def pool_start_def buffer_start_def)

lemma buffer_sim_any:
  "pool_inv n qs s \<Longrightarrow> any_step s s' \<Longrightarrow> buffer_of s' = buffer_of s \<or> buffer_step qs (buffer_of s) (buffer_of s')"
  unfolding any_step_def using buffer_sim [of n qs s s'] buffer_sim_spurious [of s s'] by argo

interpretation pool: implements "\<lambda>s. s = pool_start n qs" any_step "pool_inv n qs"
    "\<lambda>b. b = buffer_start" "buffer_step qs" buffer_of for n qs
  by unfold_locales (simp_all only: pool_inv_start buffer_of_start pool_inv_step buffer_sim_any)

section \<open>Properties of the pool\<close>

text \<open>C11: in every reachable state of the pool, whatever the interleaving of workers, callers of \<open>run\<close>,
  \<open>stop\<close> and spurious wakeups, tasks leave the queue in the order \<open>run\<close> entered them and none is lost or
  duplicated, the queue respects its bound, and the thread that owns the mutex is the only one inside
  a critical section.\<close>

theorem pool_fifo_bounded_exclusive:
  assumes "reach (\<lambda>s. s = pool_start n qs) any_step s"
  shows "taken s @ queue s = pushed s \<and> (0 < qs \<longrightarrow> pendingTasks s \<le> qs) \<and> (\<forall>ow. holds s ow \<longleftrightarrow> mutex s = Some ow)"
proof -
  have inv: "maxQueueSize s = qs" "mutex_inv s" "queue_inv s"
    using pool.reach_inv [OF assms] by (simp_all add: pool_inv_def)
  then show ?thesis unfolding mutex_inv_def queue_inv_def pendingTasks_def by metis
qed

text \<open>A client calls \<open>run(9)\<close> and gets through.\<close>

definition sample_pools :: "nat pool list" where
  "sample_pools =
     (let s1 = set_client 0 (PLock 9) (pool_start 1 1); s2 = set_client 0 (PTest 9) (s1\<lparr>mutex := Some (Client 0)\<rparr>);
          s3 = set_client 0 (PPush 9) s2; s4 = set_client 0 PIdle (s3\<lparr>queue := [9], pushed := [9], mutex := None\<rparr>)
      in [s1, s2, s3, s4])"

lemma sample_pools_run: "successively any_step (pool_start 1 1 # sample_pools)"
proof -
  define s1 :: "nat pool" where "s1 = set_client 0 (PLock 9) (pool_start 1 1)"
  define s2 where "s2 = set_client 0 (PTest 9) (s1\<lparr>mutex := Some (Client 0)\<rparr>)"
  define s3 where "s3 = set_client 0 (PPush 9) s2"
  define s4 where "s4 = set_client 0 PIdle (s3\<lparr>queue := [9], pushed := [9], mutex := None\<rparr>)"
  note d = s1_def s2_def s3_def s4_def pool_start_def
  have "pool_step (pool_start 1 1) s1" unfolding s1_def by (rule pool_step.run_call) (simp add: pool_start_def)
  moreover have "pool_step s1 s2" unfolding s2_def by (rule pool_step.run_lock) (simp_all add: d)
  moreover have "pool_step s2 s3" using pool_step.run_test [of s2 0 9] by (simp add: s3_def is_full_def) (simp add: d)
  moreover have "pool_step s3 s4" using pool_step.run_push [of s3 0 9 "s3\<lparr>queue := [9], pushed := [9], mutex := None\<rparr>"]
    by (simp add: s4_def signal_noempty_def) (simp add: d)
  ultimately show ?thesis by (simp add: sample_pools_def Let_def any_step_def d)
qed

theorem pool_fifo_bounded_exclusive_witness:
  "let s = last sample_pools in pushed s = [9] \<and> taken s @ queue s = [9] \<and> pendingTasks s \<le> 1 \<and> mutex s = None \<and> (\<forall>ow. \<not> holds s ow)"
proof -
  have "reach (\<lambda>s. s = pool_start 1 1) any_step (last sample_pools)"
    using successively_reach [OF sample_pools_run reach.start] by (simp add: sample_pools_def Let_def)
  from pool_fifo_bounded_exclusive [OF this] show ?thesis by (simp add: sample_pools_def Let_def)
qed

text \<open>C7: the pool implements a bounded first-in-first-out buffer: any run of the pool from its start, seen through the
  queue and with repetitions removed, is a run of the buffer, in which every step enters one task when there is room
  or removes the oldest one, and it ends where the pool's run ends.\<close>

theorem pool_runs_refine_buffer:
  assumes "successively any_step (pool_start n qs # ss)"
  shows "let bs = remdups_adj (map buffer_of (pool_start n qs # ss)) in
    hd bs = buffer_start \<and> successively (buffer_step qs) bs \<and> last bs = buffer_of (last (pool_start n qs # ss))"
proof -
  have "hd (remdups_adj (map buffer_of (pool_start n qs # ss))) = buffer_start"
    by (simp only: hd_remdups_adj list.map list.sel buffer_of_start)
  moreover have "last (remdups_adj (map buffer_of (pool_start n qs # ss))) = buffer_of (last (pool_start n qs # ss))"
    by (simp add: last_remdups_adj last_map)
  ultimately show ?thesis using pool.run_abs [OF assms pool_inv_start] by simp
qed

theorem pool_runs_refine_buffer_witness:
  "successively (buffer_step 1) [buffer_start, \<lparr>content = [9 :: nat], entered = [9], left = []\<rparr>]"
  using pool_runs_refine_buffer [OF sample_pools_run]
  by (simp add: sample_pools_def Let_def buffer_of_def pool_start_def buffer_start_def)

text \<open>A pool with one worker: at a program point, with the mutex, running or in \<open>stop\<close>.\<close>

definition one_worker :: "nat \<Rightarrow> 't wpc \<Rightarrow> owner option \<Rightarrow> bool \<Rightarrow> spc \<Rightarrow> 't pool" where
  "one_worker qs pc m r sp =
     (pool_start 1 qs)\<lparr>workers := (\<lambda>_. WCheck)(0 := pc), mutex := m, running := r, stopper := sp\<rparr>"

lemma pool_stepI: "reach st any_step s \<Longrightarrow> pool_step s s'' \<Longrightarrow> s'' = s' \<Longrightarrow> reach st any_step s'"
  by (auto intro: reach.step simp: any_step_def)

lemmas one_worker_defs = one_worker_def pool_start_def set_worker_def must_wait_def broadcast_noempty_def

lemma one_worker_blocked:
  "reach (\<lambda>s. s = pool_start 1 qs) any_step (one_worker qs WBlock (Some (Worker 0)) True SRun)"
proof -
  let ?R = "reach (\<lambda>s. s = pool_start 1 qs) any_step"
  have "?R (one_worker qs WCheck None True SRun)"
    by (rule reach.start) (simp add: one_worker_defs fun_eq_iff)
  then have "?R (one_worker qs WLock None True SRun)"
    by (rule pool_stepI [OF _ pool_step.check [of 0]]) (simp_all add: one_worker_defs)
  then have "?R (one_worker qs WTest (Some (Worker 0)) True SRun)"
    by (rule pool_stepI [OF _ pool_step.take_lock [of 0]]) (simp_all add: one_worker_defs)
  then show "?R (one_worker qs WBlock (Some (Worker 0)) True SRun)"
    by (rule pool_stepI [OF _ pool_step.take_test [of 0]]) (simp_all add: one_worker_defs)
qed

lemma one_worker_asleep: "reach (\<lambda>s. s = pool_start 1 qs) any_step (one_worker qs WSleep None True SRun)"
  using one_worker_blocked [of qs]
  by (rule pool_stepI [OF _ pool_step.take_wait [of 0]]) (simp_all add: one_worker_defs)

text \<open>\<open>stop\<close> broadcasts between the worker's test of \<open>running_\<close> and its wait.\<close>

lemma one_worker_stopped: "reach (\<lambda>s. s = pool_start 1 qs) any_step (one_worker qs WSleep None False SJoin)"
proof -
  let ?R = "reach (\<lambda>s. s = pool_start 1 qs) any_step"
  from one_worker_blocked [of qs] have "?R (one_worker qs WBlock (Some (Worker 0)) False SBroadcast)"
    by (rule pool_stepI [OF _ pool_step.stop_flag]) (simp_all add: one_worker_defs)
  then have "?R (one_worker qs WBlock (Some (Worker 0)) False SJoin)"
    by (rule pool_stepI [OF _ pool_step.stop_broadcast]) (simp_all add: one_worker_defs fun_eq_iff)
  then show ?thesis
    by (rule pool_stepI [OF _ pool_step.take_wait [of 0]]) (simp_all add: one_worker_defs)
qed

text \<open>C12: no wakeup is lost while the pool runs: whenever a worker sleeps, there are at least as many workers
  on their way to the queue as there are tasks in it, so no task waits for a sleeping worker.\<close>

theorem pool_no_lost_wakeup:
  assumes "reach (\<lambda>s. s = pool_start n qs) any_step s" "running s" "w < threadSize s" "workers s w = WSleep"
  shows "length (queue s) \<le> card {v. v < threadSize s \<and> workers s v \<in> {WCheck, WLock, WTest, WWoken, WPop}}"
proof -
  have "wake_inv s" using pool.reach_inv [OF assms(1)] by (simp add: pool_inv_def)
  moreover have "sleeper s" using assms(3,4) by (auto simp: sleeper_def)
  ultimately show ?thesis using assms(2) by (simp add: wake_inv_def active_def searching_def)
qed

theorem pool_no_lost_wakeup_witness:
  "length (queue (one_worker 3 WSleep None True SRun :: nat pool)) \<le>
   card {v. v < (1::nat) \<and> workers (one_worker 3 WSleep None True SRun :: nat pool) v \<in> {WCheck, WLock, WTest, WWoken, WPop}}"
  using pool_no_lost_wakeup [OF one_worker_asleep, of 3 0] by (simp add: one_worker_def pool_start_def)

lemma one_worker_stuck:
  assumes "pool_step (one_worker qs WSleep None False SJoin) s'"
  shows "\<exists>p t. s' = set_client p (PLock t) (one_worker qs WSleep None False SJoin)"
  using assms by cases (auto simp: one_worker_def pool_start_def)

text \<open>\<open>stop\<close> can hang: it sets \<open>running_\<close> and broadcasts without the mutex, so a worker that has
  found the queue empty and \<open>running_\<close> true and is about to wait misses the broadcast; \<open>stop\<close> then waits in
  \<open>pthread_join\<close> for a thread that only a further call of \<open>run\<close> (or a spurious wakeup) can wake.\<close>

theorem stop_may_hang:
  "\<exists>s. reach (\<lambda>s. s = pool_start 1 qs) any_step s \<and> stopper s = SJoin \<and> workers s 0 = WSleep \<and> \<not> running s \<and>
     (\<forall>s'. pool_step s s' \<longrightarrow> (\<exists>p t. s' = set_client p (PLock t) s))"
proof -
  let ?s = "one_worker qs WSleep None False SJoin"
  have "stopper ?s = SJoin" "workers ?s 0 = WSleep" "\<not> running ?s" by (simp_all add: one_worker_def)
  with one_worker_stopped one_worker_stuck show ?thesis by metis
qed

theorem stop_may_hang_witness:
  "\<exists>s. reach (\<lambda>s. s = (pool_start 1 5000 :: nat pool)) any_step s \<and> stopper s = SJoin \<and> workers s 0 = WSleep"
  using stop_may_hang [of 5000] by metis

section \<open>Thread sequence numbers\<close>

lemma run_initializers_fill:
  assumes "rc + length ms = n" "n \<le> length tbl" "ms \<noteq> []"
  shows "run_initializers n ms \<lparr>runCore = rc, threadMappingTable = tbl\<rparr> =
    Inr \<lparr>runCore = n, threadMappingTable = sort (take rc tbl @ ms) @ drop n tbl\<rparr>"
  using assms
proof (induction ms arbitrary: rc tbl)
  case (Cons m ms)
  let ?t = "tbl[rc := m]"
  have rc: "rc < length tbl" using Cons.prems by simp
  have t: "take (Suc rc) ?t = take rc tbl @ [m]" using rc by (simp add: take_Suc_conv_app_nth)
  show ?case
  proof (cases "ms = []")
    case True
    with Cons.prems t rc show ?thesis by (auto simp: RunInCore_def bind_result_def Let_def)
  next
    case False
    with Cons.prems have "drop n ?t = drop n tbl" "Suc rc \<noteq> n" by auto
    with Cons.IH [of "Suc rc" ?t] Cons.prems False t rc show ?thesis
      by (simp add: RunInCore_def bind_result_def Let_def)
  qed
qed simp

lemma rank_nth:
  assumes "sorted xs" "distinct xs" "l < length xs"
  shows "card {k \<in> set xs. k < xs ! l} = l"
proof -
  have "sorted_wrt (<) xs" using assms by (simp add: strict_sorted_iff)
  then have lt: "xs ! i < xs ! j" if "i < j" "j < length xs" for i j
    using that by (simp add: sorted_wrt_nth_less)
  have "{k \<in> set xs. k < xs ! l} = set (take l xs)"
  proof (intro equalityI subsetI)
    fix k assume "k \<in> {k \<in> set xs. k < xs ! l}"
    then obtain i where i: "i < length xs" "k = xs ! i" "xs ! i < xs ! l" by (auto simp: in_set_conv_nth)
    then have "i < l" using lt [of l i] by (cases i l rule: linorder_cases) auto
    then show "k \<in> set (take l xs)" using i assms(3) by (auto simp: in_set_conv_nth intro!: exI [of _ i])
  next
    fix k assume "k \<in> set (take l xs)"
    then obtain i where i: "i < l" "k = xs ! i" using assms(3) by (auto simp: in_set_conv_nth)
    with lt [of i l] assms(3) show "k \<in> {k \<in> set xs. k < xs ! l}" by simp
  qed
  then show ?thesis using assms by (simp add: distinct_card)
qed

lemma getThreadSeqId_sorted:
  assumes "sorted xs" "distinct xs" "i < length xs"
  shows "getThreadSeqId (xs @ rest) (int (length xs)) (xs ! i) = Inr (int i)"
proof -
  have a: "(xs @ rest) ! nat j = xs ! nat j" if "0 \<le> j" "j < int (length xs)" for j
    using that by (simp add: nth_append nat_less_iff)
  have sk: "sorted_keys (\<lambda>j. (xs @ rest) ! nat j) (int (length xs))"
    using assms(1) a by unfold_locales (auto simp: sorted_iff_nth_mono nat_less_iff nat_mono)
  obtain l h where l: "bs_loop (\<lambda>j. xs ! i \<le> (xs @ rest) ! nat j) 0 (int (length xs) - 1) = (l, h)" by fastforce
  have "0 \<le> l" "l \<le> int i" "(xs @ rest) ! nat l = xs ! i"
    using sorted_keys.lower_hit [OF sk l, of "int i"] a [of "int i"] assms(3) by auto
  moreover from this have "nat l = i"
    using a [of l] assms nth_eq_iff_index_eq [of xs "nat l" i] by auto
  ultimately show ?thesis using l assms(3) by (auto simp: getThreadSeqId_def)
qed

text \<open>once every thread of the pool has run its initialiser (at most 128 threads, the table's size),
  \<open>getThreadSeqId\<close> gives a thread the number of threads with a smaller handle: the numbers are exactly
  0 to \<open>threadNum - 1\<close>, each used once, and the assertion holds.\<close>

theorem thread_seq_ids:
  assumes "distinct ms" "key \<in> set ms" "length ms \<le> 128" "length tbl = 128"
  shows "\<exists>c. run_initializers (length ms) ms \<lparr>runCore = 0, threadMappingTable = tbl\<rparr> = Inr c \<and>
    getThreadSeqId (threadMappingTable c) (int (length ms)) key = Inr (int (card {k \<in> set ms. k < key}))"
proof -
  obtain i where i: "i < length (sort ms)" "sort ms ! i = key"
    using assms(2) by (metis in_set_conv_nth set_sort)
  have "run_initializers (length ms) ms \<lparr>runCore = 0, threadMappingTable = tbl\<rparr> =
      Inr \<lparr>runCore = length ms, threadMappingTable = sort ms @ drop (length ms) tbl\<rparr>"
    using run_initializers_fill [of 0 ms "length ms" tbl] assms by (cases ms) auto
  moreover have "getThreadSeqId (sort ms @ drop (length ms) tbl) (int (length ms)) key = Inr (int i)"
    using getThreadSeqId_sorted [of "sort ms" i "drop (length ms) tbl"] i assms(1) by simp
  moreover have "card {k \<in> set ms. k < key} = i"
    using rank_nth [of "sort ms" i] i assms(1) by simp
  ultimately show ?thesis by simp
qed

theorem thread_seq_ids_witness:
  "\<exists>c. run_initializers 3 [70, 20, 50] \<lparr>runCore = 0, threadMappingTable = replicate 128 0\<rparr> = Inr c \<and>
    getThreadSeqId (threadMappingTable c) 3 50 = Inr 1"
proof -
  have "{k \<in> set [70, 20, 50]. k < (50::int)} = {20}" by auto
  then show ?thesis using thread_seq_ids [of "[70, 20, 50]" 50 "replicate 128 0"] by (simp add: eval_nat_numeral del: run_initializers.simps replicate.simps)
qed

end
