(* ===== verification/Escape.thy ===== *)
theory Escape
  imports Codec
begin

text \<open>
  Model of utility/escape.cpp: \<open>encode4ali\<close> turns a byte string into one without zero bytes (a flag, the
  number and positions of the zeros, the other bytes), \<open>decode4ali\<close> restores it.  Both work in arrays of
  1024 entries without a bound check; an access outside is \<open>MemoryFault\<close>.  The numbers are the
  variable-length code of Codec on \<open>int\<close>; \<open>buf[i - 1]\<close> is outside the array for a number below 1.
\<close>

section \<open>Numbers\<close>

definition escape_numberEncode :: "int \<Rightarrow> byte list result" where
  "escape_numberEncode number =
     (if number \<le> 0 then Inl MemoryFault else Inr (close_number (numberEncode_loop number)))"

definition escape_numberDecode :: "byte list \<Rightarrow> (int \<times> byte list) result" where
  "escape_numberDecode buf =
     (let i = scan buf
      in if length buf \<le> i then Inl MemoryFault
         else Inr (sint (numberDecode_loop buf i (0 :: u32)), drop (Suc i) buf))"

fun encode_numbers :: "int list \<Rightarrow> byte list result" where
  "encode_numbers [] = Inr []"
| "encode_numbers (n # ns) = bind_result (escape_numberEncode n) (\<lambda>b.
     bind_result (encode_numbers ns) (\<lambda>bs. Inr (b @ bs)))"

fun decode_numbers :: "nat \<Rightarrow> byte list \<Rightarrow> (int list \<times> byte list) result" where
  "decode_numbers 0 p = Inr ([], p)"
| "decode_numbers (Suc n) p = bind_result (escape_numberDecode p) (\<lambda>(z, p').
     bind_result (decode_numbers n p') (\<lambda>(zs, p''). Inr ((z - 1) # zs, p'')))"

section \<open>Encoding\<close>

fun zeroIndex :: "nat \<Rightarrow> byte list \<Rightarrow> int list" where
  "zeroIndex i [] = []"
| "zeroIndex i (b # bs) = (if b = 0 then (int i + 1) # zeroIndex (Suc i) bs else zeroIndex (Suc i) bs)"

definition encode4ali :: "byte list \<Rightarrow> byte list result" where
  "encode4ali buf =
     (let zeros = zeroIndex 0 buf
      in if 1024 < length zeros then Inl MemoryFault
         else if zeros = [] then if 1024 < length buf + 1 then Inl MemoryFault else Inr (0x30 # buf)
         else bind_result (encode_numbers (int (length zeros) # zeros)) (\<lambda>ns.
           let stub = 0x31 # ns @ filter (\<lambda>b. b \<noteq> 0) buf
           in if 1024 < length stub + 1 then Inl MemoryFault else Inr stub))"

section \<open>Decoding\<close>

text \<open>\<open>result\<close> is what has been written, \<open>p\<close> the unread bytes up to the end of the array.\<close>

definition copy_tail :: "byte list \<Rightarrow> byte list \<Rightarrow> byte list result" where
  "copy_tail p result =
     (if 0 \<notin> set p \<or> 1024 \<le> length (result @ takeWhile (\<lambda>b. b \<noteq> 0) p) then Inl MemoryFault
      else Inr (result @ takeWhile (\<lambda>b. b \<noteq> 0) p))"

fun restore :: "int list \<Rightarrow> byte list \<Rightarrow> byte list \<Rightarrow> byte list result" where
  "restore [] p result = copy_tail p result"
| "restore (z # zs) [] result = Inl MemoryFault"
| "restore (z # zs) (b # p) result =
     (if b = 0 then copy_tail (b # p) (result @ replicate (Suc (length zs)) 0)
      else let n = nat (z - int (length result))
           in if Suc (length p) < n then Inl MemoryFault
              else restore zs (drop n (b # p)) (result @ take n (b # p) @ [0]))"

definition decode4ali :: "byte list \<Rightarrow> byte list result" where
  "decode4ali input =
     (let buf = input @ [0]
      in if buf ! 0 = 0x30 then Inr (drop 1 input)
         else bind_result (escape_numberDecode (drop 1 buf)) (\<lambda>(zeroCnt, p).
           if 1024 < zeroCnt then Inl MemoryFault
           else bind_result (decode_numbers (nat zeroCnt) p) (\<lambda>(zeroIdx, p'). restore zeroIdx p' [])))"

section \<open>The number code\<close>

text \<open>The same contract as the numbers of url.cpp, on positive 32-bit values.\<close>

definition valid_number :: "int \<Rightarrow> bool" where
  "valid_number n \<longleftrightarrow> 0 < n \<and> n \<le> int32_max"

lemma escape_numberDecode_varint:
  assumes "valid_number n"
  shows "escape_numberDecode (varint n @ rest) = Inr (n, rest)"
proof -
  have n: "0 < n" "n \<le> int32_max" using assms by (simp_all add: valid_number_def)
  have "sint (word_of_int n :: u32) = n"
    using n by (simp add: sint_sbintrunc' signed_take_bit_int_eq_self int_limits)
  moreover have "length (varint n) - 1 < length (varint n @ rest)" "Suc (length (varint n) - 1) = length (varint n)"
    using varint_decode(2) [OF n(1)] by (cases "varint n"; simp)+
  ultimately show ?thesis
    using varint_decode(1) [OF n(1), of rest] varint_decode(2) [OF n(1)] varint_decode(3) [OF n(1), of rest, where 'w = 32] by (simp add: escape_numberDecode_def Let_def)
qed

interpretation esc: codec valid_number varint escape_numberDecode
  by unfold_locales (rule escape_numberDecode_varint)

lemma encode_numbers_varint:
  "\<forall>n \<in> set ns. valid_number n \<Longrightarrow> encode_numbers ns = Inr (concat (map varint ns))"
  by (induction ns) (simp_all add: escape_numberEncode_def valid_number_def varint_def)

lemma decode_numbers_esc:
  "decode_numbers k p = bind_result (esc.dec_list k p) (\<lambda>(zs, p'). Inr (map (\<lambda>z. z - 1) zs, p'))"
proof (induction k arbitrary: p)
  case (Suc k)
  show ?case
  proof (cases "escape_numberDecode p")
    case (Inr zp)
    then show ?thesis
      by (cases zp; cases "esc.dec_list k (snd zp)") (auto simp: Suc)
  qed simp
qed simp

lemma last_digit: "0 < n \<Longrightarrow> last (numberEncode_loop n) AND 0x7F \<noteq> 0"
proof (induction n rule: numberEncode_loop.induct)
  case (1 n)
  let ?b = "word_of_int ((n AND 0x7F) OR 0x80) :: byte"
  have split: "numberEncode_loop n = ?b # numberEncode_loop (n div 128)"
    using "1.prems" by (simp add: numberEncode_loop.simps [of n] drop_bit_eq_div)
  show ?case
  proof (cases "0 < n div 128")
    case True
    with 1 split show ?thesis by (simp add: drop_bit_eq_div)
  next
    case False
    then have "n < 128" "numberEncode_loop (n div 128) = []" by auto
    moreover have "(ucast (?b AND 0x7F) :: byte) = word_of_int (n mod 128)"
      using digit_byte(2) [of n, where 'w = 8] unfolding low7_def .
    moreover have "uint (word_of_int n :: byte) = n" using \<open>n < 128\<close> "1.prems" by (simp add: uint_word_of_int)
    ultimately show ?thesis using split "1.prems" by (metis last_ConsL mod_pos_pos_trivial order_less_imp_le ucast_id unsigned_0 less_irrefl)
  qed
qed

lemma varint_no_zero: "0 < n \<Longrightarrow> 0 \<notin> set (varint n)"
proof -
  assume n: "0 < n"
  obtain ds d where v: "numberEncode_loop n = ds @ [d]" "varint n = ds @ [d AND 0x7F]" "\<forall>b \<in> set ds. b > 0x7F"
    using varint_split [OF n] .
  then show ?thesis using last_digit [OF n] by auto
qed

section \<open>The zeros\<close>

lemma zeroIndex_append: "zeroIndex i (us @ vs) = zeroIndex i us @ zeroIndex (i + length us) vs"
  by (induction us arbitrary: i) auto

lemma zeroIndex_none: "0 \<notin> set us \<Longrightarrow> zeroIndex i us = []"
  by (induction us arbitrary: i) auto

lemma zeroIndex_Nil_iff: "zeroIndex i bs = [] \<longleftrightarrow> 0 \<notin> set bs"
  by (induction bs arbitrary: i) auto

lemma zeroIndex_range: "z \<in> set (zeroIndex i bs) \<Longrightarrow> int i < z \<and> z \<le> int i + int (length bs)"
  by (induction bs arbitrary: i) (fastforce split: if_splits)+

lemma length_zeroIndex: "length (zeroIndex i bs) = length (filter (\<lambda>b. b = 0) bs)"
  by (induction bs arbitrary: i) auto

lemma restore_zeros:
  assumes "length r + length bs < 1024"
  shows "restore (map (\<lambda>z. z - 1) (zeroIndex (length r) bs)) (filter (\<lambda>b. b \<noteq> 0) bs @ [0]) r = Inr (r @ bs)"
  using assms
proof (induction "length bs" arbitrary: bs r rule: less_induct)
  case less
  have tail: "copy_tail (filter (\<lambda>b. b \<noteq> 0) cs @ [0]) q = Inr (q @ filter (\<lambda>b. b \<noteq> 0) cs)"
    if "length q + length cs < 1024" for q cs
  proof -
    have "length q + length (filter (\<lambda>b. b \<noteq> 0) cs) < 1024"
      using that by (metis add_left_mono le_less_trans length_filter_le)
    then show ?thesis by (simp add: copy_tail_def takeWhile_append)
  qed
  show ?case
  proof (cases "0 \<in> set bs")
    case False
    then show ?thesis using tail [of r bs] less.prems by (auto simp: zeroIndex_none filter_id_conv)
  next
    case True
    then obtain us vs where bs: "bs = us @ 0 # vs" "0 \<notin> set us" by (metis split_list_first)
    have us: "filter (\<lambda>b. b \<noteq> 0) us = us" using bs(2) by (auto simp: filter_id_conv)
    have z: "zeroIndex (length r) bs = (int (length r + length us) + 1) # zeroIndex (length (r @ us @ [0])) vs"
      using bs by (simp add: zeroIndex_append zeroIndex_none)
    show ?thesis
    proof (cases "filter (\<lambda>b. b \<noteq> 0) bs")
      case Nil
      then have all: "\<forall>b \<in> set bs. b = 0" by (simp add: filter_empty_conv)
      let ?zs = "zeroIndex (length (r @ us @ [0])) vs"
      have "length (zeroIndex (length r) bs) = length bs" using all by (simp add: length_zeroIndex)
      then have "Suc (length ?zs) = length bs" unfolding z by simp
      moreover have "replicate (length bs) 0 = bs" using all by (intro replicate_eqI [symmetric]) auto
      moreover have "copy_tail [0] (r @ bs) = Inr (r @ bs)" using tail [of "r @ bs" "[]"] less.prems by simp
      ultimately show ?thesis unfolding Nil z by (simp del: replicate.simps)
    next
      case (Cons b p)
      have "b \<in> set (filter (\<lambda>b. b \<noteq> 0) bs)" unfolding Cons by simp
      then have b0: "b \<noteq> 0" by simp
      have bp: "b # p @ [0] = us @ filter (\<lambda>b. b \<noteq> 0) vs @ [0]" using bs us Cons by simp
      have "take (length us) (b # p @ [0]) = us" "drop (length us) (b # p @ [0]) = filter (\<lambda>b. b \<noteq> 0) vs @ [0]"
        unfolding bp by simp_all
      moreover have "length us \<le> Suc (Suc (length p))" using arg_cong [OF bp, of length] by simp
      moreover have "restore (map (\<lambda>z. z - 1) (zeroIndex (length (r @ us @ [0])) vs)) (filter (\<lambda>b. b \<noteq> 0) vs @ [0]) (r @ us @ [0])
          = Inr ((r @ us @ [0]) @ vs)"
        using bs less.prems by (intro less.hyps) simp_all
      ultimately show ?thesis unfolding z Cons using b0 by (simp add: Let_def bs(1))
    qed
  qed
qed

section \<open>Escaping\<close>

lemma length_numbers:
  "\<forall>n \<in> set ns. 0 < n \<and> n < 2 ^ 14 \<Longrightarrow> length (concat (map varint ns)) \<le> 2 * length ns"
proof (induction ns)
  case (Cons n ns)
  then have "length (varint n) \<le> 2" using length_varint [of n 2] by simp
  with Cons show ?case by simp
qed simp

lemma encode4ali_zeros:
  assumes "length buf \<le> 510" "0 \<in> set buf"
  defines "zs \<equiv> zeroIndex 0 buf"
  shows "encode4ali buf = Inr (0x31 # concat (map varint (int (length zs) # zs)) @ filter (\<lambda>b. b \<noteq> 0) buf)"
    and "\<forall>n \<in> set (int (length zs) # zs). valid_number n \<and> n < 2 ^ 14"
proof -
  have nz: "length (filter (\<lambda>b. b \<noteq> 0) buf) + length zs = length buf"
    unfolding zs_def length_zeroIndex using sum_length_filter_compl [of "\<lambda>b. b = 0" buf] by simp
  have ne: "zs \<noteq> []" using assms(2) by (simp add: zs_def zeroIndex_Nil_iff)
  have r: "\<forall>n \<in> set (int (length zs) # zs). 0 < n \<and> n \<le> 510"
    using zeroIndex_range [of _ 0 buf] ne nz assms(1) by (fastforce simp: zs_def)
  then show v: "\<forall>n \<in> set (int (length zs) # zs). valid_number n \<and> n < 2 ^ 14"
    by (force simp: valid_number_def int_limits)
  have "length (concat (map varint (int (length zs) # zs))) \<le> 2 * Suc (length zs)"
    using length_numbers [of "int (length zs) # zs"] r by fastforce
  moreover have "encode_numbers (int (length zs) # zs) = Inr (concat (map varint (int (length zs) # zs)))"
    using v by (intro encode_numbers_varint) blast
  ultimately show "encode4ali buf = Inr (0x31 # concat (map varint (int (length zs) # zs)) @ filter (\<lambda>b. b \<noteq> 0) buf)"
    using ne nz assms(1) unfolding encode4ali_def zs_def [symmetric] by (simp del: encode_numbers.simps)
qed

lemma decode4ali_zeros:
  assumes "length buf \<le> 510" "0 \<in> set buf"
  defines "zs \<equiv> zeroIndex 0 buf"
  shows "decode4ali (0x31 # concat (map varint (int (length zs) # zs)) @ filter (\<lambda>b. b \<noteq> 0) buf) = Inr buf"
proof -
  let ?rest = "filter (\<lambda>b. b \<noteq> 0) buf @ [0]"
  have v: "\<forall>n \<in> set (int (length zs) # zs). valid_number n" "length zs \<le> 1024"
    using encode4ali_zeros(2) [OF assms(1,2)] assms(1)
      length_filter_le [of "\<lambda>b. b = 0" buf] unfolding zs_def length_zeroIndex by (auto simp del: length_filter_le)
  have "escape_numberDecode (varint (int (length zs)) @ concat (map varint zs) @ ?rest) = Inr (int (length zs), concat (map varint zs) @ ?rest)"
    using v by (intro escape_numberDecode_varint) simp
  moreover have "decode_numbers (length zs) (concat (map varint zs) @ ?rest) = Inr (map (\<lambda>z. z - 1) zs, ?rest)"
    using v esc.dec_list_enc [of zs ?rest] by (simp add: decode_numbers_esc)
  moreover have "restore (map (\<lambda>z. z - 1) zs) ?rest [] = Inr buf"
    using restore_zeros [of "[]" buf] assms(1) by (simp add: zs_def)
  ultimately show ?thesis using v(2) by (simp add: decode4ali_def)
qed

text \<open>C26: every byte string of at most 510 bytes is escaped without leaving the 1024-byte arrays, the
  escaped form contains no zero byte, and \<open>decode4ali\<close> restores the original.\<close>

theorem encode4ali_round_trip:
  assumes "length buf \<le> 510"
  shows "\<exists>s. encode4ali buf = Inr s \<and> 0 \<notin> set s \<and> decode4ali s = Inr buf"
proof (cases "0 \<in> set buf")
  case False
  with assms show ?thesis by (auto simp: encode4ali_def zeroIndex_none decode4ali_def Let_def)
next
  case True
  have "\<forall>n \<in> set (int (length (zeroIndex 0 buf)) # zeroIndex 0 buf). 0 \<notin> set (varint n)"
    using encode4ali_zeros(2) [OF assms True] varint_no_zero by (auto simp: valid_number_def)
  then show ?thesis
    using encode4ali_zeros(1) [OF assms True] decode4ali_zeros [OF assms True] by auto
qed

theorem encode4ali_round_trip_witness:
  "\<exists>s. encode4ali [0, 65, 0, 0] = Inr s \<and> 0 \<notin> set s \<and> decode4ali s = Inr [0, 65, 0, 0]"
  using encode4ali_round_trip [of "[0, 65, 0, 0]"] by simp

end
