(* ===== verification/Template_Engine.thy ===== *)
theory Template_Engine
  imports Prelude
begin

text \<open>
  Model of utility/template_engine.cpp: \<open>compile\<close> finds the \<open>${name}\<close> parameters of a template, \<open>bind\<close> and
  \<open>bindFast\<close> fill them in.  A template text is a C string without terminator, shorter than \<open>0x7FFFFFFF\<close>,
  the position that stands for "no further parameter".  The file contents are arguments, the regular
  expression search of boost is a parameter of \<open>getVariables\<close>.
\<close>

section \<open>Compiling\<close>

definition someCharacter :: "char \<Rightarrow> bool" where
  "someCharacter c \<longleftrightarrow> (schar c \<ge> 48 \<and> schar c \<le> 57) \<or> (schar c \<ge> 65 \<and> schar c \<le> 90) \<or>
     (schar c \<ge> 97 \<and> schar c \<le> 122) \<or> c = CHR ''_'' \<or> c = CHR ''.''"

definition inRegexpCharset :: "char \<Rightarrow> bool" where
  "inRegexpCharset c \<longleftrightarrow> c \<in> set [CHR ''.'', CHR ''{'', CHR ''}'', CHR ''['', CHR '']'', CHR ''('', CHR '')'', CHR 0x5C, CHR ''|'']"

record template_param =
  pos :: nat
  param :: string

record template_engine =
  params :: "template_param list"
  templateFileContent :: string
  templateRegexp :: string

definition param_regexp :: string where
  "param_regexp = ''('' @ [CHR 0x5C] @ ''s*.+'' @ [CHR 0x5C] @ ''s*)''"

text \<open>
  The loop over the text: \<open>p\<close> is the position, \<open>name\<close> is \<open>None\<close> outside a parameter (\<open>paramStart == nullptr\<close>)
  and otherwise the characters since \<open>paramStart\<close>.
\<close>

fun compile_loop :: "nat \<Rightarrow> string option \<Rightarrow> string \<Rightarrow> template_param list \<Rightarrow> string \<Rightarrow>
    (template_param list \<times> string) result" where
  "compile_loop p None [] ps ss = Inr (ps, ss)"
| "compile_loop p (Some name) [] ps ss =
     Inl (MtError ''TemplateEngine: there's no bracket ending the quote param at the end'')"
| "compile_loop p (Some name) (c # cs) ps ss =
     (if c = CHR ''}'' then
        compile_loop (Suc p) None cs (ps @ [\<lparr>pos = p - length name - 2, param = name\<rparr>]) (ss @ param_regexp)
      else if \<not> someCharacter c then compile_loop (Suc p) None cs ps (ss @ ''${'' @ name @ [c])
      else compile_loop (Suc p) (Some (name @ [c])) cs ps ss)"
| "compile_loop p None (c # cs) ps ss =
     (if c = CHR ''$'' \<and> cs \<noteq> [] \<and> hd cs = CHR ''{'' then compile_loop (p + 2) (Some []) (tl cs) ps ss
      else compile_loop (Suc p) None cs ps (ss @ (if inRegexpCharset c then [CHR 0x5C] else []) @ [c]))"

definition compile :: "string \<Rightarrow> template_engine result" where
  "compile content =
     bind_result (compile_loop 0 None (cstr content) [] []) (\<lambda>(ps, ss).
       Inr \<lparr>params = ps, templateFileContent = content, templateRegexp = ss\<rparr>)"

section \<open>Binding\<close>

text \<open>\<open>rest\<close> is the text from position \<open>at\<close> on.\<close>

fun bind_loop :: "(string \<times> string) list \<Rightarrow> template_param list \<Rightarrow> nat \<Rightarrow> string \<Rightarrow> string result" where
  "bind_loop paramMap [] at rest = Inr rest"
| "bind_loop paramMap (cur # ps) at rest =
     (let n = pos cur - at; lit = take n rest; rest = drop n rest; skip = length (param cur) + 3
      in if rest = [] then Inr lit
         else if length rest < skip then Inl MemoryFault
         else bind_result (bind_loop paramMap ps (at + n + skip) (drop skip rest)) (\<lambda>out.
           Inr (lit @ (case map_of paramMap (param cur) of Some v \<Rightarrow> v | None \<Rightarrow> []) @ out)))"

definition bind :: "template_engine \<Rightarrow> (string \<times> string) list \<Rightarrow> string result" where
  "bind eng paramMap = bind_loop paramMap (params eng) 0 (cstr (templateFileContent eng))"

text \<open>\<open>bindFast\<close> writes into a string resized to the template and one copy of every value.\<close>

definition bindFast :: "template_engine \<Rightarrow> (string \<times> string) list \<Rightarrow> string result" where
  "bindFast eng paramMap =
     (let cap = length (templateFileContent eng) + sum_list (map (\<lambda>(k, v). length v) paramMap)
      in bind_result (bind_loop paramMap (params eng) 0 (cstr (templateFileContent eng))) (\<lambda>out.
           if cap + 1 < length out then Inl MemoryFault else Inr out))"

text \<open>\<open>search content regexp\<close> is \<open>boost::regex_search\<close>: the match and its groups.  \<open>insert\<close> keeps the first
  value of a key; \<open>params[i]\<close> is outside the vector for \<open>i = params.size()\<close>.\<close>

fun insert_matches :: "template_param list \<Rightarrow> string list \<Rightarrow> param_map \<Rightarrow> param_map result" where
  "insert_matches ps [] res = Inr res"
| "insert_matches [] (m # ms) res = Inl MemoryFault"
| "insert_matches (p # ps) (m # ms) res =
     insert_matches ps ms (if res (param p) = None then res(param p \<mapsto> m) else res)"

definition getVariables :: "(string \<Rightarrow> string \<Rightarrow> string list option) \<Rightarrow> template_engine \<Rightarrow> string \<Rightarrow> param_map result" where
  "getVariables search eng shadow =
     (case search shadow (templateRegexp eng) of
        None \<Rightarrow> Inl (MtError ''shadowFile not match template'')
      | Some ms \<Rightarrow> if length ms \<noteq> length (params eng) + 1 then Inr Map.empty
                  else insert_matches (params eng) ms Map.empty)"

section \<open>Templates as sequences of literals and parameters\<close>

datatype segment = Lit string | Par string

fun seg_text :: "segment \<Rightarrow> string" where
  "seg_text (Lit l) = l"
| "seg_text (Par n) = ''${'' @ n @ ''}''"

fun seg_value :: "(string \<times> string) list \<Rightarrow> segment \<Rightarrow> string" where
  "seg_value m (Lit l) = l"
| "seg_value m (Par n) = (case map_of m n of Some v \<Rightarrow> v | None \<Rightarrow> [])"

fun seg_ok :: "segment \<Rightarrow> bool" where
  "seg_ok (Lit l) \<longleftrightarrow> CHR ''$'' \<notin> set l \<and> NUL \<notin> set l"
| "seg_ok (Par n) \<longleftrightarrow> list_all someCharacter n"

fun seg_names :: "segment list \<Rightarrow> string list" where
  "seg_names [] = []"
| "seg_names (Lit l # segs) = seg_names segs"
| "seg_names (Par n # segs) = n # seg_names segs"

fun seg_params :: "nat \<Rightarrow> segment list \<Rightarrow> template_param list" where
  "seg_params p [] = []"
| "seg_params p (Lit l # segs) = seg_params (p + length l) segs"
| "seg_params p (Par n # segs) = \<lparr>pos = p, param = n\<rparr> # seg_params (p + length n + 3) segs"

abbreviation template_text :: "segment list \<Rightarrow> string" where
  "template_text segs \<equiv> concat (map seg_text segs)"

abbreviation template_value :: "(string \<times> string) list \<Rightarrow> segment list \<Rightarrow> string" where
  "template_value m segs \<equiv> concat (map (seg_value m) segs)"

lemma someCharacter_excludes: "someCharacter c \<Longrightarrow> c \<noteq> CHR ''}'' \<and> c \<noteq> NUL"
  by (auto simp: someCharacter_def schar_ascii)

lemma template_text_NUL: "list_all seg_ok segs \<Longrightarrow> NUL \<notin> set (template_text segs)"
proof (induction segs)
  case (Cons s segs)
  then show ?case by (cases s) (auto simp: list_all_iff dest: someCharacter_excludes)
qed simp

lemma compile_literal:
  "CHR ''$'' \<notin> set l \<Longrightarrow> \<exists>ss'. compile_loop p None (l @ cs) ps ss = compile_loop (p + length l) None cs ps ss'"
proof (induction l arbitrary: p ss)
  case (Cons c l)
  then have "c \<noteq> CHR ''$''" by auto
  with Cons show ?case using Cons.IH [of "Suc p"] by simp
qed auto

lemma compile_name:
  "list_all someCharacter n \<Longrightarrow> compile_loop p (Some nm) (n @ CHR ''}'' # cs) ps ss =
    compile_loop (p + length n + 1) None cs (ps @ [\<lparr>pos = p + length n - length (nm @ n) - 2, param = nm @ n\<rparr>]) (ss @ param_regexp)"
  by (induction n arbitrary: p nm) (auto dest: someCharacter_excludes)

lemma compile_segments:
  "list_all seg_ok segs \<Longrightarrow> \<exists>ss'. compile_loop p None (template_text segs) ps ss = Inr (ps @ seg_params p segs, ss')"
proof (induction segs arbitrary: p ps ss)
  case (Cons s segs)
  show ?case
  proof (cases s)
    case (Lit l)
    with Cons.prems obtain ss' where
      "compile_loop p None (template_text (s # segs)) ps ss = compile_loop (p + length l) None (template_text segs) ps ss'"
      using compile_literal [of l p "template_text segs" ps ss] by auto
    with Cons Lit show ?thesis by auto
  next
    case (Par n)
    have "compile_loop p None (template_text (s # segs)) ps ss =
      compile_loop (p + length n + 3) None (template_text segs) (ps @ [\<lparr>pos = p, param = n\<rparr>]) (ss @ param_regexp)"
      using Par Cons.prems compile_name [of n "p + 2" "[]"] by (simp add: add.commute add.left_commute numeral_3_eq_3)
    moreover have "\<exists>ss'. compile_loop (p + length n + 3) None (template_text segs) (ps @ [\<lparr>pos = p, param = n\<rparr>])
      (ss @ param_regexp) = Inr ((ps @ [\<lparr>pos = p, param = n\<rparr>]) @ seg_params (p + length n + 3) segs, ss')"
      using Cons.prems by (intro Cons.IH) simp
    ultimately show ?thesis using Par by simp
  qed
qed simp

lemma bind_segments:
  "bind_loop m (seg_params (at + length pre) segs) at (pre @ template_text segs) = Inr (pre @ template_value m segs)"
proof (induction segs arbitrary: at pre)
  case (Cons s segs)
  show ?case
  proof (cases s)
    case (Lit l)
    with Cons.IH [of at "pre @ l"] show ?thesis by (simp add: add.assoc)
  next
    case (Par n)
    have "drop (length n + 3) (''${'' @ n @ ''}'' @ template_text segs) = template_text segs"
      by (simp add: eval_nat_numeral)
    with Par Cons.IH [of "at + length pre + length n + 3" "[]"] show ?thesis
      by (simp add: Let_def add.commute add.left_commute)
  qed
qed simp

lemma values_bounded:
  assumes "distinct ns"
  shows "sum_list (map (\<lambda>n. case map_of m n of Some v \<Rightarrow> length v | None \<Rightarrow> 0) ns) \<le> sum_list (map (\<lambda>(k, v). length v) m)"
  using assms
proof (induction m arbitrary: ns)
  case (Cons kv m)
  obtain k v where kv: "kv = (k, v)" by fastforce
  let ?f = "\<lambda>m n. case map_of m n of Some v \<Rightarrow> length v | None \<Rightarrow> 0"
  have other: "map (?f (kv # m)) (remove1 k ns) = map (?f m) (remove1 k ns)"
    using Cons.prems kv by (auto simp: set_remove1_eq)
  have "sum_list (map (?f (kv # m)) ns) \<le> length v + sum_list (map (?f m) (remove1 k ns))"
  proof (cases "k \<in> set ns")
    case True
    have "?f (kv # m) k = length v" using kv by simp
    with sum_list_map_remove1 [OF True, of "?f (kv # m)"] show ?thesis unfolding other by linarith
  next
    case False
    then have "remove1 k ns = ns" by (rule remove1_idem)
    then show ?thesis using other by (metis le_add2)
  qed
  also have "\<dots> \<le> length v + sum_list (map (\<lambda>(k, v). length v) m)"
    using Cons.IH [of "remove1 k ns"] Cons.prems by simp
  finally show ?case using kv by simp
qed (simp add: sum_list_0)

lemma template_value_length:
  "length (template_value m segs) \<le> length (template_text segs) +
     sum_list (map (\<lambda>n. case map_of m n of Some v \<Rightarrow> length v | None \<Rightarrow> 0) (seg_names segs))"
  by (induction segs rule: seg_names.induct) (auto split: option.splits)

text \<open>C28: a template built from literals without \<open>$\<close> and parameters \<open>${name}\<close> compiles; \<open>bind\<close> replaces every
  parameter by its value (by nothing if it has none) and keeps the rest, and \<open>bindFast\<close> returns the same
  within its buffer when no parameter occurs twice.\<close>

theorem template_bind:
  assumes "list_all seg_ok segs"
  shows "\<exists>eng. compile (template_text segs) = Inr eng \<and> bind eng m = Inr (template_value m segs) \<and>
    (distinct (seg_names segs) \<longrightarrow> bindFast eng m = bind eng m)"
proof -
  let ?t = "template_text segs"
  have c: "cstr ?t = ?t" using template_text_NUL [OF assms] by (rule cstr_id)
  obtain ss where ss: "compile_loop 0 None ?t [] [] = Inr (seg_params 0 segs, ss)"
    using compile_segments [OF assms, of 0 "[]" "[]"] by auto
  let ?e = "\<lparr>params = seg_params 0 segs, templateFileContent = ?t, templateRegexp = ss\<rparr>"
  have b: "bind_loop m (seg_params 0 segs) 0 ?t = Inr (template_value m segs)"
    using bind_segments [of m 0 "[]" segs] by simp
  have "length (template_value m segs) \<le> length ?t + sum_list (map (\<lambda>(k, v). length v) m)" if "distinct (seg_names segs)"
    using template_value_length [of m segs] values_bounded [OF that, of m] by linarith
  then have "distinct (seg_names segs) \<longrightarrow> bindFast ?e m = bind ?e m"
    using b c by (auto simp: bindFast_def bind_def Let_def)
  moreover have "compile ?t = Inr ?e" "bind ?e m = Inr (template_value m segs)"
    using ss b c by (simp_all add: compile_def bind_def)
  ultimately show ?thesis by blast
qed

theorem template_bind_witness:
  "\<exists>eng. compile ''<a href=${url}>${t}</a>'' = Inr eng \<and> bind eng [(''url'', ''x?y'')] = Inr ''<a href=x?y></a>'' \<and>
    bindFast eng [(''url'', ''x?y'')] = bind eng [(''url'', ''x?y'')]"
  using template_bind [of "[Lit ''<a href='', Par ''url'', Lit ''>'', Par ''t'', Lit ''</a>'']" "[(''url'', ''x?y'')]"]
  by (simp add: someCharacter_def schar_def)

text \<open>A parameter used twice with a long value does not fit the buffer of \<open>bindFast\<close>.\<close>

lemma bindFast_repeated:
  "compile ''${a}${a}'' = Inr eng \<Longrightarrow> bindFast eng [(''a'', replicate 20 CHR ''x'')] = Inl MemoryFault"
  by (auto simp: compile_def someCharacter_def schar_def bindFast_def eval_nat_numeral Let_def)

text \<open>Whenever the search succeeds with one group per parameter, \<open>getVariables\<close> reads past its parameters.\<close>

lemma getVariables_out_of_range:
  "search shadow (templateRegexp eng) = Some ms \<Longrightarrow> length ms = length (params eng) + 1 \<Longrightarrow>
    getVariables search eng shadow = Inl MemoryFault"
proof -
  have "length ms = Suc (length ps) \<Longrightarrow> insert_matches ps ms res = Inl MemoryFault" for ps ms res
    by (induction ps ms res rule: insert_matches.induct) auto
  then show "search shadow (templateRegexp eng) = Some ms \<Longrightarrow> length ms = length (params eng) + 1 \<Longrightarrow>
    getVariables search eng shadow = Inl MemoryFault"
    by (simp add: getVariables_def)
qed

end
