(* ===== verification/Std_Map.thy ===== *)
theory Std_Map
  imports Prelude
begin

text \<open>
  The associative containers of the program.  \<open>std::map\<close> with integer keys, where the program walks the
  entries in key order, is a list of pairs with ascending keys; a container that is only searched is a
  HOL map.  \<open>insert\<close> keeps an entry that is already there, \<open>operator[]\<close> assignment replaces it.
  \<open>dictionary\<close> is the contract the components rely on.
\<close>

section \<open>Ordered maps\<close>

fun omap_insert :: "'k :: linorder \<Rightarrow> 'v \<Rightarrow> ('k \<times> 'v) list \<Rightarrow> ('k \<times> 'v) list" where
  "omap_insert k v [] = [(k, v)]"
| "omap_insert k v ((k', v') # m) =
     (if k < k' then (k, v) # (k', v') # m else if k = k' then (k', v') # m else (k', v') # omap_insert k v m)"

definition map_ok :: "('k :: linorder \<times> 'v) list \<Rightarrow> bool" where
  "map_ok m \<longleftrightarrow> sorted_wrt (<) (map fst m)"

lemma omap_insert_keys: "set (map fst (omap_insert k v m)) = insert k (set (map fst m))"
  by (induction k v m rule: omap_insert.induct) auto

lemma map_ok_simps [simp]: "map_ok []" "map_ok ((k, v) # m) \<longleftrightarrow> (\<forall>k' \<in> set (map fst m). k < k') \<and> map_ok m"
  by (auto simp: map_ok_def)

lemma map_ok_insert: "map_ok m \<Longrightarrow> map_ok (omap_insert k v m)"
proof (induction k v m rule: omap_insert.induct)
  case (2 k v k' v' m)
  consider "k < k'" | "k = k'" | "k' < k" by (rule linorder_cases)
  then show ?case
  proof cases
    case 1
    with 2 show ?thesis by (auto intro: less_trans)
  next
    case 3
    then have "\<forall>x \<in> set (map fst (omap_insert k v m)). k' < x"
      unfolding omap_insert_keys using 2 by auto
    with 2 3 show ?thesis by auto
  qed (use 2 in simp)
qed simp

lemma map_of_insert:
  "map_ok m \<Longrightarrow> map_of (omap_insert k v m) x = (if x = k \<and> map_of m k = None then Some v else map_of m x)"
proof (induction m)
  case (Cons e m)
  obtain k' v' where e: "e = (k', v')" by fastforce
  have "map_of m k = None" if "k < k'" using Cons.prems that e by (auto simp: map_of_eq_None_iff)
  with Cons e show ?case by auto
qed simp

section \<open>The contract\<close>

locale dictionary =
  fixes lookup :: "'m \<Rightarrow> 'k \<Rightarrow> 'v option" and insert_new :: "'k \<Rightarrow> 'v \<Rightarrow> 'm \<Rightarrow> 'm" and ok :: "'m \<Rightarrow> bool"
  assumes lookup_insert: "ok m \<Longrightarrow> lookup (insert_new k v m) x = (if x = k \<and> lookup m k = None then Some v else lookup m x)"
    and ok_insert: "ok m \<Longrightarrow> ok (insert_new k v m)"
begin

definition insert_all :: "('k \<times> 'v) list \<Rightarrow> 'm \<Rightarrow> 'm" where
  "insert_all es m = fold (\<lambda>(k, v). insert_new k v) es m"

lemma ok_insert_all: "ok m \<Longrightarrow> ok (insert_all es m)"
  by (induction es arbitrary: m) (auto simp: insert_all_def ok_insert)

text \<open>Of several entries for a key the first one stays, after what was there before.\<close>

lemma lookup_insert_all:
  "ok m \<Longrightarrow> lookup (insert_all es m) k = (case lookup m k of Some v \<Rightarrow> Some v | None \<Rightarrow> map_of es k)"
proof (induction es arbitrary: m)
  case (Cons e es)
  then show ?case
    by (cases e) (auto simp: insert_all_def ok_insert lookup_insert split: option.splits)
qed (simp add: insert_all_def split: option.splits)

lemma insert_all_keeps: "ok m \<Longrightarrow> lookup m k = Some v \<Longrightarrow> lookup (insert_all es m) k = Some v"
  by (simp add: lookup_insert_all)

end

definition hash_insert :: "'k \<Rightarrow> 'v \<Rightarrow> ('k \<rightharpoonup> 'v) \<Rightarrow> ('k \<rightharpoonup> 'v)" where
  "hash_insert k v m = (if m k = None then m(k \<mapsto> v) else m)"

interpretation om: dictionary "map_of :: ('k :: linorder \<times> 'v) list \<Rightarrow> _" omap_insert map_ok
  by unfold_locales (simp_all add: map_of_insert map_ok_insert)

interpretation hm: dictionary "\<lambda>m. m" hash_insert "\<lambda>_. True"
  by unfold_locales (auto simp: hash_insert_def)

end
