(* ===== verification/Dictionaries.thy ===== *)
theory Dictionaries
  imports Std_Map
begin

text \<open>
  Model of core/core_ad_sizemap.h and .cpp (which creative sizes serve which requested size) and of
  core/core_typetable.cpp (content categories of an exchange to ours).  What a database query
  returns is an argument: the rows read, and whether an \<open>SQLException\<close> came then (at once, or after some rows);
  after an exception the built-in table or the dictionary file is loaded on top of the rows.
\<close>

section \<open>The size map\<close>

type_synonym dim = "int \<times> int"

record ad_size_map =
  sizemap :: "int \<rightharpoonup> (dim \<rightharpoonup> dim list)"
  rsizemap :: "dim \<rightharpoonup> dim"
  sizes_started :: bool

definition MATERIAL_TYPE_PIC :: int where "MATERIAL_TYPE_PIC = 0"
definition MATERIAL_TYPE_VIDEO :: int where "MATERIAL_TYPE_VIDEO = 1"

definition AdSizeMap_new :: ad_size_map where
  "AdSizeMap_new = \<lparr>sizemap = [MATERIAL_TYPE_PIC \<mapsto> Map.empty, MATERIAL_TYPE_VIDEO \<mapsto> Map.empty],
     rsizemap = Map.empty, sizes_started = False\<rparr>"

text \<open>\<open>sizemap[type]\<close> creates an empty inner map for a new type.\<close>

definition size_add :: "dim \<Rightarrow> dim \<Rightarrow> int \<Rightarrow> ad_size_map \<Rightarrow> ad_size_map" where
  "size_add k v ty m =
     (let inner = (case sizemap m ty of Some i \<Rightarrow> i | None \<Rightarrow> Map.empty);
          inner' = (case inner k of Some vs \<Rightarrow> inner(k \<mapsto> vs @ [v]) | None \<Rightarrow> hash_insert k [v] inner)
      in m\<lparr>sizemap := (sizemap m)(ty \<mapsto> inner'), rsizemap := hash_insert v k (rsizemap m)\<rparr>)"

definition size_get :: "dim \<Rightarrow> int \<Rightarrow> ad_size_map \<Rightarrow> dim list" where
  "size_get k ty m =
     (case sizemap m ty of None \<Rightarrow> [k]
      | Some inner \<Rightarrow> (case inner k of Some vs \<Rightarrow> vs | None \<Rightarrow> [k]))"

definition size_rget :: "dim \<Rightarrow> ad_size_map \<Rightarrow> dim" where
  "size_rget k m = (case rsizemap m k of Some r \<Rightarrow> r | None \<Rightarrow> k)"

definition static_sizes :: "(dim \<times> dim \<times> int) list" where
  "static_sizes =
     [((270, 202), (1, 0), 0), ((240, 180), (1, 1), 0), ((360, 234), (1, 2), 0), ((228, 162), (1, 3), 0),
      ((180, 92), (1, 4), 0), ((320, 150), (1, 5), 0), ((200, 100), (1, 6), 0), ((150, 200), (1, 7), 0),
      ((200, 200), (1, 8), 0), ((72, 72), (1, 9), 0), ((160, 160), (1, 10), 0), ((200, 150), (1, 11), 0),
      ((180, 100), (1, 12), 0), ((140, 88), (1, 13), 0), ((984, 328), (2, 0), 0), ((1200, 800), (2, 1), 0),
      ((1280, 720), (2, 2), 0), ((1200, 627), (2, 3), 0), ((800, 1200), (2, 4), 0), ((640, 288), (2, 5), 0),
      ((1000, 560), (2, 6), 0), ((480, 240), (2, 7), 0), ((640, 320), (2, 8), 0), ((1080, 540), (2, 9), 0),
      ((656, 324), (2, 10), 0), ((750, 350), (2, 11), 0), ((900, 450), (2, 12), 0), ((600, 313), (2, 13), 0),
      ((300, 250), (2, 14), 0), ((320, 568), (2, 15), 0), ((720, 240), (2, 16), 0), ((640, 290), (2, 17), 0),
      ((200, 700), (2, 18), 0), ((720, 405), (2, 19), 0), ((720, 360), (2, 20), 0), ((720, 480), (2, 21), 0),
      ((660, 220), (2, 22), 0), ((660, 1136), (2, 23), 0), ((660, 960), (2, 24), 0), ((320, 480), (2, 25), 0),
      ((270, 202), (3, 0), 0), ((160, 160), (3, 1), 0), ((984, 328), (4, 0), MATERIAL_TYPE_VIDEO)]"

definition add_sizes :: "(dim \<times> dim \<times> int) list \<Rightarrow> ad_size_map \<Rightarrow> ad_size_map" where
  "add_sizes rows m = fold (\<lambda>(k, v, ty). size_add k v ty) rows m"

definition initStatic :: "ad_size_map \<Rightarrow> ad_size_map" where
  "initStatic m = add_sizes static_sizes m"

type_synonym 'r query_answer = "'r list \<times> bool"

definition initFromDB :: "(dim \<times> dim) query_answer \<Rightarrow> ad_size_map \<Rightarrow> ad_size_map" where
  "initFromDB ans m =
     (if sizes_started m then m
      else let (rows, failed) = ans;
               m = add_sizes (map (\<lambda>((rw, rh), (w, h)).
                 ((wrap32 rw, wrap32 rh), (wrap32 w, wrap32 h), MATERIAL_TYPE_PIC)) rows) (m\<lparr>sizes_started := True\<rparr>)
           in if failed then initStatic m else m)"

definition size_getInstance :: "(dim \<times> dim) query_answer \<Rightarrow> ad_size_map \<Rightarrow> ad_size_map" where
  "size_getInstance ans m = (if \<not> sizes_started m then initFromDB ans m else m)"

section \<open>Content types\<close>

record content_type_item =
  adxid :: int
  adxContentType :: string
  mttyContentType :: int

record type_table =
  contentTypeDict :: "string \<rightharpoonup> content_type_item"
  types_started :: bool

definition type_key :: "int \<Rightarrow> string \<Rightarrow> string" where
  "type_key adxId adxType = to_string adxId @ '':'' @ adxType"

definition processContentTypeDictFile :: "string \<Rightarrow> content_type_item result" where
  "processContentTypeDictFile line =
     (case split_any ''|'' (cstr line) of
        [a, t, c] \<Rightarrow> bind_result (stoi a) (\<lambda>adx. bind_result (stoi c) (\<lambda>ours.
          Inr \<lparr>adxid = adx, adxContentType = t, mttyContentType = ours\<rparr>))
      | _ \<Rightarrow> Inl (MtError ''process ContentType Dict File''))"

fun load_db_types :: "(int \<times> string \<times> string) list \<Rightarrow> type_table \<Rightarrow> type_table result" where
  "load_db_types [] t = Inr t"
| "load_db_types ((adxId, category, ours) # rows) t =
     bind_result (stoi ours) (\<lambda>c.
       load_db_types rows (t\<lparr>contentTypeDict := hash_insert (type_key adxId category)
         \<lparr>adxid = wrap32 adxId, adxContentType = category, mttyContentType = c\<rparr> (contentTypeDict t)\<rparr>))"

fun load_file_types :: "string list \<Rightarrow> type_table \<Rightarrow> type_table result" where
  "load_file_types [] t = Inr t"
| "load_file_types (l # ls) t =
     bind_result (processContentTypeDictFile l) (\<lambda>item.
       load_file_types ls (t\<lparr>contentTypeDict := hash_insert (type_key (adxid item) (adxContentType item)) item (contentTypeDict t)\<rparr>))"

text \<open>\<open>file\<close> is \<open>None\<close> if it cannot be opened.\<close>

definition loadContentTypeData :: "(int \<times> string \<times> string) query_answer \<Rightarrow> string list option \<Rightarrow> type_table \<Rightarrow> type_table result" where
  "loadContentTypeData ans file t =
     bind_result (load_db_types (fst ans) t) (\<lambda>t.
       if snd ans then (case file of None \<Rightarrow> Inr t | Some ls \<Rightarrow> load_file_types ls t) else Inr t)"

definition types_init :: "(int \<times> string \<times> string) query_answer \<Rightarrow> string list option \<Rightarrow> type_table \<Rightarrow> type_table result" where
  "types_init ans file t =
     (if types_started t then Inr t else loadContentTypeData ans file (t\<lparr>types_started := True\<rparr>))"

definition types_destroy :: "type_table \<Rightarrow> type_table" where
  "types_destroy t = (if types_started t then t\<lparr>types_started := False\<rparr> else t)"

definition getContentType :: "int \<Rightarrow> string \<Rightarrow> type_table \<Rightarrow> int" where
  "getContentType adxId adxType t =
     (case contentTypeDict t (type_key adxId adxType) of Some item \<Rightarrow> mttyContentType item | None \<Rightarrow> 0)"

section \<open>Sizes\<close>

text \<open>What is stored for a requested size and a type.\<close>

definition stored :: "ad_size_map \<Rightarrow> int \<Rightarrow> dim \<Rightarrow> dim list" where
  "stored m ty k = (case sizemap m ty of Some inner \<Rightarrow> (case inner k of Some vs \<Rightarrow> vs | None \<Rightarrow> []) | None \<Rightarrow> [])"

lemma stored_add: "stored (size_add k v ty m) ty' k' = (if ty' = ty \<and> k' = k then stored m ty k @ [v] else stored m ty' k')"
  by (auto simp: stored_def size_add_def Let_def hash_insert_def split: option.splits)

lemma rsizemap_add: "rsizemap (size_add k v ty m) = hash_insert v k (rsizemap m)"
  by (simp add: size_add_def Let_def)

lemma size_get_stored: "stored m ty k \<noteq> [] \<Longrightarrow> size_get k ty m = stored m ty k"
  by (auto simp: stored_def size_get_def split: option.splits)

lemma add_sizes_simps: "add_sizes [] m = m" "add_sizes ((k, v, ty) # rows) m = add_sizes rows (size_add k v ty m)"
  by (simp_all add: add_sizes_def)

lemma stored_add_sizes:
  "stored (add_sizes rows m) ty k = stored m ty k @ [v. (k', v, ty') \<leftarrow> rows, k' = k \<and> ty' = ty]"
  by (induction rows arbitrary: m) (auto simp: add_sizes_simps stored_add)

lemma rsizemap_add_sizes: "rsizemap (add_sizes rows m) = hm.insert_all [(v, k). (k, v, ty) \<leftarrow> rows] (rsizemap m)"
  by (induction rows arbitrary: m) (auto simp: add_sizes_simps rsizemap_add hm.insert_all_def)

text \<open>The two directions agree: a size is served for the requested size it is mapped back to, and every
  size that is served is mapped back.\<close>

definition size_inv :: "ad_size_map \<Rightarrow> bool" where
  "size_inv m \<longleftrightarrow> (\<forall>v k. rsizemap m v = Some k \<longrightarrow> (\<exists>ty. v \<in> set (stored m ty k))) \<and>
     (\<forall>ty k. \<forall>v \<in> set (stored m ty k). rsizemap m v \<noteq> None)"

lemma size_inv_add: "size_inv m \<Longrightarrow> size_inv (size_add k v ty m)"
  unfolding size_inv_def stored_add rsizemap_add hash_insert_def by (auto split: if_splits) metis+

lemma size_inv_add_sizes: "size_inv m \<Longrightarrow> size_inv (add_sizes rows m)"
  by (induction rows arbitrary: m) (auto simp: add_sizes_simps size_inv_add)

lemma size_inv_new: "size_inv AdSizeMap_new"
  by (simp add: size_inv_def AdSizeMap_new_def stored_def MATERIAL_TYPE_PIC_def MATERIAL_TYPE_VIDEO_def split: option.splits)

lemma size_inv_started [simp]: "size_inv (m\<lparr>sizes_started := b\<rparr>) = size_inv m"
  by (simp add: size_inv_def stored_def)

text \<open>C29: the size map keeps its two directions consistent, from the empty map through any initialisation, also one
  that fails after some rows and puts the built-in table on top of them: a size maps back only to a requested size it is served for, and every served size maps back.\<close>

theorem size_map_consistent:
  assumes "m = size_getInstance ans AdSizeMap_new"
  shows "(\<forall>v k. rsizemap m v = Some k \<longrightarrow> (\<exists>ty. v \<in> set (size_get k ty m))) \<and>
    (\<forall>ty k v. v \<in> set (stored m ty k) \<longrightarrow> (\<exists>k'. rsizemap m v = Some k'))"
proof -
  have "size_inv m"
    unfolding assms size_getInstance_def initFromDB_def initStatic_def
    using size_inv_new by (auto simp: Let_def size_inv_add_sizes split: prod.split)
  then have inv: "\<And>v k. rsizemap m v = Some k \<Longrightarrow> \<exists>ty. v \<in> set (stored m ty k)"
    "\<And>ty k v. v \<in> set (stored m ty k) \<Longrightarrow> rsizemap m v \<noteq> None"
    unfolding size_inv_def by blast+
  have "v \<in> set (size_get k ty m)" if "v \<in> set (stored m ty k)" for v k ty
    using that size_get_stored [of m ty k] by (cases "stored m ty k") auto
  with inv show ?thesis by (meson not_None_eq)
qed

theorem size_map_consistent_witness:
  "\<exists>ty. (2, 25) \<in> set (size_get (320, 568) ty (size_getInstance ([((320, 568), (2, 25))], True) AdSizeMap_new))"
proof -
  have "rsizemap (size_getInstance ([((320, 568), (2, 25))], True) AdSizeMap_new) (2, 25) = Some (320, 568)"
    by (simp add: size_getInstance_def initFromDB_def initStatic_def static_sizes_def AdSizeMap_new_def add_sizes_simps rsizemap_add
        hash_insert_def wrap32_id int_limits)
  then show ?thesis using size_map_consistent [OF refl, of "([((320, 568), (2, 25))], True)"] by blast
qed

lemma row_stored: "(k, v, ty) \<in> set rows \<Longrightarrow> v \<in> set [v. (k', v, ty') \<leftarrow> rows, k' = k \<and> ty' = ty]"
  by (induction rows) auto

text \<open>when no size occurs twice in the rows (as in the built-in table), every row is found in both
  directions: \<open>get\<close> of the requested size offers the row's size and \<open>rget\<close> of that size gives the request back.\<close>

theorem size_rows_found:
  assumes "distinct (map (\<lambda>(k, v, ty). v) rows)" "(k, v, ty) \<in> set rows"
  shows "v \<in> set (size_get k ty (add_sizes rows AdSizeMap_new)) \<and> size_rget v (add_sizes rows AdSizeMap_new) = k"
proof -
  let ?m = "add_sizes rows AdSizeMap_new"
  have "v \<in> set (stored ?m ty k)" unfolding stored_add_sizes set_append using row_stored [OF assms(2)] by (rule UnI2)
  then have "v \<in> set (size_get k ty ?m)" using size_get_stored [of ?m ty k] by (cases "stored ?m ty k") auto
  moreover have "map_of [(v, k). (k, v, ty) \<leftarrow> rows] v = Some k"
  proof (rule map_of_is_SomeI)
    have "map fst [(v, k). (k, v, ty) \<leftarrow> rows] = map (\<lambda>(k, v, ty). v) rows" by (auto simp: case_prod_unfold)
    with assms(1) show "distinct (map fst [(v, k). (k, v, ty) \<leftarrow> rows])" by metis
    show "(v, k) \<in> set [(v, k). (k, v, ty) \<leftarrow> rows]" using assms(2) by (auto intro!: image_eqI [OF _ assms(2)])
  qed
  then have "rsizemap ?m v = Some k"
    by (simp add: rsizemap_add_sizes hm.lookup_insert_all AdSizeMap_new_def)
  ultimately show ?thesis by (simp add: size_rget_def)
qed

theorem size_rows_found_witness:
  "(2, 25) \<in> set (size_get (320, 480) 0 (initStatic AdSizeMap_new)) \<and> size_rget (2, 25) (initStatic AdSizeMap_new) = (320, 480)"
proof -
  have "distinct (map (\<lambda>(k, v, ty). v) static_sizes)" by (simp add: static_sizes_def)
  moreover have "((320, 480), (2, 25), 0) \<in> set static_sizes" by (simp add: static_sizes_def)
  ultimately show ?thesis unfolding initStatic_def by (rule size_rows_found)
qed

section \<open>Content types\<close>

lemma type_key_inject: "type_key a s = type_key b t \<longleftrightarrow> a = b \<and> s = t"
proof
  assume eq: "type_key a s = type_key b t"
  have no: "CHR '':'' \<notin> set (to_string i)" for i
    using set_to_string [of "CHR '':''" i] by (auto simp: is_digit_char_def)
  then have "takeWhile (\<lambda>c. c \<noteq> CHR '':'') (type_key i u) = to_string i" for i u
    by (auto simp: type_key_def takeWhile_append)
  then have "a = b" using eq by (metis to_string_inject)
  with eq show "a = b \<and> s = t" by (simp add: type_key_def)
qed simp

lemma load_db_types_dict:
  "load_db_types rows t = Inr t' \<Longrightarrow> contentTypeDict t' = hm.insert_all
     [(type_key a c, \<lparr>adxid = wrap32 a, adxContentType = c, mttyContentType = projr (stoi ours)\<rparr>). (a, c, ours) \<leftarrow> rows] (contentTypeDict t)"
  by (induction rows t rule: load_db_types.induct) (auto simp: bind_result_eq_Inr hm.insert_all_def)

text \<open>after loading the rows of the category table, \<open>getContentType\<close> returns our category of the first
  row for that exchange and that category, and 0 if there is none: different pairs never share a key.\<close>

theorem getContentType_rows:
  assumes "load_db_types rows \<lparr>contentTypeDict = Map.empty, types_started = True\<rparr> = Inr t"
  shows "getContentType adx c t =
    (case map_of [((a, cat), ours). (a, cat, ours) \<leftarrow> rows] (adx, c) of Some ours \<Rightarrow> projr (stoi ours) | None \<Rightarrow> 0)"
proof -
  have "map_of [(type_key a c, \<lparr>adxid = wrap32 a, adxContentType = c, mttyContentType = projr (stoi ours)\<rparr>). (a, c, ours) \<leftarrow> rows]
      (type_key adx c) = map_option (\<lambda>ours. \<lparr>adxid = wrap32 adx, adxContentType = c, mttyContentType = projr (stoi ours)\<rparr>)
        (map_of [((a, cat), ours). (a, cat, ours) \<leftarrow> rows] (adx, c))"
    by (induction rows) (auto simp: type_key_inject)
  then show ?thesis
    using load_db_types_dict [OF assms] by (simp add: getContentType_def hm.lookup_insert_all split: option.split)
qed

theorem getContentType_rows_witness:
  "\<exists>t. load_db_types [(4, ''news'', to_string 12), (4, ''news'', to_string 99)]
        \<lparr>contentTypeDict = Map.empty, types_started = True\<rparr> = Inr t \<and> getContentType 4 ''news'' t = 12"
proof -
  obtain t where t: "load_db_types [(4, ''news'', to_string 12), (4, ''news'', to_string 99)]
      \<lparr>contentTypeDict = Map.empty, types_started = True\<rparr> = Inr t"
    by (simp add: int_limits)
  from getContentType_rows [OF t, of 4 "''news''"] t show ?thesis by (simp add: int_limits)
qed

end
