(* ===== verification/Floating.thy ===== *)
theory Floating
  imports Prelude Complex_Main "HOL-Library.Log_Nat"
begin

text \<open>
  The floating-point numbers of C++ on x86-64: a value of \<open>float\<close> or \<open>double\<close> is a rational, an infinity
  (negative or not) or NaN; operations round to nearest, ties to even.  The sign of a zero, which no code here reads,
  is not kept.  The conversions \<open>stod\<close> and \<open>stof\<close> of the standard library are the ones of glibc's \<open>strtod\<close>.
\<close>

section \<open>Rounding\<close>

datatype dbl = Fin rat | Inf bool | NaN

definition round_int :: "rat \<Rightarrow> int" where
  "round_int q = (let f = \<lfloor>q\<rfloor>; r = q - of_int f in if r < 1 / 2 \<or> r = 1 / 2 \<and> even f then f else f + 1)"

definition log2_floor :: "rat \<Rightarrow> int" where
  "log2_floor q =
     (let (n, d) = quotient_of q; k = int (floorlog 2 (nat n)) - int (floorlog 2 (nat d))
      in if 2 powi k \<le> q then k else k - 1)"

text \<open>\<open>p\<close> bits of precision, the least exponent \<open>emin\<close> of the last bit, overflow from \<open>2 powi emax\<close> on.\<close>

definition round_mag :: "int \<Rightarrow> int \<Rightarrow> rat \<Rightarrow> rat" where
  "round_mag p emin a =
     (if a = 0 then 0
      else let e = max emin (log2_floor a - (p - 1)) in of_int (round_int (a / 2 powi e)) * 2 powi e)"

definition round_fp :: "int \<Rightarrow> int \<Rightarrow> int \<Rightarrow> rat \<Rightarrow> dbl" where
  "round_fp p emin emax q =
     (let r = round_mag p emin \<bar>q\<bar>
      in if 2 powi emax \<le> r then Inf (q < 0) else Fin (if q < 0 then - r else r))"

definition round_double :: "rat \<Rightarrow> dbl" where
  "round_double = round_fp 53 (-1074) 1024"

definition round_float :: "rat \<Rightarrow> dbl" where
  "round_float = round_fp 24 (-149) 128"

text \<open>Multiplication; division (by zero it is not used); comparison; conversion to \<open>int\<close>, where the
  instruction gives the least number for what does not fit.\<close>

fun dbl_mul :: "dbl \<Rightarrow> dbl \<Rightarrow> dbl" where
  "dbl_mul (Fin a) (Fin b) = round_double (a * b)"
| "dbl_mul (Inf n) (Fin b) = (if b = 0 then NaN else Inf (n \<noteq> (b < 0)))"
| "dbl_mul (Fin a) (Inf n) = (if a = 0 then NaN else Inf (n \<noteq> (a < 0)))"
| "dbl_mul (Inf m) (Inf n) = Inf (m \<noteq> n)"
| "dbl_mul NaN y = NaN"
| "dbl_mul x NaN = NaN"

fun dbl_div :: "dbl \<Rightarrow> dbl \<Rightarrow> dbl" where
  "dbl_div (Fin a) (Fin b) = round_double (a / b)"
| "dbl_div (Inf n) (Fin b) = Inf (n \<noteq> (b < 0))"
| "dbl_div (Fin a) (Inf n) = Fin 0"
| "dbl_div (Inf m) (Inf n) = NaN"
| "dbl_div NaN y = NaN"
| "dbl_div x NaN = NaN"

fun dbl_le :: "dbl \<Rightarrow> dbl \<Rightarrow> bool" where
  "dbl_le (Fin a) (Fin b) \<longleftrightarrow> a \<le> b"
| "dbl_le (Inf n) (Fin b) \<longleftrightarrow> n"
| "dbl_le (Fin a) (Inf n) \<longleftrightarrow> \<not> n"
| "dbl_le (Inf m) (Inf n) \<longleftrightarrow> m \<or> \<not> n"
| "dbl_le NaN y \<longleftrightarrow> False"
| "dbl_le x NaN \<longleftrightarrow> False"

fun dbl_ceil :: "dbl \<Rightarrow> dbl" where
  "dbl_ceil (Fin a) = Fin (of_int \<lceil>a\<rceil>)" | "dbl_ceil x = x"

fun dbl_to_int :: "dbl \<Rightarrow> int" where
  "dbl_to_int (Fin a) =
     (let t = (if a < 0 then \<lceil>a\<rceil> else \<lfloor>a\<rfloor>) in if int32_min \<le> t \<and> t \<le> int32_max then t else int32_min)"
| "dbl_to_int x = int32_min"

section \<open>Reading numbers\<close>

definition lower_char :: "char \<Rightarrow> char" where
  "lower_char c = (if 65 \<le> (of_char c :: nat) \<and> of_char c \<le> (90 :: nat) then char_of (of_char c + 32 :: nat) else c)"

definition hex_digit_val :: "char \<Rightarrow> nat option" where
  "hex_digit_val c =
     (let n = of_char (lower_char c) in
      if 48 \<le> n \<and> n \<le> 57 then Some (n - 48) else if 97 \<le> n \<and> n \<le> 102 then Some (n - 87) else None)"

definition dec_digit_val :: "char \<Rightarrow> nat option" where
  "dec_digit_val c = (if is_digit_char c then Some (of_char c - 48) else None)"

definition digits_in :: "(char \<Rightarrow> nat option) \<Rightarrow> int \<Rightarrow> string \<Rightarrow> int" where
  "digits_in dv b ds = foldl (\<lambda>a c. a * b + int (the (dv c))) 0 ds"

text \<open>The exponent part after the letter \<open>l\<close>; without digits there is none.\<close>

definition exponent_part :: "char \<Rightarrow> string \<Rightarrow> int" where
  "exponent_part l s =
     (case s of [] \<Rightarrow> 0
      | c # s1 \<Rightarrow>
          if lower_char c \<noteq> l then 0
          else let neg = (s1 \<noteq> [] \<and> hd s1 = CHR ''-'');
                   s2 = (if s1 \<noteq> [] \<and> (hd s1 = CHR ''-'' \<or> hd s1 = CHR ''+'') then tl s1 else s1);
                   v = digits_in dec_digit_val 10 (takeWhile is_digit_char s2)
               in if neg then - v else v)"

text \<open>Digits, a point, digits, an exponent: digits in base \<open>b\<close>, each worth \<open>b = 2 powi k\<close> or ten.\<close>

definition mantissa :: "(char \<Rightarrow> nat option) \<Rightarrow> string \<Rightarrow> string \<times> string \<times> string" where
  "mantissa dv s =
     (let isd = (\<lambda>c. dv c \<noteq> None); ds = takeWhile isd s; s1 = dropWhile isd s
      in if s1 \<noteq> [] \<and> hd s1 = CHR ''.'' then (ds, takeWhile isd (tl s1), dropWhile isd (tl s1)) else (ds, [], s1))"

definition read_decimal :: "string \<Rightarrow> rat option" where
  "read_decimal s =
     (let (ds, fs, s1) = mantissa dec_digit_val s
      in if ds @ fs = [] then None
         else Some (of_int (digits_in dec_digit_val 10 (ds @ fs)) * 10 powi (exponent_part CHR ''e'' s1 - int (length fs))))"

definition read_hex :: "string \<Rightarrow> rat option" where
  "read_hex s =
     (let (ds, fs, s1) = mantissa hex_digit_val s
      in if ds @ fs = [] then None
         else Some (of_int (digits_in hex_digit_val 16 (ds @ fs)) * 2 powi (exponent_part CHR ''p'' s1 - 4 * int (length fs))))"

definition strtod_value :: "string \<Rightarrow> dbl option" where
  "strtod_value s =
     (let s1 = dropWhile is_space_char (cstr s);
          neg = (s1 \<noteq> [] \<and> hd s1 = CHR ''-'');
          s2 = (if s1 \<noteq> [] \<and> (hd s1 = CHR ''-'' \<or> hd s1 = CHR ''+'') then tl s1 else s1);
          word = map lower_char (take 3 s2);
          num = (case (if map lower_char (take 2 s2) = ''0x'' then read_hex (drop 2 s2) else None) of
                   Some q \<Rightarrow> Some q | None \<Rightarrow> read_decimal s2)
      in if word = ''inf'' then Some (Inf neg) else if word = ''nan'' then Some NaN
         else map_option (\<lambda>q. Fin (if neg then - q else q)) num)"

text \<open>Overflow, and an inexact result below the normal numbers, set \<open>errno\<close> to \<open>ERANGE\<close>.\<close>

definition tiny :: "int \<Rightarrow> int \<Rightarrow> rat \<Rightarrow> bool" where
  "tiny p emin q \<longleftrightarrow>
     (let e = log2_floor \<bar>q\<bar> - (p - 1) in of_int (round_int (\<bar>q\<bar> / 2 powi e)) * 2 powi e < (2 powi (emin + p - 1) :: rat))"

definition sto_fp :: "int \<Rightarrow> int \<Rightarrow> int \<Rightarrow> string \<Rightarrow> dbl result" where
  "sto_fp p emin emax s =
     (case strtod_value s of None \<Rightarrow> Inl InvalidArgument
      | Some (Fin q) \<Rightarrow> (case round_fp p emin emax q of
            Fin r \<Rightarrow> if q \<noteq> 0 \<and> tiny p emin q \<and> r \<noteq> q then Inl OutOfRange else Inr (Fin r)
          | _ \<Rightarrow> Inl OutOfRange)
      | Some x \<Rightarrow> Inr x)"

definition stod :: "string \<Rightarrow> dbl result" where
  "stod = sto_fp 53 (-1074) 1024"

definition stof :: "string \<Rightarrow> dbl result" where
  "stof = sto_fp 24 (-149) 128"

section \<open>Rounding and integers\<close>

lemma round_int_mono: "p \<le> q \<Longrightarrow> round_int p \<le> round_int q"
  unfolding round_int_def Let_def by (cases "\<lfloor>p\<rfloor> = \<lfloor>q\<rfloor>") (auto, linarith+)

lemma round_int_of_int [simp]: "round_int (of_int n) = n"
  by (simp add: round_int_def)

lemma powi_between:
  assumes "0 < n"
  defines "a \<equiv> int (floorlog 2 (nat n))"
  shows "(2 :: rat) powi (a - 1) \<le> of_int n" "of_int n < (2 :: rat) powi a"
proof -
  let ?a = "floorlog 2 (nat n)"
  have b: "2 ^ (?a - 1) \<le> nat n" "nat n < 2 ^ ?a" using floorlog_bounds [of "nat n" 2] assms(1) by auto
  have n: "of_int n = (of_nat (nat n) :: rat)" using assms(1) by simp
  have "of_nat (2 ^ (?a - 1)) \<le> (of_nat (nat n) :: rat)" "(of_nat (nat n) :: rat) < of_nat (2 ^ ?a)"
    using b by (simp_all only: of_nat_le_iff of_nat_less_iff)
  then have le: "(2 :: rat) ^ (?a - 1) \<le> of_int n" and less: "of_int n < (2 :: rat) ^ ?a"
    unfolding n by (simp_all only: of_nat_power of_nat_numeral)
  have "?a \<noteq> 0" using assms(1) by (simp add: floorlog_eq_zero_iff)
  then have "a - 1 = int (?a - 1)" by (simp add: a_def)
  then show "(2 :: rat) powi (a - 1) \<le> of_int n" using le by (simp only: power_int_of_nat)
  show "of_int n < (2 :: rat) powi a" using less by (simp add: a_def)
qed

lemma log2_floor:
  assumes "0 < q"
  shows "2 powi log2_floor q \<le> q" "q < 2 powi (log2_floor q + 1)"
proof -
  obtain n d where nd: "quotient_of q = (n, d)" by force
  have q: "q = of_int n / of_int d" and d: "0 < d" using quotient_of_div [OF nd] quotient_of_denom_pos [OF nd] by auto
  have n: "0 < n" using assms q d by (simp add: zero_less_divide_iff)
  define a b where "a = int (floorlog 2 (nat n))" and "b = int (floorlog 2 (nat d))"
  note N = powi_between [OF n, folded a_def] and D = powi_between [OF d, folded b_def]
  have "(2 :: rat) powi (a - b + 1) = 2 powi a / 2 powi (b - 1)" "(2 :: rat) powi (a - b - 1) = 2 powi (a - 1) / 2 powi b"
    using power_int_diff [of "2 :: rat" a "b - 1"] power_int_diff [of "2 :: rat" "a - 1" b] by (simp_all add: algebra_simps)
  moreover have "of_int n / of_int d < (2 :: rat) powi a / 2 powi (b - 1)" by (rule frac_less) (use N D n in simp_all)
  moreover have "(2 :: rat) powi (a - 1) / 2 powi b \<le> of_int n / of_int d" by (rule frac_le) (use N D n d in simp_all)
  ultimately have "q < 2 powi (a - b + 1)" "2 powi (a - b - 1) \<le> q" unfolding q by simp_all
  then show "2 powi log2_floor q \<le> q" "q < 2 powi (log2_floor q + 1)"
    by (auto simp: log2_floor_def nd Let_def a_def b_def)
qed

text \<open>Rounding a nonnegative number does not pass an integer that has few enough bits.\<close>

lemma round_mag_int_bounds:
  assumes q: "0 \<le> q" and v: "0 \<le> v" "v < 2 ^ 53"
  defines "r \<equiv> round_mag 53 (-1074) q"
  shows "of_int v \<le> q \<Longrightarrow> of_int v \<le> r" "q \<le> of_int v \<Longrightarrow> r \<le> of_int v"
proof -
  define e where "e = max (-1074) (log2_floor q - 52)"
  define z where "z = (2 :: rat) powi e"
  have z: "0 < z" by (simp add: z_def)
  have zero: "q = 0 \<Longrightarrow> r = 0" by (simp add: r_def round_mag_def)
  have rq: "q \<noteq> 0 \<Longrightarrow> r = of_int (round_int (q / z)) * z"
    by (simp add: r_def round_mag_def Let_def e_def z_def)
  have "\<exists>w. of_int v = of_int w * z" if "e \<le> 0"
    using that by (intro exI [of _ "v * 2 ^ nat (- e)"]) (simp add: z_def power_int_def flip: power_mult_distrib)
  then consider (exact) w where "of_int v = of_int w * z" | (coarse) "0 < e" by fastforce
  note cases = this
  have big: "2 ^ 52 * z \<le> q \<and> 2 ^ 53 \<le> 2 ^ 52 * z" if "0 < e" "q \<noteq> 0"
  proof -
    have "log2_floor q = 52 + e" using that q by (simp add: e_def max_def split: if_splits)
    moreover have "(2 :: rat) powi (52 + e) = 2 ^ 52 * z" by (simp add: z_def power_int_add)
    moreover have "(2 :: rat) powi 1 \<le> z" unfolding z_def by (rule power_int_increasing) (use that in simp_all)
    ultimately show ?thesis using log2_floor(1) [of q] that q by simp
  qed
  have v': "of_int v < (2 ^ 53 :: rat)" using v(2) by (metis of_int_less_iff of_int_numeral of_int_power)
  show "of_int v \<le> r" if le: "of_int v \<le> q"
  proof (cases "q = 0")
    case False
    from cases show ?thesis
    proof cases
      case exact
      then have "of_int w \<le> q / z" using le z by (simp add: pos_le_divide_eq)
      from round_int_mono [OF this] show ?thesis using exact z False by (simp add: rq)
    next
      case coarse
      from big [OF this False] have "of_int (2 ^ 52) \<le> q / z" using z by (simp add: pos_le_divide_eq)
      from round_int_mono [OF this] have "of_int (2 ^ 52) \<le> (of_int (round_int (q / z)) :: rat)"
        unfolding round_int_of_int of_int_le_iff .
      then have "of_int (2 ^ 52) * z \<le> r" unfolding rq [OF False] by (rule mult_right_mono) (use z in simp)
      then show ?thesis using big [OF coarse False] v' unfolding of_int_power of_int_numeral by linarith
    qed
  qed (use zero v le in simp)
  show "r \<le> of_int v" if le: "q \<le> of_int v"
  proof (cases "q = 0")
    case False
    from cases show ?thesis
    proof cases
      case exact
      then have "q / z \<le> of_int w" using le z by (simp add: pos_divide_le_eq)
      from round_int_mono [OF this] show ?thesis using exact z False by (simp add: rq)
    next
      case coarse
      from big [OF this False] show ?thesis using v' le by linarith
    qed
  qed (use zero v in simp)
qed

lemma round_double_small:
  assumes "0 \<le> q" "q \<le> of_int v" "v < 2 ^ 53"
  shows "round_double q = Fin (round_mag 53 (-1074) q)"
proof -
  have v: "0 \<le> v" using assms(1,2) by (metis of_int_0_le_iff order_trans)
  have "round_mag 53 (-1074) q \<le> of_int v" by (rule round_mag_int_bounds(2)) (use assms v in auto)
  moreover have "of_int v < (2 ^ 53 :: rat)" using assms(3) by (metis of_int_less_iff of_int_numeral of_int_power)
  moreover have "(2 :: rat) ^ 53 \<le> 2 powi 1024" by simp
  ultimately show ?thesis using assms(1) by (simp add: round_double_def round_fp_def Let_def)
qed

text \<open>The ceiling of a rounded product is the ceiling of the product or one less.\<close>

lemma ceiling_round_mag:
  assumes "0 \<le> q" "\<lceil>q\<rceil> < 2 ^ 53"
  shows "\<lfloor>q\<rfloor> \<le> \<lceil>round_mag 53 (-1074) q\<rceil>" "\<lceil>round_mag 53 (-1074) q\<rceil> \<le> \<lceil>q\<rceil>"
proof -
  have "\<lfloor>q\<rfloor> \<le> \<lceil>q\<rceil>" by (rule floor_le_ceiling)
  then have "of_int \<lfloor>q\<rfloor> \<le> round_mag 53 (-1074) q" by (intro round_mag_int_bounds(1)) (use assms in auto)
  then show "\<lfloor>q\<rfloor> \<le> \<lceil>round_mag 53 (-1074) q\<rceil>" by linarith
  have "round_mag 53 (-1074) q \<le> of_int \<lceil>q\<rceil>" by (rule round_mag_int_bounds(2)) (use assms in auto)
  then show "\<lceil>round_mag 53 (-1074) q\<rceil> \<le> \<lceil>q\<rceil>" by (simp add: ceiling_le_iff)
qed

end
