(* ===== verification/Struct_Codec.thy ===== *)
theory Struct_Codec
  imports Codec "HOL-Library.Multiset"
begin

text \<open>
  Serialisation of a struct field by field, as the code generated from an Avro schema does it: \<open>encode\<close>
  writes the fields in their numbered order; \<open>decode\<close> reads them in that order or, for a resolving
  decoder, in the order of the writer's schema.  \<open>struct_codec\<close> is the contract of a list of fields under
  which both undo \<open>encode\<close>; each struct of protocol/log/log.h is an instance.
\<close>

section \<open>Fields\<close>

record 'r field =
  enc_field :: "'r \<Rightarrow> byte list"
  dec_field :: "'r \<Rightarrow> byte list \<Rightarrow> ('r \<times> byte list) result"

text \<open>The decoder of a field gets the field's present value, into which a nested struct is decoded.\<close>

definition mk_field :: "('v \<Rightarrow> byte list) \<Rightarrow> ('v \<Rightarrow> byte list \<Rightarrow> ('v \<times> byte list) result) \<Rightarrow>
    ('r \<Rightarrow> 'v) \<Rightarrow> (('v \<Rightarrow> 'v) \<Rightarrow> 'r \<Rightarrow> 'r) \<Rightarrow> 'r field" where
  "mk_field enc dec get upd = \<lparr>enc_field = (\<lambda>v. enc (get v)),
     dec_field = (\<lambda>r bs. bind_result (dec (get r) bs) (\<lambda>(x, bs'). Inr (upd (\<lambda>_. x) r, bs')))\<rparr>"

text \<open>\<open>encode\<close>: all fields in order; \<open>order\<close> is the field order of the writer.\<close>

definition struct_encode :: "'r field list \<Rightarrow> nat list \<Rightarrow> 'r \<Rightarrow> byte list" where
  "struct_encode fs order v = concat (map (\<lambda>i. enc_field (fs ! i) v) order)"

text \<open>The loop over the field order; \<open>default: break\<close> skips an unknown number.\<close>

fun struct_decode :: "'r field list \<Rightarrow> nat list \<Rightarrow> 'r \<Rightarrow> byte list \<Rightarrow> ('r \<times> byte list) result" where
  "struct_decode fs [] r bs = Inr (r, bs)"
| "struct_decode fs (i # order) r bs =
     (if i < length fs then bind_result (dec_field (fs ! i) r bs) (\<lambda>(r', bs'). struct_decode fs order r' bs')
      else struct_decode fs order r bs)"

definition schema_order :: "'r field list \<Rightarrow> nat list" where
  "schema_order fs = [0..<length fs]"

text \<open>\<open>decode\<close> of a generated struct: \<open>fo\<close> is the field order of a resolving decoder, \<open>None\<close> for a plain one.\<close>

definition decode_struct :: "'r field list \<Rightarrow> nat list option \<Rightarrow> 'r \<Rightarrow> byte list \<Rightarrow> ('r \<times> byte list) result" where
  "decode_struct fs fo r bs = struct_decode fs (case fo of Some order \<Rightarrow> order | None \<Rightarrow> schema_order fs) r bs"

definition copy_field :: "('r \<Rightarrow> 'v) \<Rightarrow> (('v \<Rightarrow> 'v) \<Rightarrow> 'r \<Rightarrow> 'r) \<Rightarrow> 'r \<Rightarrow> 'r \<Rightarrow> 'r" where
  "copy_field get upd v r = upd (\<lambda>_. get v) r"

lemma enc_mk_field [simp]: "enc_field (mk_field enc dec get upd) v = enc (get v)"
  by (simp add: mk_field_def)

lemma dec_mk_field:
  "dec (get r) bs = Inr (x, bs') \<Longrightarrow> dec_field (mk_field enc dec get upd) r bs = Inr (upd (\<lambda>_. x) r, bs')"
  by (simp add: mk_field_def)

lemma dec_mk_field_eq_Inr:
  "dec_field (mk_field enc dec get upd) r bs = Inr (r', bs') \<longleftrightarrow>
     (\<exists>x. dec (get r) bs = Inr (x, bs') \<and> r' = upd (\<lambda>_. x) r)"
  by (auto simp: mk_field_def bind_result_eq_Inr)

lemma mk_field_keeps:
  assumes "\<And>r bs x bs'. dec (get r) bs = Inr (x, bs') \<Longrightarrow> valid r \<Longrightarrow> valid (upd (\<lambda>_. x) r)"
  shows "\<forall>r bs r' bs'. valid r \<longrightarrow> dec_field (mk_field enc dec get upd) r bs = Inr (r', bs') \<longrightarrow> valid r'"
  using assms by (auto simp: dec_mk_field_eq_Inr)

section \<open>The contract\<close>

text \<open>
  \<open>copies ! i v r\<close> is \<open>r\<close> with field \<open>i\<close> taken from \<open>v\<close>.  The copies commute and all of them together give \<open>v\<close>.
  \<open>ok\<close> is what the laws may assume of the primitive encoders.
\<close>

locale struct_codec =
  fixes ok :: bool and valid :: "'r \<Rightarrow> bool" and fs :: "'r field list" and copies :: "('r \<Rightarrow> 'r \<Rightarrow> 'r) list"
  assumes copies_length: "length copies = length fs"
    and field_laws: "ok \<Longrightarrow> list_all2 (\<lambda>f c. \<forall>v r rest. valid v \<longrightarrow>
      dec_field f r (enc_field f v @ rest) = Inr (c v r, rest)) fs copies"
    and field_valids: "ok \<Longrightarrow> list_all (\<lambda>f. \<forall>r bs r' bs'. valid r \<longrightarrow>
      dec_field f r bs = Inr (r', bs') \<longrightarrow> valid r') fs"
    and commute: "sorted_wrt (\<lambda>c d. \<forall>v r. c v (d v r) = d v (c v r)) copies"
    and all_copied: "fold (\<lambda>c. c v) copies r = v"
begin

lemma field_law: "ok \<Longrightarrow> valid v \<Longrightarrow> i < length fs \<Longrightarrow>
    dec_field (fs ! i) r (enc_field (fs ! i) v @ rest) = Inr ((copies ! i) v r, rest)"
  using list_all2_nthD [OF field_laws] by simp

lemma field_valid: "ok \<Longrightarrow> valid r \<Longrightarrow> i < length fs \<Longrightarrow> dec_field (fs ! i) r bs = Inr (r', bs') \<Longrightarrow> valid r'"
  using field_valids unfolding list_all_length by blast

lemma commuting: "i < length fs \<Longrightarrow> j < length fs \<Longrightarrow> (copies ! i) v ((copies ! j) v r) = (copies ! j) v ((copies ! i) v r)"
  using commute unfolding sorted_wrt_iff_nth_less copies_length by (metis linorder_less_linear)

lemma decode_copies:
  "ok \<Longrightarrow> valid v \<Longrightarrow> set order \<subseteq> {..<length fs} \<Longrightarrow>
    struct_decode fs order r (struct_encode fs order v @ rest) = Inr (fold (\<lambda>i. (copies ! i) v) order r, rest)"
  by (induction order arbitrary: r) (simp_all add: struct_encode_def field_law)

lemma copies_permuted:
  assumes "mset order = mset [0..<length fs]"
  shows "fold (\<lambda>i. (copies ! i) v) order r = v"
proof -
  have s: "set order = {..<length fs}" using mset_eq_setD [OF assms] by (simp add: atLeast_upt)
  have "fold (\<lambda>i. (copies ! i) v) order = fold (\<lambda>i. (copies ! i) v) [0..<length fs]"
    by (rule fold_multiset_equiv [OF _ assms]) (simp add: fun_eq_iff s commuting)
  also have "\<dots> = fold (\<lambda>c. c v) (map ((!) copies) [0..<length copies])"
    by (simp add: fold_map comp_def copies_length)
  also have "map ((!) copies) [0..<length copies] = copies" by (rule map_nth)
  finally show ?thesis using all_copied by simp
qed

text \<open>Decoding keeps a struct well-typed, whatever the input.\<close>

lemma decode_valid: "ok \<Longrightarrow> valid r \<Longrightarrow> struct_decode fs order r bs = Inr (r', bs') \<Longrightarrow> valid r'"
  by (induction order arbitrary: r bs) (auto simp: bind_result_eq_Inr dest: field_valid split: if_splits)

lemma decode_struct_valid: "ok \<Longrightarrow> valid r \<Longrightarrow> decode_struct fs fo r bs = Inr (v, rest) \<Longrightarrow> valid v"
  unfolding decode_struct_def by (rule decode_valid)

text \<open>A resolving decoder restores the struct from any order of the fields.\<close>

lemma resolving_round_trip:
  assumes ok "valid v" "mset order = mset [0..<length fs]"
  shows "decode_struct fs (Some order) r (struct_encode fs order v @ rest) = Inr (v, rest)"
proof -
  have "set order \<subseteq> {..<length fs}" using mset_eq_setD [OF assms(3)] by (simp add: atLeast_upt)
  then show ?thesis using decode_copies copies_permuted assms by (simp add: decode_struct_def)
qed

lemma round_trip: "ok \<Longrightarrow> valid v \<Longrightarrow> decode_struct fs None r (struct_encode fs (schema_order fs) v @ rest) = Inr (v, rest)"
  using resolving_round_trip [of v "schema_order fs"] by (simp add: decode_struct_def schema_order_def)

lemma ordered_round_trip:
  assumes ok "valid v" "\<forall>order. fo = Some order \<longrightarrow> mset order = mset [0..<length fs]"
  shows "decode_struct fs fo r (struct_encode fs (case fo of Some order \<Rightarrow> order | None \<Rightarrow> schema_order fs) v @ rest) = Inr (v, rest)"
  using assms round_trip resolving_round_trip by (cases fo) auto

end

end
