(* ===== verification/Log_Item.thy ===== *)
theory Log_Item
  imports Struct_Codec Complex_Main
begin

text \<open>
  Model of protocol/log/log.h, the log record every request task fills and pushes: its structs, their
  default constructors and the Avro \<open>encode\<close> and \<open>decode\<close> of each, the enumeration of phases and the
  union.  A \<open>double\<close> is stored by its 64 bits.  The primitive encoders and decoders of the Avro library are a parameter; \<open>avro_ok\<close> states what
  the library documents of them.  A resolving decoder asks for the field order of every struct it meets;
  \<open>field_orders\<close> holds them (\<open>None\<close>: a plain decoder).
\<close>

section \<open>The Avro library\<close>

record avro =
  e_int :: "int \<Rightarrow> byte list"
  d_int :: "byte list \<Rightarrow> (int \<times> byte list) result"
  e_long :: "int \<Rightarrow> byte list"
  d_long :: "byte list \<Rightarrow> (int \<times> byte list) result"
  e_string :: "string \<Rightarrow> byte list"
  d_string :: "byte list \<Rightarrow> (string \<times> byte list) result"
  e_enum :: "nat \<Rightarrow> byte list"
  d_enum :: "byte list \<Rightarrow> (nat \<times> byte list) result"
  e_union :: "nat \<Rightarrow> byte list"
  d_union :: "byte list \<Rightarrow> (nat \<times> byte list) result"
  e_ints :: "int list \<Rightarrow> byte list"
  d_ints :: "byte list \<Rightarrow> (int list \<times> byte list) result"
  e_strings :: "string list \<Rightarrow> byte list"
  d_strings :: "byte list \<Rightarrow> (string list \<times> byte list) result"
  e_doubles :: "u64 list \<Rightarrow> byte list"
  d_doubles :: "byte list \<Rightarrow> (u64 list \<times> byte list) result"

definition is_int32 :: "int \<Rightarrow> bool" where
  "is_int32 i \<longleftrightarrow> int32_min \<le> i \<and> i \<le> int32_max"

definition is_int64 :: "int \<Rightarrow> bool" where
  "is_int64 i \<longleftrightarrow> int64_min \<le> i \<and> i \<le> int64_max"

text \<open>Decoding what was encoded gives it back and leaves the rest; integers come out in their range.\<close>

definition avro_in_range :: "avro \<Rightarrow> bool" where
  "avro_in_range a \<longleftrightarrow>
     (\<forall>bs x rest. d_int a bs = Inr (x, rest) \<longrightarrow> is_int32 x) \<and>
     (\<forall>bs x rest. d_long a bs = Inr (x, rest) \<longrightarrow> is_int64 x) \<and>
     (\<forall>bs x rest. d_ints a bs = Inr (x, rest) \<longrightarrow> list_all is_int32 x)"

definition avro_ok :: "avro \<Rightarrow> bool" where
  "avro_ok a \<longleftrightarrow>
     (\<forall>x rest. is_int32 x \<longrightarrow> d_int a (e_int a x @ rest) = Inr (x, rest)) \<and>
     (\<forall>x rest. is_int64 x \<longrightarrow> d_long a (e_long a x @ rest) = Inr (x, rest)) \<and>
     (\<forall>x rest. d_string a (e_string a x @ rest) = Inr (x, rest)) \<and>
     (\<forall>x rest. d_enum a (e_enum a x @ rest) = Inr (x, rest)) \<and>
     (\<forall>x rest. d_union a (e_union a x @ rest) = Inr (x, rest)) \<and>
     (\<forall>x rest. list_all is_int32 x \<longrightarrow> d_ints a (e_ints a x @ rest) = Inr (x, rest)) \<and>
     (\<forall>x rest. d_strings a (e_strings a x @ rest) = Inr (x, rest)) \<and>
     (\<forall>x rest. d_doubles a (e_doubles a x @ rest) = Inr (x, rest)) \<and>
     avro_in_range a"

datatype log_struct = SGeo | SAd | SIp | SUser | STrace | SDevice | SLog

type_synonym field_orders = "log_struct \<Rightarrow> nat list option"

definition order_in :: "field_orders \<Rightarrow> log_struct \<Rightarrow> 'r field list \<Rightarrow> nat list" where
  "order_in ord s fs = (case ord s of Some order \<Rightarrow> order | None \<Rightarrow> schema_order fs)"

text \<open>The field orders of a reader whose schema has the fields of the writer's.\<close>

fun struct_length :: "log_struct \<Rightarrow> nat" where
  "struct_length SGeo = 7" | "struct_length SAd = 24" | "struct_length SIp = 3" | "struct_length SUser = 3"
| "struct_length STrace = 13" | "struct_length SDevice = 6" | "struct_length SLog = 26"

definition orders_ok :: "field_orders \<Rightarrow> bool" where
  "orders_ok ord \<longleftrightarrow> (\<forall>s order. ord s = Some order \<longrightarrow> mset order = mset [0..<struct_length s])"

section \<open>Phases\<close>

datatype log_phase_type = BID | SHOW | VIEW | CLICK | TRACK | MAPPING

fun phase_number :: "log_phase_type \<Rightarrow> nat" where
  "phase_number BID = 0" | "phase_number SHOW = 1" | "phase_number VIEW = 2"
| "phase_number CLICK = 3" | "phase_number TRACK = 4" | "phase_number MAPPING = 5"

definition phase_of :: "nat \<Rightarrow> log_phase_type option" where
  "phase_of n = (if n < 6 then Some ([BID, SHOW, VIEW, CLICK, TRACK, MAPPING] ! n) else None)"

definition phase_encode :: "avro \<Rightarrow> log_phase_type \<Rightarrow> byte list" where
  "phase_encode a p = e_enum a (phase_number p)"

definition phase_decode :: "avro \<Rightarrow> byte list \<Rightarrow> (log_phase_type \<times> byte list) result" where
  "phase_decode a bs = bind_result (d_enum a bs) (\<lambda>(i, bs').
     case phase_of i of Some p \<Rightarrow> Inr (p, bs') | None \<Rightarrow> Inl (MtError ''enum value is out of bound''))"

section \<open>The structs\<close>

subsection \<open>\<open>GeoInfo\<close>\<close>

record geo_info =
  latitude :: string
  longitude :: string
  country :: int
  province :: int
  city :: int
  district :: int
  street :: int

definition geo_new :: geo_info where
  "geo_new = \<lparr>latitude = [], longitude = [], country = 0, province = 0, city = 0, district = 0, street = 0\<rparr>"

definition geo_fields :: "avro \<Rightarrow> geo_info field list" where
  "geo_fields a =
     [mk_field (e_string a) (\<lambda>_. d_string a) latitude latitude_update,
      mk_field (e_string a) (\<lambda>_. d_string a) longitude longitude_update,
      mk_field (e_int a) (\<lambda>_. d_int a) country country_update,
      mk_field (e_int a) (\<lambda>_. d_int a) province province_update,
      mk_field (e_int a) (\<lambda>_. d_int a) city city_update,
      mk_field (e_int a) (\<lambda>_. d_int a) district district_update,
      mk_field (e_int a) (\<lambda>_. d_int a) street street_update]"

definition geo_encode :: "avro \<Rightarrow> field_orders \<Rightarrow> geo_info \<Rightarrow> byte list" where
  "geo_encode a ord v = struct_encode (geo_fields a) (order_in ord SGeo (geo_fields a)) v"

definition geo_decode :: "avro \<Rightarrow> field_orders \<Rightarrow> geo_info \<Rightarrow> byte list \<Rightarrow> (geo_info \<times> byte list) result" where
  "geo_decode a ord r bs = decode_struct (geo_fields a) (ord SGeo) r bs"

definition geo_valid :: "geo_info \<Rightarrow> bool" where
  "geo_valid v \<longleftrightarrow> is_int32 (country v) \<and>
     is_int32 (province v) \<and>
     is_int32 (city v) \<and>
     is_int32 (district v) \<and>
     is_int32 (street v)"

definition geo_copies :: "(geo_info \<Rightarrow> geo_info \<Rightarrow> geo_info) list" where
  "geo_copies =
     [copy_field latitude latitude_update,
      copy_field longitude longitude_update,
      copy_field country country_update,
      copy_field province province_update,
      copy_field city city_update,
      copy_field district district_update,
      copy_field street street_update]"

subsection \<open>\<open>AdInfo\<close>\<close>

record ad_info =
  areaId :: string
  advId :: int
  cpid :: int
  sid :: int
  bannerId :: int
  clickId :: string
  adxid :: int
  mid :: int
  cid :: int
  pid :: string
  imp_id :: string
  landingUrl :: string
  cost :: int
  bidPrice :: int
  adxpid :: string
  adxuid :: string
  offerPrice :: int
  bidSize :: string
  priceType :: int
  ppid :: int
  orderId :: int
  bidBasePrice :: int
  bidEcpmPrice :: int
  feeRateDetail :: "u64 list"

definition ad_new :: ad_info where
  "ad_new = \<lparr>areaId = [], advId = 0, cpid = 0, sid = 0, bannerId = 0, clickId = [], adxid = 0, mid = 0, cid = 0, pid = [], imp_id = [], landingUrl = [], cost = 0, bidPrice = 0, adxpid = [], adxuid = [], offerPrice = 0, bidSize = [], priceType = 0, ppid = 0, orderId = 0, bidBasePrice = 0, bidEcpmPrice = 0, feeRateDetail = []\<rparr>"

definition ad_fields :: "avro \<Rightarrow> ad_info field list" where
  "ad_fields a =
     [mk_field (e_string a) (\<lambda>_. d_string a) areaId areaId_update,
      mk_field (e_long a) (\<lambda>_. d_long a) advId advId_update,
      mk_field (e_long a) (\<lambda>_. d_long a) cpid cpid_update,
      mk_field (e_long a) (\<lambda>_. d_long a) sid sid_update,
      mk_field (e_long a) (\<lambda>_. d_long a) bannerId bannerId_update,
      mk_field (e_string a) (\<lambda>_. d_string a) clickId clickId_update,
      mk_field (e_int a) (\<lambda>_. d_int a) adxid adxid_update,
      mk_field (e_long a) (\<lambda>_. d_long a) mid mid_update,
      mk_field (e_long a) (\<lambda>_. d_long a) cid cid_update,
      mk_field (e_string a) (\<lambda>_. d_string a) pid pid_update,
      mk_field (e_string a) (\<lambda>_. d_string a) imp_id imp_id_update,
      mk_field (e_string a) (\<lambda>_. d_string a) landingUrl landingUrl_update,
      mk_field (e_int a) (\<lambda>_. d_int a) cost cost_update,
      mk_field (e_int a) (\<lambda>_. d_int a) bidPrice bidPrice_update,
      mk_field (e_string a) (\<lambda>_. d_string a) adxpid adxpid_update,
      mk_field (e_string a) (\<lambda>_. d_string a) adxuid adxuid_update,
      mk_field (e_int a) (\<lambda>_. d_int a) offerPrice offerPrice_update,
      mk_field (e_string a) (\<lambda>_. d_string a) bidSize bidSize_update,
      mk_field (e_int a) (\<lambda>_. d_int a) priceType priceType_update,
      mk_field (e_int a) (\<lambda>_. d_int a) ppid ppid_update,
      mk_field (e_long a) (\<lambda>_. d_long a) orderId orderId_update,
      mk_field (e_int a) (\<lambda>_. d_int a) bidBasePrice bidBasePrice_update,
      mk_field (e_int a) (\<lambda>_. d_int a) bidEcpmPrice bidEcpmPrice_update,
      mk_field (e_doubles a) (\<lambda>_. d_doubles a) feeRateDetail feeRateDetail_update]"

definition ad_encode :: "avro \<Rightarrow> field_orders \<Rightarrow> ad_info \<Rightarrow> byte list" where
  "ad_encode a ord v = struct_encode (ad_fields a) (order_in ord SAd (ad_fields a)) v"

definition ad_decode :: "avro \<Rightarrow> field_orders \<Rightarrow> ad_info \<Rightarrow> byte list \<Rightarrow> (ad_info \<times> byte list) result" where
  "ad_decode a ord r bs = decode_struct (ad_fields a) (ord SAd) r bs"

definition ad_valid :: "ad_info \<Rightarrow> bool" where
  "ad_valid v \<longleftrightarrow> is_int64 (advId v) \<and>
     is_int64 (cpid v) \<and>
     is_int64 (sid v) \<and>
     is_int64 (bannerId v) \<and>
     is_int32 (adxid v) \<and>
     is_int64 (mid v) \<and>
     is_int64 (cid v) \<and>
     is_int32 (cost v) \<and>
     is_int32 (bidPrice v) \<and>
     is_int32 (offerPrice v) \<and>
     is_int32 (priceType v) \<and>
     is_int32 (ppid v) \<and>
     is_int64 (orderId v) \<and>
     is_int32 (bidBasePrice v) \<and>
     is_int32 (bidEcpmPrice v)"

definition ad_copies :: "(ad_info \<Rightarrow> ad_info \<Rightarrow> ad_info) list" where
  "ad_copies =
     [copy_field areaId areaId_update,
      copy_field advId advId_update,
      copy_field cpid cpid_update,
      copy_field sid sid_update,
      copy_field bannerId bannerId_update,
      copy_field clickId clickId_update,
      copy_field adxid adxid_update,
      copy_field mid mid_update,
      copy_field cid cid_update,
      copy_field pid pid_update,
      copy_field imp_id imp_id_update,
      copy_field landingUrl landingUrl_update,
      copy_field cost cost_update,
      copy_field bidPrice bidPrice_update,
      copy_field adxpid adxpid_update,
      copy_field adxuid adxuid_update,
      copy_field offerPrice offerPrice_update,
      copy_field bidSize bidSize_update,
      copy_field priceType priceType_update,
      copy_field ppid ppid_update,
      copy_field orderId orderId_update,
      copy_field bidBasePrice bidBasePrice_update,
      copy_field bidEcpmPrice bidEcpmPrice_update,
      copy_field feeRateDetail feeRateDetail_update]"

subsection \<open>\<open>IPInfo\<close>\<close>

record ip_info =
  ipv4 :: int
  ipv6 :: "int list"
  proxy :: string

definition ip_new :: ip_info where
  "ip_new = \<lparr>ipv4 = 0, ipv6 = [], proxy = []\<rparr>"

definition ip_fields :: "avro \<Rightarrow> ip_info field list" where
  "ip_fields a =
     [mk_field (e_int a) (\<lambda>_. d_int a) ipv4 ipv4_update,
      mk_field (e_ints a) (\<lambda>_. d_ints a) ipv6 ipv6_update,
      mk_field (e_string a) (\<lambda>_. d_string a) proxy proxy_update]"

definition ip_encode :: "avro \<Rightarrow> field_orders \<Rightarrow> ip_info \<Rightarrow> byte list" where
  "ip_encode a ord v = struct_encode (ip_fields a) (order_in ord SIp (ip_fields a)) v"

definition ip_decode :: "avro \<Rightarrow> field_orders \<Rightarrow> ip_info \<Rightarrow> byte list \<Rightarrow> (ip_info \<times> byte list) result" where
  "ip_decode a ord r bs = decode_struct (ip_fields a) (ord SIp) r bs"

definition ip_valid :: "ip_info \<Rightarrow> bool" where
  "ip_valid v \<longleftrightarrow> is_int32 (ipv4 v) \<and>
     list_all is_int32 (ipv6 v)"

definition ip_copies :: "(ip_info \<Rightarrow> ip_info \<Rightarrow> ip_info) list" where
  "ip_copies =
     [copy_field ipv4 ipv4_update,
      copy_field ipv6 ipv6_update,
      copy_field proxy proxy_update]"

subsection \<open>\<open>UserInfo\<close>\<close>

record user_info =
  age :: int
  sex :: int
  interest :: int

definition user_new :: user_info where
  "user_new = \<lparr>age = 0, sex = 0, interest = 0\<rparr>"

definition user_fields :: "avro \<Rightarrow> user_info field list" where
  "user_fields a =
     [mk_field (e_int a) (\<lambda>_. d_int a) age age_update,
      mk_field (e_int a) (\<lambda>_. d_int a) sex sex_update,
      mk_field (e_int a) (\<lambda>_. d_int a) interest interest_update]"

definition user_encode :: "avro \<Rightarrow> field_orders \<Rightarrow> user_info \<Rightarrow> byte list" where
  "user_encode a ord v = struct_encode (user_fields a) (order_in ord SUser (user_fields a)) v"

definition user_decode :: "avro \<Rightarrow> field_orders \<Rightarrow> user_info \<Rightarrow> byte list \<Rightarrow> (user_info \<times> byte list) result" where
  "user_decode a ord r bs = decode_struct (user_fields a) (ord SUser) r bs"

definition user_valid :: "user_info \<Rightarrow> bool" where
  "user_valid v \<longleftrightarrow> is_int32 (age v) \<and>
     is_int32 (sex v) \<and>
     is_int32 (interest v)"

definition user_copies :: "(user_info \<Rightarrow> user_info \<Rightarrow> user_info) list" where
  "user_copies =
     [copy_field age age_update,
      copy_field sex sex_update,
      copy_field interest interest_update]"

subsection \<open>\<open>TraceInfo\<close>\<close>

record trace_info =
  version :: string
  trace_deviceType :: string
  sourceid :: string
  tag1 :: string
  tag2 :: string
  tag3 :: string
  tag4 :: string
  tag5 :: string
  tag6 :: string
  tag7 :: string
  tag8 :: string
  tag9 :: string
  tag10 :: string

definition trace_new :: trace_info where
  "trace_new = \<lparr>version = [], trace_deviceType = [], sourceid = [], tag1 = [], tag2 = [], tag3 = [], tag4 = [], tag5 = [], tag6 = [], tag7 = [], tag8 = [], tag9 = [], tag10 = []\<rparr>"

definition trace_fields :: "avro \<Rightarrow> trace_info field list" where
  "trace_fields a =
     [mk_field (e_string a) (\<lambda>_. d_string a) version version_update,
      mk_field (e_string a) (\<lambda>_. d_string a) trace_deviceType trace_deviceType_update,
      mk_field (e_string a) (\<lambda>_. d_string a) sourceid sourceid_update,
      mk_field (e_string a) (\<lambda>_. d_string a) tag1 tag1_update,
      mk_field (e_string a) (\<lambda>_. d_string a) tag2 tag2_update,
      mk_field (e_string a) (\<lambda>_. d_string a) tag3 tag3_update,
      mk_field (e_string a) (\<lambda>_. d_string a) tag4 tag4_update,
      mk_field (e_string a) (\<lambda>_. d_string a) tag5 tag5_update,
      mk_field (e_string a) (\<lambda>_. d_string a) tag6 tag6_update,
      mk_field (e_string a) (\<lambda>_. d_string a) tag7 tag7_update,
      mk_field (e_string a) (\<lambda>_. d_string a) tag8 tag8_update,
      mk_field (e_string a) (\<lambda>_. d_string a) tag9 tag9_update,
      mk_field (e_string a) (\<lambda>_. d_string a) tag10 tag10_update]"

definition trace_encode :: "avro \<Rightarrow> field_orders \<Rightarrow> trace_info \<Rightarrow> byte list" where
  "trace_encode a ord v = struct_encode (trace_fields a) (order_in ord STrace (trace_fields a)) v"

definition trace_decode :: "avro \<Rightarrow> field_orders \<Rightarrow> trace_info \<Rightarrow> byte list \<Rightarrow> (trace_info \<times> byte list) result" where
  "trace_decode a ord r bs = decode_struct (trace_fields a) (ord STrace) r bs"

definition trace_valid :: "trace_info \<Rightarrow> bool" where
  "trace_valid v \<longleftrightarrow> True"

definition trace_copies :: "(trace_info \<Rightarrow> trace_info \<Rightarrow> trace_info) list" where
  "trace_copies =
     [copy_field version version_update,
      copy_field trace_deviceType trace_deviceType_update,
      copy_field sourceid sourceid_update,
      copy_field tag1 tag1_update,
      copy_field tag2 tag2_update,
      copy_field tag3 tag3_update,
      copy_field tag4 tag4_update,
      copy_field tag5 tag5_update,
      copy_field tag6 tag6_update,
      copy_field tag7 tag7_update,
      copy_field tag8 tag8_update,
      copy_field tag9 tag9_update,
      copy_field tag10 tag10_update]"

subsection \<open>\<open>DeviceInfo\<close>\<close>

record device_info =
  flowType :: int
  dev_deviceType :: int
  netWork :: int
  os :: int
  deviceID :: string
  dev_make :: string

definition device_new :: device_info where
  "device_new = \<lparr>flowType = 0, dev_deviceType = 0, netWork = 0, os = 0, deviceID = [], dev_make = []\<rparr>"

definition device_fields :: "avro \<Rightarrow> device_info field list" where
  "device_fields a =
     [mk_field (e_int a) (\<lambda>_. d_int a) flowType flowType_update,
      mk_field (e_int a) (\<lambda>_. d_int a) dev_deviceType dev_deviceType_update,
      mk_field (e_int a) (\<lambda>_. d_int a) netWork netWork_update,
      mk_field (e_int a) (\<lambda>_. d_int a) os os_update,
      mk_field (e_string a) (\<lambda>_. d_string a) deviceID deviceID_update,
      mk_field (e_string a) (\<lambda>_. d_string a) dev_make dev_make_update]"

definition device_encode :: "avro \<Rightarrow> field_orders \<Rightarrow> device_info \<Rightarrow> byte list" where
  "device_encode a ord v = struct_encode (device_fields a) (order_in ord SDevice (device_fields a)) v"

definition device_decode :: "avro \<Rightarrow> field_orders \<Rightarrow> device_info \<Rightarrow> byte list \<Rightarrow> (device_info \<times> byte list) result" where
  "device_decode a ord r bs = decode_struct (device_fields a) (ord SDevice) r bs"

definition device_valid :: "device_info \<Rightarrow> bool" where
  "device_valid v \<longleftrightarrow> is_int32 (flowType v) \<and>
     is_int32 (dev_deviceType v) \<and>
     is_int32 (netWork v) \<and>
     is_int32 (os v)"

definition device_copies :: "(device_info \<Rightarrow> device_info \<Rightarrow> device_info) list" where
  "device_copies =
     [copy_field flowType flowType_update,
      copy_field dev_deviceType dev_deviceType_update,
      copy_field netWork netWork_update,
      copy_field os os_update,
      copy_field deviceID deviceID_update,
      copy_field dev_make dev_make_update]"

subsection \<open>\<open>LogItem\<close>\<close>

record log_item =
  timeStamp :: int
  logType :: log_phase_type
  reqStatus :: int
  reqMethod :: int
  ipInfo :: ip_info
  referer :: string
  log_host :: string
  log_path :: string
  userId :: string
  userAgent :: string
  userInfo :: user_info
  geoInfo :: geo_info
  pageInfo :: string
  jsInfo :: string
  deviceInfo :: string
  traceId :: int
  adInfo :: ad_info
  clickx :: int
  clicky :: int
  traceInfo :: trace_info
  dealIds :: "string list"
  keyWords :: string
  mediaType :: int
  contentTypes :: "int list"
  device :: device_info
  flowRef :: int

definition log_new :: log_item where
  "log_new = \<lparr>timeStamp = 0, logType = BID, reqStatus = 0, reqMethod = 0, ipInfo = ip_new, referer = [], log_host = [], log_path = [], userId = [], userAgent = [], userInfo = user_new, geoInfo = geo_new, pageInfo = [], jsInfo = [], deviceInfo = [], traceId = 0, adInfo = ad_new, clickx = 0, clicky = 0, traceInfo = trace_new, dealIds = [], keyWords = [], mediaType = 0, contentTypes = [], device = device_new, flowRef = 0\<rparr>"

definition log_fields :: "avro \<Rightarrow> field_orders \<Rightarrow> log_item field list" where
  "log_fields a ord =
     [mk_field (e_long a) (\<lambda>_. d_long a) timeStamp timeStamp_update,
      mk_field (phase_encode a) (\<lambda>_. phase_decode a) logType logType_update,
      mk_field (e_int a) (\<lambda>_. d_int a) reqStatus reqStatus_update,
      mk_field (e_int a) (\<lambda>_. d_int a) reqMethod reqMethod_update,
      mk_field (ip_encode a ord) (ip_decode a ord) ipInfo ipInfo_update,
      mk_field (e_string a) (\<lambda>_. d_string a) referer referer_update,
      mk_field (e_string a) (\<lambda>_. d_string a) log_host log_host_update,
      mk_field (e_string a) (\<lambda>_. d_string a) log_path log_path_update,
      mk_field (e_string a) (\<lambda>_. d_string a) userId userId_update,
      mk_field (e_string a) (\<lambda>_. d_string a) userAgent userAgent_update,
      mk_field (user_encode a ord) (user_decode a ord) userInfo userInfo_update,
      mk_field (geo_encode a ord) (geo_decode a ord) geoInfo geoInfo_update,
      mk_field (e_string a) (\<lambda>_. d_string a) pageInfo pageInfo_update,
      mk_field (e_string a) (\<lambda>_. d_string a) jsInfo jsInfo_update,
      mk_field (e_string a) (\<lambda>_. d_string a) deviceInfo deviceInfo_update,
      mk_field (e_int a) (\<lambda>_. d_int a) traceId traceId_update,
      mk_field (ad_encode a ord) (ad_decode a ord) adInfo adInfo_update,
      mk_field (e_int a) (\<lambda>_. d_int a) clickx clickx_update,
      mk_field (e_int a) (\<lambda>_. d_int a) clicky clicky_update,
      mk_field (trace_encode a ord) (trace_decode a ord) traceInfo traceInfo_update,
      mk_field (e_strings a) (\<lambda>_. d_strings a) dealIds dealIds_update,
      mk_field (e_string a) (\<lambda>_. d_string a) keyWords keyWords_update,
      mk_field (e_int a) (\<lambda>_. d_int a) mediaType mediaType_update,
      mk_field (e_ints a) (\<lambda>_. d_ints a) contentTypes contentTypes_update,
      mk_field (device_encode a ord) (device_decode a ord) device device_update,
      mk_field (e_int a) (\<lambda>_. d_int a) flowRef flowRef_update]"

text \<open>\<open>encode\<close> of the source writes the fields in the order of the schema, which is \<open>log_encode a (\<lambda>_. None)\<close>; another
  order stands for a writer with its own schema, whose output a resolving decoder reads.\<close>

definition log_encode :: "avro \<Rightarrow> field_orders \<Rightarrow> log_item \<Rightarrow> byte list" where
  "log_encode a ord v = struct_encode (log_fields a ord) (order_in ord SLog (log_fields a ord)) v"

definition log_decode :: "avro \<Rightarrow> field_orders \<Rightarrow> log_item \<Rightarrow> byte list \<Rightarrow> (log_item \<times> byte list) result" where
  "log_decode a ord r bs = decode_struct (log_fields a ord) (ord SLog) r bs"

definition log_valid :: "log_item \<Rightarrow> bool" where
  "log_valid v \<longleftrightarrow> is_int64 (timeStamp v) \<and>
     is_int32 (reqStatus v) \<and>
     is_int32 (reqMethod v) \<and>
     ip_valid (ipInfo v) \<and>
     user_valid (userInfo v) \<and>
     geo_valid (geoInfo v) \<and>
     is_int32 (traceId v) \<and>
     ad_valid (adInfo v) \<and>
     is_int32 (clickx v) \<and>
     is_int32 (clicky v) \<and>
     trace_valid (traceInfo v) \<and>
     is_int32 (mediaType v) \<and>
     list_all is_int32 (contentTypes v) \<and>
     device_valid (device v) \<and>
     is_int32 (flowRef v)"

definition log_copies :: "(log_item \<Rightarrow> log_item \<Rightarrow> log_item) list" where
  "log_copies =
     [copy_field timeStamp timeStamp_update,
      copy_field logType logType_update,
      copy_field reqStatus reqStatus_update,
      copy_field reqMethod reqMethod_update,
      copy_field ipInfo ipInfo_update,
      copy_field referer referer_update,
      copy_field log_host log_host_update,
      copy_field log_path log_path_update,
      copy_field userId userId_update,
      copy_field userAgent userAgent_update,
      copy_field userInfo userInfo_update,
      copy_field geoInfo geoInfo_update,
      copy_field pageInfo pageInfo_update,
      copy_field jsInfo jsInfo_update,
      copy_field deviceInfo deviceInfo_update,
      copy_field traceId traceId_update,
      copy_field adInfo adInfo_update,
      copy_field clickx clickx_update,
      copy_field clicky clicky_update,
      copy_field traceInfo traceInfo_update,
      copy_field dealIds dealIds_update,
      copy_field keyWords keyWords_update,
      copy_field mediaType mediaType_update,
      copy_field contentTypes contentTypes_update,
      copy_field device device_update,
      copy_field flowRef flowRef_update]"

section \<open>The union\<close>

text \<open>The struct holds an index and a \<open>boost::any\<close>, set together by the setters.\<close>

datatype any_value =
    AnyGeoInfo geo_info
  | AnyAdInfo ad_info
  | AnyLogPhaseType log_phase_type
  | AnyIPInfo ip_info
  | AnyUserInfo user_info
  | AnyTraceInfo trace_info
  | AnyDeviceInfo device_info
  | AnyLogItem log_item

record json_union =
  idx :: nat
  any_val :: any_value

definition json_union_new :: json_union where
  "json_union_new = \<lparr>idx = 0, any_val = AnyGeoInfo geo_new\<rparr>"

text \<open>\<open>boost::any_cast\<close> throws \<open>bad_any_cast\<close> on another type.\<close>

definition get_GeoInfo :: "json_union \<Rightarrow> geo_info result" where
  "get_GeoInfo u = (if idx u \<noteq> 0 then Inl (MtError ''Invalid type for union'')
     else case any_val u of AnyGeoInfo v \<Rightarrow> Inr v | _ \<Rightarrow> Inl (MtError ''bad_any_cast''))"

definition set_GeoInfo :: "geo_info \<Rightarrow> json_union \<Rightarrow> json_union" where
  "set_GeoInfo v u = u\<lparr>idx := 0, any_val := AnyGeoInfo v\<rparr>"

definition get_AdInfo :: "json_union \<Rightarrow> ad_info result" where
  "get_AdInfo u = (if idx u \<noteq> 1 then Inl (MtError ''Invalid type for union'')
     else case any_val u of AnyAdInfo v \<Rightarrow> Inr v | _ \<Rightarrow> Inl (MtError ''bad_any_cast''))"

definition set_AdInfo :: "ad_info \<Rightarrow> json_union \<Rightarrow> json_union" where
  "set_AdInfo v u = u\<lparr>idx := 1, any_val := AnyAdInfo v\<rparr>"

definition get_LogPhaseType :: "json_union \<Rightarrow> log_phase_type result" where
  "get_LogPhaseType u = (if idx u \<noteq> 2 then Inl (MtError ''Invalid type for union'')
     else case any_val u of AnyLogPhaseType v \<Rightarrow> Inr v | _ \<Rightarrow> Inl (MtError ''bad_any_cast''))"

definition set_LogPhaseType :: "log_phase_type \<Rightarrow> json_union \<Rightarrow> json_union" where
  "set_LogPhaseType v u = u\<lparr>idx := 2, any_val := AnyLogPhaseType v\<rparr>"

definition get_IPInfo :: "json_union \<Rightarrow> ip_info result" where
  "get_IPInfo u = (if idx u \<noteq> 3 then Inl (MtError ''Invalid type for union'')
     else case any_val u of AnyIPInfo v \<Rightarrow> Inr v | _ \<Rightarrow> Inl (MtError ''bad_any_cast''))"

definition set_IPInfo :: "ip_info \<Rightarrow> json_union \<Rightarrow> json_union" where
  "set_IPInfo v u = u\<lparr>idx := 3, any_val := AnyIPInfo v\<rparr>"

definition get_UserInfo :: "json_union \<Rightarrow> user_info result" where
  "get_UserInfo u = (if idx u \<noteq> 4 then Inl (MtError ''Invalid type for union'')
     else case any_val u of AnyUserInfo v \<Rightarrow> Inr v | _ \<Rightarrow> Inl (MtError ''bad_any_cast''))"

definition set_UserInfo :: "user_info \<Rightarrow> json_union \<Rightarrow> json_union" where
  "set_UserInfo v u = u\<lparr>idx := 4, any_val := AnyUserInfo v\<rparr>"

definition get_TraceInfo :: "json_union \<Rightarrow> trace_info result" where
  "get_TraceInfo u = (if idx u \<noteq> 5 then Inl (MtError ''Invalid type for union'')
     else case any_val u of AnyTraceInfo v \<Rightarrow> Inr v | _ \<Rightarrow> Inl (MtError ''bad_any_cast''))"

definition set_TraceInfo :: "trace_info \<Rightarrow> json_union \<Rightarrow> json_union" where
  "set_TraceInfo v u = u\<lparr>idx := 5, any_val := AnyTraceInfo v\<rparr>"

definition get_DeviceInfo :: "json_union \<Rightarrow> device_info result" where
  "get_DeviceInfo u = (if idx u \<noteq> 6 then Inl (MtError ''Invalid type for union'')
     else case any_val u of AnyDeviceInfo v \<Rightarrow> Inr v | _ \<Rightarrow> Inl (MtError ''bad_any_cast''))"

definition set_DeviceInfo :: "device_info \<Rightarrow> json_union \<Rightarrow> json_union" where
  "set_DeviceInfo v u = u\<lparr>idx := 6, any_val := AnyDeviceInfo v\<rparr>"

definition get_LogItem :: "json_union \<Rightarrow> log_item result" where
  "get_LogItem u = (if idx u \<noteq> 7 then Inl (MtError ''Invalid type for union'')
     else case any_val u of AnyLogItem v \<Rightarrow> Inr v | _ \<Rightarrow> Inl (MtError ''bad_any_cast''))"

definition set_LogItem :: "log_item \<Rightarrow> json_union \<Rightarrow> json_union" where
  "set_LogItem v u = u\<lparr>idx := 7, any_val := AnyLogItem v\<rparr>"

definition union_encode :: "avro \<Rightarrow> field_orders \<Rightarrow> json_union \<Rightarrow> byte list result" where
  "union_encode a ord u =
     (let tagged = map_sum id (\<lambda>bs. e_union a (idx u) @ bs)
      in if idx u = 0 then tagged (map_sum id (geo_encode a ord) (get_GeoInfo u))
         else if idx u = 1 then tagged (map_sum id (ad_encode a ord) (get_AdInfo u))
         else if idx u = 2 then tagged (map_sum id (phase_encode a) (get_LogPhaseType u))
         else if idx u = 3 then tagged (map_sum id (ip_encode a ord) (get_IPInfo u))
         else if idx u = 4 then tagged (map_sum id (user_encode a ord) (get_UserInfo u))
         else if idx u = 5 then tagged (map_sum id (trace_encode a ord) (get_TraceInfo u))
         else if idx u = 6 then tagged (map_sum id (device_encode a ord) (get_DeviceInfo u))
         else if idx u = 7 then tagged (map_sum id (log_encode a ord) (get_LogItem u))
         else tagged (Inr []))"

definition union_decode :: "avro \<Rightarrow> field_orders \<Rightarrow> json_union \<Rightarrow> byte list \<Rightarrow> (json_union \<times> byte list) result" where
  "union_decode a ord u bs0 = bind_result (d_union a bs0) (\<lambda>(n, bs).
     if n \<ge> 8 then Inl (MtError ''Union index too big'')
     else if n = 0 then bind_result (geo_decode a ord geo_new bs) (\<lambda>(vv, bs'). Inr (set_GeoInfo vv u, bs'))
     else if n = 1 then bind_result (ad_decode a ord ad_new bs) (\<lambda>(vv, bs'). Inr (set_AdInfo vv u, bs'))
     else if n = 2 then bind_result (phase_decode a bs) (\<lambda>(vv, bs'). Inr (set_LogPhaseType vv u, bs'))
     else if n = 3 then bind_result (ip_decode a ord ip_new bs) (\<lambda>(vv, bs'). Inr (set_IPInfo vv u, bs'))
     else if n = 4 then bind_result (user_decode a ord user_new bs) (\<lambda>(vv, bs'). Inr (set_UserInfo vv u, bs'))
     else if n = 5 then bind_result (trace_decode a ord trace_new bs) (\<lambda>(vv, bs'). Inr (set_TraceInfo vv u, bs'))
     else if n = 6 then bind_result (device_decode a ord device_new bs) (\<lambda>(vv, bs'). Inr (set_DeviceInfo vv u, bs'))
     else bind_result (log_decode a ord log_new bs) (\<lambda>(vv, bs'). Inr (set_LogItem vv u, bs')))"

text \<open>Only the setters and the constructor write a union, so the index and the type of the value agree.\<close>

fun any_index :: "any_value \<Rightarrow> nat" where
  "any_index (AnyGeoInfo _) = 0"
| "any_index (AnyAdInfo _) = 1"
| "any_index (AnyLogPhaseType _) = 2"
| "any_index (AnyIPInfo _) = 3"
| "any_index (AnyUserInfo _) = 4"
| "any_index (AnyTraceInfo _) = 5"
| "any_index (AnyDeviceInfo _) = 6"
| "any_index (AnyLogItem _) = 7"

fun any_valid :: "any_value \<Rightarrow> bool" where
  "any_valid (AnyGeoInfo v) \<longleftrightarrow> geo_valid v"
| "any_valid (AnyAdInfo v) \<longleftrightarrow> ad_valid v"
| "any_valid (AnyLogPhaseType v) \<longleftrightarrow> True"
| "any_valid (AnyIPInfo v) \<longleftrightarrow> ip_valid v"
| "any_valid (AnyUserInfo v) \<longleftrightarrow> user_valid v"
| "any_valid (AnyTraceInfo v) \<longleftrightarrow> trace_valid v"
| "any_valid (AnyDeviceInfo v) \<longleftrightarrow> device_valid v"
| "any_valid (AnyLogItem v) \<longleftrightarrow> log_valid v"

definition union_ok :: "json_union \<Rightarrow> bool" where
  "union_ok u \<longleftrightarrow> idx u = any_index (any_val u) \<and> any_valid (any_val u)"

section \<open>The laws of the structs\<close>

lemma avro_round_trips:
  assumes "avro_ok a"
  shows "is_int32 i \<Longrightarrow> d_int a (e_int a i @ rest) = Inr (i, rest)"
    "is_int64 i \<Longrightarrow> d_long a (e_long a i @ rest) = Inr (i, rest)"
    "d_string a (e_string a s @ rest) = Inr (s, rest)"
    "d_enum a (e_enum a n @ rest) = Inr (n, rest)"
    "d_union a (e_union a n @ rest) = Inr (n, rest)"
    "list_all is_int32 is \<Longrightarrow> d_ints a (e_ints a is @ rest) = Inr (is, rest)"
    "d_strings a (e_strings a ss @ rest) = Inr (ss, rest)"
    "d_doubles a (e_doubles a ds @ rest) = Inr (ds, rest)"
  using assms by (simp_all add: avro_ok_def)

lemma avro_ranges:
  assumes "avro_ok a"
  shows "d_int a bs = Inr (i, rest) \<Longrightarrow> is_int32 i"
    "d_long a bs = Inr (i, rest) \<Longrightarrow> is_int64 i"
    "d_ints a bs = Inr (is, rest) \<Longrightarrow> list_all is_int32 is"
  using assms unfolding avro_ok_def avro_in_range_def by blast+

lemma phase_round_trip: "avro_ok a \<Longrightarrow> phase_decode a (phase_encode a p @ rest) = Inr (p, rest)"
  by (cases p) (simp_all add: phase_decode_def phase_encode_def avro_round_trips phase_of_def)

lemma phase_decode_bound:
  "d_enum a bs = Inr (n, rest) \<Longrightarrow> 6 \<le> n \<Longrightarrow> phase_decode a bs = Inl (MtError ''enum value is out of bound'')"
  by (simp add: phase_decode_def phase_of_def)

lemmas struct_rules = avro_round_trips dec_mk_field copy_field_def dec_mk_field_eq_Inr
  geo_fields_def geo_valid_def geo_copies_def
  ad_fields_def ad_valid_def ad_copies_def
  ip_fields_def ip_valid_def ip_copies_def
  user_fields_def user_valid_def user_copies_def
  trace_fields_def trace_valid_def trace_copies_def
  device_fields_def device_valid_def device_copies_def

interpretation geo: struct_codec "avro_ok a" geo_valid "geo_fields a" geo_copies for a
  by unfold_locales (auto simp: struct_rules dest: avro_ranges)

interpretation ad: struct_codec "avro_ok a" ad_valid "ad_fields a" ad_copies for a
  by unfold_locales (auto simp: struct_rules dest: avro_ranges)

interpretation ip: struct_codec "avro_ok a" ip_valid "ip_fields a" ip_copies for a
  by unfold_locales (auto simp: struct_rules dest: avro_ranges)

interpretation user: struct_codec "avro_ok a" user_valid "user_fields a" user_copies for a
  by unfold_locales (auto simp: struct_rules dest: avro_ranges)

interpretation trace: struct_codec "avro_ok a" trace_valid "trace_fields a" trace_copies for a
  by unfold_locales (auto simp: struct_rules dest: avro_ranges)

interpretation device: struct_codec "avro_ok a" device_valid "device_fields a" device_copies for a
  by unfold_locales (auto simp: struct_rules dest: avro_ranges)

lemma struct_lengths:
  "length (geo_fields a) = struct_length SGeo"
  "length (ad_fields a) = struct_length SAd"
  "length (ip_fields a) = struct_length SIp"
  "length (user_fields a) = struct_length SUser"
  "length (trace_fields a) = struct_length STrace"
  "length (device_fields a) = struct_length SDevice"
  by (simp_all add: geo_fields_def ad_fields_def ip_fields_def user_fields_def trace_fields_def device_fields_def)

text \<open>A nested struct is restored, whatever value it is decoded into.\<close>

lemma nested_round_trips:
  assumes "avro_ok a" "orders_ok ord"
  shows "geo_valid vgeo \<Longrightarrow> geo_decode a ord rgeo (geo_encode a ord vgeo @ rest) = Inr (vgeo, rest)"
    "ad_valid vad \<Longrightarrow> ad_decode a ord rad (ad_encode a ord vad @ rest) = Inr (vad, rest)"
    "ip_valid vip \<Longrightarrow> ip_decode a ord rip (ip_encode a ord vip @ rest) = Inr (vip, rest)"
    "user_valid vuser \<Longrightarrow> user_decode a ord ruser (user_encode a ord vuser @ rest) = Inr (vuser, rest)"
    "trace_valid vtrace \<Longrightarrow> trace_decode a ord rtrace (trace_encode a ord vtrace @ rest) = Inr (vtrace, rest)"
    "device_valid vdevice \<Longrightarrow> device_decode a ord rdevice (device_encode a ord vdevice @ rest) = Inr (vdevice, rest)"
  using assms geo.ordered_round_trip [of a _ "ord SGeo"]
    ad.ordered_round_trip [of a _ "ord SAd"]
    ip.ordered_round_trip [of a _ "ord SIp"]
    user.ordered_round_trip [of a _ "ord SUser"]
    trace.ordered_round_trip [of a _ "ord STrace"]
    device.ordered_round_trip [of a _ "ord SDevice"]
  by (simp_all add: geo_decode_def geo_encode_def ad_decode_def ad_encode_def ip_decode_def ip_encode_def user_decode_def user_encode_def trace_decode_def trace_encode_def device_decode_def device_encode_def
      order_in_def orders_ok_def struct_lengths)

lemmas nested_typed =
  geo.decode_valid [of a r "case ord SGeo of Some order \<Rightarrow> order | None \<Rightarrow> schema_order (geo_fields a)" for a r ord,
    folded decode_struct_def geo_decode_def]
  ad.decode_valid [of a r "case ord SAd of Some order \<Rightarrow> order | None \<Rightarrow> schema_order (ad_fields a)" for a r ord,
    folded decode_struct_def ad_decode_def]
  ip.decode_valid [of a r "case ord SIp of Some order \<Rightarrow> order | None \<Rightarrow> schema_order (ip_fields a)" for a r ord,
    folded decode_struct_def ip_decode_def]
  user.decode_valid [of a r "case ord SUser of Some order \<Rightarrow> order | None \<Rightarrow> schema_order (user_fields a)" for a r ord,
    folded decode_struct_def user_decode_def]
  trace.decode_valid [of a r "case ord STrace of Some order \<Rightarrow> order | None \<Rightarrow> schema_order (trace_fields a)" for a r ord,
    folded decode_struct_def trace_decode_def]
  device.decode_valid [of a r "case ord SDevice of Some order \<Rightarrow> order | None \<Rightarrow> schema_order (device_fields a)" for a r ord,
    folded decode_struct_def device_decode_def]

interpretation log: struct_codec "avro_ok a \<and> orders_ok ord" log_valid "log_fields a ord" log_copies for a ord
proof (unfold_locales, goal_cases)
  case 1
  show ?case by (simp add: log_copies_def log_fields_def)
next
  case 2
  then show ?case
    by (simp add: log_copies_def log_fields_def log_valid_def avro_round_trips dec_mk_field copy_field_def
        nested_round_trips phase_round_trip)
next
  case 3
  then show ?case
    unfolding log_fields_def list.pred_inject
    by (intro conjI TrueI mk_field_keeps) (auto simp: log_valid_def dest: avro_ranges nested_typed)
next
  case 4
  show ?case by (simp add: log_copies_def copy_field_def)
next
  case (5 v r)
  show ?case by (simp add: log_copies_def copy_field_def)
qed

section \<open>A sample library\<close>

text \<open>Numbers in unary, integers in zigzag order, strings and vectors with their length in front.\<close>

definition sample_nat :: "nat \<Rightarrow> byte list" where
  "sample_nat n = replicate n 1 @ [0]"

fun sample_nat_d :: "byte list \<Rightarrow> (nat \<times> byte list) result" where
  "sample_nat_d [] = Inl OutOfRange"
| "sample_nat_d (b # bs) = (if b = 0 then Inr (0, bs)
     else bind_result (sample_nat_d bs) (\<lambda>(n, r). Inr (Suc n, r)))"

definition sample_int :: "int \<Rightarrow> byte list" where
  "sample_int i = sample_nat (if i \<ge> 0 then 2 * nat i else 2 * nat (- i - 1) + 1)"

definition sample_int_d :: "(int \<Rightarrow> bool) \<Rightarrow> byte list \<Rightarrow> (int \<times> byte list) result" where
  "sample_int_d ok bs = bind_result (sample_nat_d bs) (\<lambda>(n, r).
     let i = (if even n then int (n div 2) else - int (n div 2) - 1) in if ok i then Inr (i, r) else Inl OutOfRange)"

definition sample_list :: "('a \<Rightarrow> byte list) \<Rightarrow> 'a list \<Rightarrow> byte list" where
  "sample_list e xs = sample_nat (length xs) @ concat (map e xs)"

fun sample_times_d :: "(byte list \<Rightarrow> ('a \<times> byte list) result) \<Rightarrow> nat \<Rightarrow> byte list \<Rightarrow> ('a list \<times> byte list) result" where
  "sample_times_d d 0 bs = Inr ([], bs)"
| "sample_times_d d (Suc n) bs = bind_result (d bs) (\<lambda>(x, bs').
     bind_result (sample_times_d d n bs') (\<lambda>(xs, bs''). Inr (x # xs, bs'')))"

definition sample_list_d :: "(byte list \<Rightarrow> ('a \<times> byte list) result) \<Rightarrow> byte list \<Rightarrow> ('a list \<times> byte list) result" where
  "sample_list_d d bs = bind_result (sample_nat_d bs) (\<lambda>(n, bs'). sample_times_d d n bs')"

fun sample_char_d :: "byte list \<Rightarrow> (char \<times> byte list) result" where
  "sample_char_d [] = Inl OutOfRange"
| "sample_char_d (b # bs) = Inr (chr8 b, bs)"

definition sample_string :: "string \<Rightarrow> byte list" where
  "sample_string = sample_list (\<lambda>c. [ord8 c])"

definition sample_double_d :: "byte list \<Rightarrow> (u64 \<times> byte list) result" where
  "sample_double_d bs = bind_result (sample_int_d (\<lambda>_. True) bs) (\<lambda>(i, r). Inr (word_of_int i, r))"

definition sample_avro :: avro where
  "sample_avro = \<lparr>e_int = sample_int, d_int = sample_int_d is_int32, e_long = sample_int, d_long = sample_int_d is_int64,
     e_string = sample_string, d_string = sample_list_d sample_char_d, e_enum = sample_nat, d_enum = sample_nat_d,
     e_union = sample_nat, d_union = sample_nat_d,
     e_ints = sample_list sample_int, d_ints = sample_list_d (sample_int_d is_int32),
     e_strings = sample_list sample_string, d_strings = sample_list_d (sample_list_d sample_char_d),
     e_doubles = sample_list (\<lambda>w. sample_int (uint w)), d_doubles = sample_list_d sample_double_d\<rparr>"

lemma sample_nat_law [simp]: "sample_nat_d (sample_nat n @ rest) = Inr (n, rest)"
  by (induction n) (simp_all add: sample_nat_def)

lemma sample_int_law: "ok i \<Longrightarrow> sample_int_d ok (sample_int i @ rest) = Inr (i, rest)"
  by (auto simp: sample_int_d_def sample_int_def Let_def)

lemma sample_times_law:
  "\<forall>x \<in> set xs. \<forall>rest. d (e x @ rest) = Inr (x, rest) \<Longrightarrow>
    sample_times_d d (length xs) (concat (map e xs) @ rest) = Inr (xs, rest)"
  by (induction xs) simp_all

lemma sample_list_law:
  "\<forall>x \<in> set xs. \<forall>rest. d (e x @ rest) = Inr (x, rest) \<Longrightarrow> sample_list_d d (sample_list e xs @ rest) = Inr (xs, rest)"
  by (simp add: sample_list_d_def sample_list_def sample_times_law)

lemma sample_string_law: "sample_list_d sample_char_d (sample_string s @ rest) = Inr (s, rest)"
  by (simp add: sample_string_def sample_list_law)

lemma sample_double_law: "sample_double_d (sample_int (uint w) @ rest) = Inr (w, rest)"
  by (simp add: sample_double_d_def sample_int_law)

lemma sample_times_in_range:
  "sample_times_d (sample_int_d ok) n bs = Inr (xs, rest) \<Longrightarrow> list_all ok xs"
  by (induction n arbitrary: bs xs) (auto simp: bind_result_eq_Inr sample_int_d_def Let_def split: if_splits)

lemma sample_avro_ok: "avro_ok sample_avro"
proof -
  have "avro_in_range sample_avro"
    by (auto simp: avro_in_range_def sample_avro_def sample_list_d_def bind_result_eq_Inr sample_times_in_range
        sample_int_d_def [of is_int32] sample_int_d_def [of is_int64] Let_def split: if_splits)
  then show ?thesis
    by (simp add: avro_ok_def sample_avro_def sample_int_law sample_string_law sample_list_law sample_double_law
        list_all_iff)
qed


section \<open>Properties\<close>

lemma log_restored:
  assumes "avro_ok a" "orders_ok ord" "log_valid v"
  shows "log_decode a ord r (log_encode a ord v @ rest) = Inr (v, rest)"
proof -
  have "length (log_fields a ord) = struct_length SLog" by (simp add: log_fields_def)
  then show ?thesis unfolding log_decode_def log_encode_def order_in_def
    by (intro log.ordered_round_trip) (use assms in \<open>auto simp: orders_ok_def\<close>)
qed

lemma new_valid: "geo_valid geo_new" "ad_valid ad_new" "ip_valid ip_new" "user_valid user_new" "trace_valid trace_new"
    "device_valid device_new" "log_valid log_new"
  by (simp_all add: log_valid_def log_new_def geo_valid_def geo_new_def ad_valid_def ad_new_def ip_valid_def
      ip_new_def user_valid_def user_new_def trace_valid_def device_valid_def device_new_def is_int32_def is_int64_def int_limits)

lemmas union_ops = get_GeoInfo_def set_GeoInfo_def get_AdInfo_def set_AdInfo_def get_LogPhaseType_def set_LogPhaseType_def
  get_IPInfo_def set_IPInfo_def get_UserInfo_def set_UserInfo_def get_TraceInfo_def set_TraceInfo_def
  get_DeviceInfo_def set_DeviceInfo_def get_LogItem_def set_LogItem_def

lemma union_new_ok: "union_ok json_union_new"
  by (simp add: union_ok_def json_union_new_def new_valid)

lemma setters_ok:
  "geo_valid g \<Longrightarrow> union_ok (set_GeoInfo g u)" "ad_valid ad \<Longrightarrow> union_ok (set_AdInfo ad u)"
  "union_ok (set_LogPhaseType p u)" "ip_valid i \<Longrightarrow> union_ok (set_IPInfo i u)"
  "user_valid us \<Longrightarrow> union_ok (set_UserInfo us u)" "trace_valid t \<Longrightarrow> union_ok (set_TraceInfo t u)"
  "device_valid d \<Longrightarrow> union_ok (set_DeviceInfo d u)" "log_valid l \<Longrightarrow> union_ok (set_LogItem l u)"
  by (simp_all add: union_ok_def union_ops)

text \<open>C4: A log item comes back from its encoding unchanged, with whatever follows it left in the input, for
  a plain decoder and for a resolving decoder whose field orders are those of the writer, whatever the item
  it is decoded into held before.\<close>

theorem log_round_trip:
  assumes "avro_ok a" "orders_ok ord" "log_valid v"
  shows "log_decode a ord r (log_encode a ord v @ rest) = Inr (v, rest)"
  using assms by (rule log_restored)

definition sample_item :: log_item where
  "sample_item = log_new\<lparr>logType := CLICK, userId := ''u1'', adInfo := ad_new\<lparr>cost := -7, feeRateDetail := [0x3FE0000000000000]\<rparr>,
     dealIds := [''d1'', ''d2''], contentTypes := [3, -4]\<rparr>"

definition sample_orders :: field_orders where
  "sample_orders s = (case s of SIp \<Rightarrow> Some [2, 0, 1] | SUser \<Rightarrow> Some [1, 2, 0] | _ \<Rightarrow> None)"

lemma sample_orders_ok: "orders_ok sample_orders"
proof -
  have "mset order = mset [0..<struct_length s]" if "sample_orders s = Some order" for s order
    using that by (cases s) (auto simp: sample_orders_def upt_rec numeral_eq_Suc)
  then show ?thesis by (simp add: orders_ok_def)
qed

lemma sample_item_valid: "log_valid sample_item"
  using new_valid by (simp add: sample_item_def log_valid_def ad_valid_def is_int32_def int_limits log_new_def)

theorem log_round_trip_witness:
  "log_decode sample_avro sample_orders log_new (log_encode sample_avro sample_orders sample_item @ [7]) =
     Inr (sample_item, [7])"
  by (rule log_round_trip [OF sample_avro_ok sample_orders_ok sample_item_valid])

text \<open>C34: A union written by its constructor or a setter is encoded without an exception and comes back with its
  alternative and value; an index of eight or more is refused.\<close>

theorem union_round_trip:
  assumes "avro_ok a" "orders_ok ord" "union_ok u"
  shows "(\<exists>bs. union_encode a ord u = Inr bs \<and> union_decode a ord u0 (bs @ rest) = Inr (u, rest)) \<and>
     (n \<ge> 8 \<longrightarrow> union_decode a ord u0 (e_union a n @ rest) = Inl (MtError ''Union index too big''))"
  using assms by (cases "any_val u")
    (auto simp: union_ok_def union_encode_def union_decode_def union_ops avro_round_trips nested_round_trips
      log_restored phase_round_trip intro: json_union.equality)

theorem union_round_trip_witness:
  "\<exists>bs. union_encode sample_avro sample_orders (set_LogItem sample_item json_union_new) = Inr bs \<and>
     union_decode sample_avro sample_orders json_union_new (bs @ []) = Inr (set_LogItem sample_item json_union_new, [])"
  using union_round_trip [OF sample_avro_ok sample_orders_ok setters_ok(8) [OF sample_item_valid]] by blast

end
