(* ===== verification/Price_Hmac.thy ===== *)
theory Price_Hmac
  imports Url_Codec Complex_Main
begin

text \<open>
  Model of the winning-price decoders that unseal an HMAC-protected price: protocol/baidu/baidu_price.cpp
  and protocol/guangyin/guangyin_price.cpp (the same code with other keys), protocol/360/360max_price.cpp and
  protocol/kupai/kupai_price_decode.cpp.  The message is a 16-byte vector, the 8 bytes of the price under a
  key stream, and the first four bytes of a signature.  OpenSSL's HMAC and the base64 decoders of OpenSSL and
  boost are parameters.
\<close>

section \<open>Words in memory\<close>

text \<open>\<open>memcpy\<close> between an integer variable and bytes, on x86-64.\<close>

fun le_word :: "byte list \<Rightarrow> 'w::len word" where
  "le_word [] = 0"
| "le_word (b # bs) = ucast b OR push_bit 8 (le_word bs)"

definition le_bytes :: "nat \<Rightarrow> 'w::len word \<Rightarrow> byte list" where
  "le_bytes k w = map (\<lambda>i. ucast (drop_bit (8 * i) w)) [0..<k]"

text \<open>\<open>ntohl\<close> of the C library reverses the bytes in memory.\<close>

definition ntohl :: "u32 \<Rightarrow> u32" where
  "ntohl w = le_word (rev (le_bytes 4 w))"

definition ntohll :: "u64 \<Rightarrow> u64" where
  "ntohll host_int = ucast (ntohl (ucast (drop_bit 32 host_int))) OR push_bit 32 (ucast (ntohl (ucast host_int)))"

section \<open>Sealed prices\<close>

text \<open>What the exchange sends: the reference for the decoders.\<close>

definition seal :: "(byte list \<Rightarrow> byte list) \<Rightarrow> (byte list \<Rightarrow> byte list) \<Rightarrow> byte list \<Rightarrow> byte list \<Rightarrow> byte list" where
  "seal stream tag iv plain = iv @ map2 (XOR) plain (stream iv) @ take 4 (tag (plain @ iv))"

definition sealed :: "(byte list \<Rightarrow> byte list) \<Rightarrow> (byte list \<Rightarrow> byte list) \<Rightarrow> byte list \<Rightarrow> byte list \<Rightarrow> bool" where
  "sealed stream tag bs plain \<longleftrightarrow> length plain = 8 \<and> (\<exists>iv. length iv = 16 \<and> bs = seal stream tag iv plain)"

text \<open>What every decoder computes on 28 bytes.\<close>

definition unseal :: "(byte list \<Rightarrow> byte list) \<Rightarrow> (byte list \<Rightarrow> byte list) \<Rightarrow> byte list \<Rightarrow> byte list option" where
  "unseal stream tag bs =
     (let iv = take 16 bs; plain = map2 (XOR) (take 8 (drop 16 bs)) (stream iv)
      in if take 4 (tag (plain @ iv)) = take 4 (drop 24 bs) then Some plain else None)"

lemma xor_twice: "length a = length b \<Longrightarrow> map2 (XOR) (map2 (XOR) a b) b = (a :: byte list)"
  by (induction a b rule: list_induct2) (simp_all add: xor.assoc)

lemma map2_take: "map2 f xs (take (length xs) ys) = map2 f xs ys"
  by (induction xs ys rule: list_induct2') simp_all

lemma xor_stream: "length a \<le> length b \<Longrightarrow> map2 (XOR) (map2 (XOR) a b) b = (a :: byte list)"
  using xor_twice [of a "take (length a) b"] map2_take [of "(XOR)" a b] map2_take [of "(XOR)" "map2 (XOR) a b" b]
  by (simp add: min_absorb1)

lemma unseal_seal:
  assumes "length iv = 16" "length plain = 8" "length (stream iv) \<ge> 8" "length (tag (plain @ iv)) \<ge> 4"
  shows "unseal stream tag (seal stream tag iv plain @ rest) = Some plain"
  using assms xor_stream [of plain "stream iv"] by (simp add: unseal_def seal_def Let_def)

lemma unseal_iff:
  assumes len: "length bs = 28" "\<And>iv. length (stream iv) \<ge> 8" "\<And>m. length (tag m) \<ge> 4"
  shows "unseal stream tag bs = Some plain \<longleftrightarrow> sealed stream tag bs plain"
proof
  assume "unseal stream tag bs = Some plain"
  then have u: "plain = map2 (XOR) (take 8 (drop 16 bs)) (stream (take 16 bs))"
    "take 4 (tag (plain @ take 16 bs)) = take 4 (drop 24 bs)"
    by (auto simp: unseal_def Let_def split: if_splits)
  have "bs = take 16 bs @ take 8 (drop 16 bs) @ take 4 (drop 24 bs)"
    using len(1) append_take_drop_id [of 16 bs] append_take_drop_id [of 8 "drop 16 bs"] by simp
  moreover have "map2 (XOR) plain (stream (take 16 bs)) = take 8 (drop 16 bs)"
    unfolding u(1) by (rule xor_stream) (use len in simp)
  moreover have "length plain = 8" using u(1) len(1) len(2) [of "take 16 bs"] by simp
  ultimately show "sealed stream tag bs plain"
    using u(2) len(1) by (auto simp: sealed_def seal_def intro!: exI [of _ "take 16 bs"])
next
  assume "sealed stream tag bs plain"
  then show "unseal stream tag bs = Some plain"
    using unseal_seal [of _ plain stream tag "[]"] len(2,3) by (auto simp: sealed_def)
qed

lemma bit_le_word:
  "bit (le_word bs :: 'w::len word) n \<longleftrightarrow> n < LENGTH('w) \<and> n div 8 < length bs \<and> bit (bs ! (n div 8)) (n mod 8)"
proof (induction bs arbitrary: n)
  case (Cons b bs)
  show ?case
  proof (cases "n < 8")
    case True
    then show ?thesis by (auto simp: bit_simps)
  next
    case False
    then have "n div 8 = Suc ((n - 8) div 8)" "n mod 8 = (n - 8) mod 8" "\<not> bit b n"
      using bit_imp_le_length [of b n] by (auto simp: div_if mod_if)
    with False Cons.IH [of "n - 8"] show ?thesis by (auto simp: bit_simps)
  qed
qed simp

lemma length_le_bytes [simp]: "length (le_bytes k w) = k"
  by (simp add: le_bytes_def)

lemma nth_le_bytes [simp]: "i < k \<Longrightarrow> le_bytes k w ! i = ucast (drop_bit (8 * i) w)"
  by (simp add: le_bytes_def)

lemma le_word_inverse: "LENGTH('w) \<le> 8 * k \<Longrightarrow> le_word (le_bytes k w) = (w :: 'w::len word)"
  by (rule bit_word_eqI) (simp add: bit_le_word bit_simps div_less_iff_less_mult mult.commute)

lemma le_bytes_inverse: "8 * length bs \<le> LENGTH('w) \<Longrightarrow> le_bytes (length bs) (le_word bs :: 'w::len word) = bs"
  by (rule nth_equalityI) (auto intro!: bit_word_eqI simp: bit_simps bit_le_word)

lemma bit_ntohl: "bit (ntohl w) n \<longleftrightarrow> n < 32 \<and> bit w (8 * (3 - n div 8) + n mod 8)"
  by (auto simp: ntohl_def bit_le_word rev_nth bit_simps)

lemma bit_ntohll: "bit (ntohll w) n \<longleftrightarrow> n < 64 \<and> bit w (8 * (7 - n div 8) + n mod 8)"
proof (cases "n < 32")
  case True
  then have "n div 8 \<le> 3" by simp
  then have eq: "32 + (8 * (3 - n div 8) + n mod 8) = 8 * (7 - n div 8) + n mod 8" by simp
  have "8 * (3 - n div 8) + n mod 8 < 32" by simp
  with True show ?thesis unfolding eq [symmetric] by (simp add: ntohll_def bit_simps bit_ntohl)
next
  case False
  then obtain m where n: "n = 32 + m" using le_Suc_ex [of 32 n] by auto
  have eq: "(32 + m) div 8 = 4 + m div 8" "(32 + m) mod 8 = m mod 8" "8 * (3 - m div 8) + m mod 8 < 32" by presburger+
  then show ?thesis unfolding n by (auto simp: ntohll_def bit_simps bit_ntohl)
qed

lemma mirrored_bit: "8 * (7 - n div 8) + n mod 8 < (64 :: nat)"
  by presburger

lemma ntohll_twice: "ntohll (ntohll w) = w"
  by (rule bit_word_eqI) (simp add: bit_ntohll mirrored_bit)

lemma ntohll_le_word: "length bs = 8 \<Longrightarrow> ntohll (le_word bs) = le_word (rev bs)"
  by (rule bit_word_eqI) (auto simp: bit_ntohll bit_le_word rev_nth)


section \<open>Baidu and Guangyin\<close>

text \<open>\<open>HMAC(EVP_sha1(), key, data)\<close>, \<open>None\<close> if it fails; the bytes read by \<open>BIO_read\<close>, \<open>None\<close> for a negative count.\<close>

type_synonym hmac_sha1 = "byte list \<Rightarrow> byte list \<Rightarrow> byte list option"
type_synonym bio_base64 = "string \<Rightarrow> byte list option"

text \<open>The bytes of \<open>data()\<close> that may be read end with the terminating zero.\<close>

definition read_mem :: "byte list \<Rightarrow> nat \<Rightarrow> nat \<Rightarrow> byte list result" where
  "read_mem s from n = (if from + n \<le> length s + 1 then Inr (take n (drop from (s @ [0]))) else Inl MemoryFault)"

definition decrypt_int64 :: "hmac_sha1 \<Rightarrow> byte list \<Rightarrow> byte list \<Rightarrow> byte list \<Rightarrow> int option result" where
  "decrypt_int64 HMAC encrypted_value encryption_key integrity_key =
     bind_result (read_mem encrypted_value 0 16) (\<lambda>initialization_vector.
     case HMAC encryption_key initialization_vector of
       None \<Rightarrow> Inr None
     | Some price_pad \<Rightarrow>
         bind_result (read_mem encrypted_value 16 8) (\<lambda>ciphertext_bytes.
         let plaintext_bytes = map2 (XOR) ciphertext_bytes price_pad;
             value = ntohll (le_word plaintext_bytes)
         in case HMAC integrity_key (plaintext_bytes @ initialization_vector) of
              None \<Rightarrow> Inr None
            | Some integrity_hash \<Rightarrow>
                bind_result (read_mem encrypted_value 24 4) (\<lambda>signature.
                Inr (if take 4 integrity_hash = signature then Some (sint value) else None))))"

text \<open>\<open>output->assign(temp, out_length)\<close> throws \<open>length_error\<close> for a negative count.\<close>

definition base64_decode :: "bio_base64 \<Rightarrow> string \<Rightarrow> byte list result" where
  "base64_decode bio encoded = (case bio encoded of Some bs \<Rightarrow> Inr bs | None \<Rightarrow> Inl (MtError ''length_error''))"

lemma find_char_Some: "find_sub [c] s = Some i \<Longrightarrow> i < length s \<and> s ! i = c \<and> (\<forall>j < i. s ! j \<noteq> c)"
  by (induction s arbitrary: i) (auto simp: nth_Cons split: if_splits nat.splits)

lemma find_char_None: "find_sub [c] s = None \<longleftrightarrow> c \<notin> set s"
  by (induction s) auto

text \<open>The two loops of \<open>web_safe_base64_decode\<close>: from \<open>index + 1\<close> on, replace every \<open>oc\<close>.\<close>

function replace_loop :: "char \<Rightarrow> char \<Rightarrow> nat \<Rightarrow> string \<Rightarrow> string" where
  "replace_loop oc nc from s =
     (case str_find s [oc] from of
        None \<Rightarrow> s
      | Some index \<Rightarrow> replace_loop oc nc (index + 1) (s[index := nc]))"
  by pat_completeness auto
termination
  by (relation "measure (\<lambda>(oc, nc, from, s). length s - from)")
    (auto simp: str_find_def dest!: find_char_Some split: if_splits)

declare replace_loop.simps [simp del]

definition web_safe_base64_decode :: "bio_base64 \<Rightarrow> string \<Rightarrow> byte list result" where
  "web_safe_base64_decode bio encoded =
     base64_decode bio (replace_loop CHR ''_'' CHR ''/'' 0 (replace_loop CHR ''-'' CHR ''+'' 0 encoded))"

definition add_padding :: "string \<Rightarrow> string" where
  "add_padding b64_string =
     (if length b64_string mod 4 = 3 then b64_string @ ''=''
      else if length b64_string mod 4 = 2 then b64_string @ ''==''
      else b64_string)"

definition hmac_price_decode :: "hmac_sha1 \<Rightarrow> bio_base64 \<Rightarrow> byte list \<Rightarrow> byte list \<Rightarrow> string \<Rightarrow> int result" where
  "hmac_price_decode HMAC bio ENCRYPTION_KEY INTEGRITY_KEY encryption_value =
     bind_result (web_safe_base64_decode bio (add_padding encryption_value)) (\<lambda>decode_value.
     bind_result (decrypt_int64 HMAC decode_value ENCRYPTION_KEY INTEGRITY_KEY) (\<lambda>act_value.
       Inr (case act_value of None \<Rightarrow> 0 | Some v \<Rightarrow> v)))"

definition baidu_encryption_key :: "byte list" where
  "baidu_encryption_key =
     [0x01, 0x1d, 0x6a, 0x0b, 0x00, 0x2a, 0xa1, 0x12, 0xde, 0x49, 0x48, 0x51, 0x00, 0x2a, 0xa1, 0x12,
      0xde, 0x49, 0x8d, 0xdc, 0x00, 0x2a, 0xa1, 0x12, 0xde, 0x49, 0x98, 0xce, 0x85, 0x76, 0xb3, 0xaf]"

definition baidu_integrity_key :: "byte list" where
  "baidu_integrity_key =
     [0x01, 0x1d, 0x6a, 0x0b, 0x00, 0x2a, 0xa1, 0x12, 0xde, 0x4a, 0x17, 0x7a, 0x00, 0x2a, 0xa1, 0x12,
      0xde, 0x4a, 0x20, 0x98, 0x00, 0x2a, 0xa1, 0x12, 0xde, 0x4a, 0x25, 0xf2, 0xd3, 0x93, 0x5b, 0x25]"

definition guangyin_encryption_key :: "byte list" where
  "guangyin_encryption_key =
     [0x4c, 0x75, 0xa4, 0x10, 0x5a, 0xa9, 0xa8, 0xef, 0xf1, 0x0b, 0x2f, 0x61, 0x4e, 0x96, 0xb1, 0x9e,
      0x89, 0x46, 0x4f, 0xe5, 0xf6, 0x82, 0xd2, 0x20, 0xc9, 0x06, 0x44, 0x05, 0x0d, 0x9c, 0xf2, 0x1f]"

definition guangyin_integrity_key :: "byte list" where
  "guangyin_integrity_key =
     [0xa9, 0xf1, 0x9b, 0x14, 0x98, 0x55, 0xd4, 0xb8, 0xfc, 0xbf, 0xd3, 0xca, 0x68, 0x2b, 0x2d, 0x07,
      0x53, 0x9c, 0x03, 0xcc, 0x1a, 0x8b, 0xab, 0xc4, 0x5d, 0x91, 0x9e, 0x3e, 0xdb, 0x98, 0x0f, 0x52]"

definition baidu_price_decode :: "hmac_sha1 \<Rightarrow> bio_base64 \<Rightarrow> string \<Rightarrow> int result" where
  "baidu_price_decode HMAC bio = hmac_price_decode HMAC bio baidu_encryption_key baidu_integrity_key"

definition guangyin_price_decode :: "hmac_sha1 \<Rightarrow> bio_base64 \<Rightarrow> string \<Rightarrow> int result" where
  "guangyin_price_decode HMAC bio = hmac_price_decode HMAC bio guangyin_encryption_key guangyin_integrity_key"

section \<open>360 and Kupai\<close>

datatype digest = SHA512 | SHA256 | SHA1 | MD5 | SHA224 | SHA384 | SHA

type_synonym hmac_evp = "digest \<Rightarrow> byte list \<Rightarrow> byte list \<Rightarrow> byte list"
type_synonym boost_base64 = "string \<Rightarrow> byte list option"

definition toDigit :: "char \<Rightarrow> nat \<Rightarrow> int result" where
  "toDigit ch index =
     (if CHR ''0'' \<le> ch \<and> ch \<le> CHR ''9'' then Inr (schar ch - schar CHR ''0'')
      else if CHR ''a'' \<le> ch \<and> ch \<le> CHR ''f'' then Inr (schar ch + 10 - schar CHR ''a'')
      else if CHR ''A'' \<le> ch \<and> ch \<le> CHR ''F'' then Inr (schar ch + 10 - schar CHR ''A'')
      else Inl (MtError ''PriceDecodeException''))"

fun decodeHex_loop :: "string \<Rightarrow> nat \<Rightarrow> byte list result" where
  "decodeHex_loop (a # b # rest) j =
     bind_result (toDigit a j) (\<lambda>hi. bind_result (toDigit b (j + 1)) (\<lambda>lo.
     bind_result (decodeHex_loop rest (j + 2)) (\<lambda>out.
       Inr (word_of_int ((push_bit 4 hi OR lo) AND 255) # out))))"
| "decodeHex_loop _ j = Inr []"

definition decodeHex :: "string \<Rightarrow> byte list result" where
  "decodeHex data = (if odd (length data) then Inl (MtError ''PriceDecodeException'') else decodeHex_loop data 0)"

definition hmac_engine :: "string \<Rightarrow> digest option" where
  "hmac_engine algorithm =
     (if algorithm = ''HmacSHA512'' then Some SHA512 else if algorithm = ''HmacSHA256'' then Some SHA256
      else if algorithm = ''HmacSHA1'' then Some SHA1 else if algorithm = ''HmacMD5'' then Some MD5
      else if algorithm = ''HmacSHA224'' then Some SHA224 else if algorithm = ''HmacSHA384'' then Some SHA384
      else if algorithm = ''HmacSHA'' then Some SHA else None)"

text \<open>The result has the length \<open>EVP_MAX_MD_SIZE\<close>, zeros after the code.\<close>

definition hmac :: "hmac_evp \<Rightarrow> byte list \<Rightarrow> byte list \<Rightarrow> string \<Rightarrow> byte list result" where
  "hmac evp data key algorithm =
     (case hmac_engine algorithm of None \<Rightarrow> Inl (MtError ''PriceDecodeException'')
      | Some engine \<Rightarrow> Inr (take 64 (evp engine key data @ replicate 64 0)))"

definition xorBytes :: "byte list \<Rightarrow> byte list \<Rightarrow> nat \<Rightarrow> byte list result" where
  "xorBytes bytes1 bytes2 n =
     (if n \<le> length bytes1 \<and> n \<le> length bytes2 then Inr (map2 (XOR) (take n bytes1) (take n bytes2)) else Inl MemoryFault)"

text \<open>\<open>boost::replace_all\<close> of one character by another.\<close>

definition from_web_safe :: "char \<Rightarrow> char" where
  "from_web_safe c = (if c = CHR ''-'' then CHR ''+'' else if c = CHR ''_'' then CHR ''/'' else c)"

text \<open>The part \<open>decodePrice\<close> of both files has in common: the eight bytes of the price, if the signature holds.\<close>

definition decodePrice_bytes :: "hmac_evp \<Rightarrow> boost_base64 \<Rightarrow> string \<Rightarrow> string \<Rightarrow> string \<Rightarrow> byte list result" where
  "decodePrice_bytes evp b64 dec_key i_key e_enc =
     (case b64 (map from_web_safe e_enc) of
        None \<Rightarrow> Inl (MtError ''PriceDecodeException'')
      | Some e_src \<Rightarrow>
          if length e_src < 28 then Inl MemoryFault
          else let iv = take 16 e_src; en_price = take 8 (drop 16 e_src); integrity = take 4 (drop 24 e_src)
               in bind_result (decodeHex dec_key) (\<lambda>k. bind_result (hmac evp iv k ''HmacSHA1'') (\<lambda>de_byte.
                  bind_result (xorBytes en_price de_byte 8) (\<lambda>dec_price.
                  bind_result (decodeHex i_key) (\<lambda>ik. bind_result (hmac evp (dec_price @ iv) ik ''HmacSHA1'') (\<lambda>o_ikey.
                    if integrity = take 4 o_ikey then Inr dec_price else Inl (MtError ''PriceDecodeException''))))))) "


text \<open>An \<open>int64_t\<close> converted to \<open>double\<close> is rounded to 53 significant bits, to nearest, ties to even.\<close>

function excess_bits :: "nat \<Rightarrow> nat" where
  "excess_bits m = (if m < 2 ^ 53 then 0 else Suc (excess_bits (m div 2)))"
  by pat_completeness auto
termination
  by (relation "measure id") auto

declare excess_bits.simps [simp del]

definition int64_to_double :: "int \<Rightarrow> int" where
  "int64_to_double n =
     (if \<bar>n\<bar> < 2 ^ 53 then n
      else let u = 2 ^ excess_bits (nat \<bar>n\<bar>); q = \<bar>n\<bar> div u; r = \<bar>n\<bar> mod u
           in sgn n * u * (if 2 * r > u \<or> 2 * r = u \<and> odd q then q + 1 else q))"

text \<open>The value of the bits of a \<open>double\<close>; \<open>None\<close> for infinities and NaN.\<close>

definition ieee_value :: "u64 \<Rightarrow> rat option" where
  "ieee_value w =
     (let e = unat (drop_bit 52 w AND 0x7FF); m = uint (w AND 0xFFFFFFFFFFFFF); sg = (if bit w 63 then -1 else 1)
      in if e = 0x7FF then None
         else if e = 0 then Some (sg * of_int m / 2 ^ 1074)
         else Some (sg * of_int (2 ^ 52 + m) * 2 ^ e / 2 ^ 1075))"

text \<open>\<open>(int64_t)result\<close>: truncated; what \<open>cvttsd2si\<close> gives where the language leaves it undefined.\<close>

definition truncate :: "rat \<Rightarrow> int" where
  "truncate q = (if q < 0 then \<lceil>q\<rceil> else \<lfloor>q\<rfloor>)"

definition double_to_int64 :: "rat option \<Rightarrow> int" where
  "double_to_int64 d =
     (case d of None \<Rightarrow> int64_min
      | Some q \<Rightarrow> if int64_min \<le> truncate q \<and> truncate q \<le> int64_max then truncate q else int64_min)"

definition max360_DEC_KEY :: string where
  "max360_DEC_KEY = ''890ec02651413eb78f4569c76821397d7323ca10538d46b17ddbb08a5ac5c343''"

definition max360_IKEY :: string where
  "max360_IKEY = ''f564fb940597adf219c59dbff5025d206a32a9ab3d94f68def0a793ccc397e1a''"

definition max360_decodePrice :: "hmac_evp \<Rightarrow> boost_base64 \<Rightarrow> string \<Rightarrow> string \<Rightarrow> string \<Rightarrow> rat result" where
  "max360_decodePrice evp b64 dec_key i_key e_enc =
     bind_result (decodePrice_bytes evp b64 dec_key i_key e_enc) (\<lambda>dec_price.
       let dec_price_bigendian = rev dec_price; price = sint (le_word dec_price_bigendian :: u64)
       in Inr (of_int (int64_to_double price)))"

definition max360_price_decode :: "hmac_evp \<Rightarrow> boost_base64 \<Rightarrow> string \<Rightarrow> int result" where
  "max360_price_decode evp b64 input =
     (case max360_decodePrice evp b64 max360_DEC_KEY max360_IKEY input of
        Inr result \<Rightarrow> Inr (double_to_int64 (Some result))
      | Inl MemoryFault \<Rightarrow> Inl MemoryFault
      | Inl e \<Rightarrow> Inr 0)"

definition kupai_DEC_KEY :: string where
  "kupai_DEC_KEY = ''5a88b012c4d5aa79f8e852ba6da099d989681ace''"

definition kupai_IKEY :: string where
  "kupai_IKEY = ''6606f210b823e2688faec7947e9d82aa0c1f65fa''"

definition kupai_decodePrice :: "hmac_evp \<Rightarrow> boost_base64 \<Rightarrow> string \<Rightarrow> string \<Rightarrow> string \<Rightarrow> rat option result" where
  "kupai_decodePrice evp b64 dec_key i_key e_enc =
     bind_result (decodePrice_bytes evp b64 dec_key i_key e_enc) (\<lambda>dec_price. Inr (ieee_value (le_word dec_price)))"

definition kupai_price_decode :: "hmac_evp \<Rightarrow> boost_base64 \<Rightarrow> string \<Rightarrow> int result" where
  "kupai_price_decode evp b64 input =
     (case kupai_decodePrice evp b64 kupai_DEC_KEY kupai_IKEY input of
        Inr result \<Rightarrow> Inr (double_to_int64 result)
      | Inl MemoryFault \<Rightarrow> Inl MemoryFault
      | Inl e \<Rightarrow> Inr 0)"

section \<open>Unsealing\<close>

lemma replace_loop_nth:
  "length (replace_loop oc nc from s) = length s \<and>
   (\<forall>j < length s. replace_loop oc nc from s ! j = (if from \<le> j \<and> s ! j = oc then nc else s ! j))"
proof (induction oc nc "from" s rule: replace_loop.induct)
  case (1 oc nc "from" s)
  show ?case
  proof (cases "str_find s [oc] from")
    case None
    then have "oc \<notin> set (drop from s)" by (auto simp: str_find_def find_char_None split: if_splits)
    then have "\<forall>j < length s. from \<le> j \<longrightarrow> s ! j \<noteq> oc" by (auto simp: in_set_conv_nth) (metis add_diff_inverse_nat diff_less_mono leD)
    with None show ?thesis by (auto simp: replace_loop.simps [of oc nc "from" s])
  next
    case (Some i)
    then obtain k where k: "find_sub [oc] (drop from s) = Some k" "i = from + k" "from \<le> length s"
      by (auto simp: str_find_def split: if_splits)
    have f: "k < length s - from" "s ! i = oc" "\<forall>j < k. s ! (from + j) \<noteq> oc"
      using find_char_Some [OF k(1)] k(2,3) by simp_all
    then have "i < length s" using k(2) by linarith
    moreover have "s ! j \<noteq> oc" if "from \<le> j" "j < i" for j
      using f(3) [rule_format, of "j - from"] k(2) that by simp
    moreover note f(2)
    ultimately show ?thesis
      using 1 [OF Some] Some k(2) by (auto simp: replace_loop.simps [of oc nc "from" s] nth_list_update)
  qed
qed

lemma web_safe_loops: "replace_loop CHR ''_'' CHR ''/'' 0 (replace_loop CHR ''-'' CHR ''+'' 0 s) = map from_web_safe s"
  by (rule nth_equalityI) (auto simp: replace_loop_nth from_web_safe_def)

definition hmac_ok :: "hmac_sha1 \<Rightarrow> bool" where
  "hmac_ok HMAC \<longleftrightarrow> (\<forall>k m. \<exists>d. HMAC k m = Some d \<and> length d = 20)"

definition mac_of :: "hmac_sha1 \<Rightarrow> byte list \<Rightarrow> byte list \<Rightarrow> byte list" where
  "mac_of HMAC k m = (case HMAC k m of Some d \<Rightarrow> d | None \<Rightarrow> [])"

lemma hmac_okD: "hmac_ok HMAC \<Longrightarrow> HMAC k m = Some (mac_of HMAC k m) \<and> length (mac_of HMAC k m) = 20"
  unfolding hmac_ok_def mac_of_def by (metis option.simps(5))

lemma unseal_take: "unseal stream tag (take 28 m) = unseal stream tag m"
  by (simp add: unseal_def drop_take)

lemma decrypt_unseal:
  assumes "hmac_ok HMAC" "27 \<le> length data"
  shows "decrypt_int64 HMAC data ek ik =
    Inr (map_option (\<lambda>p. sint (ntohll (le_word p))) (unseal (mac_of HMAC ek) (mac_of HMAC ik) (take 28 (data @ [0]))))"
proof -
  define m where "m = data @ [0]"
  have "read_mem data 0 16 = Inr (take 16 m)" "read_mem data 16 8 = Inr (take 8 (drop 16 m))"
    "read_mem data 24 4 = Inr (take 4 (drop 24 m))"
    using assms(2) by (simp_all add: read_mem_def m_def)
  then show ?thesis unfolding m_def [symmetric] unseal_take
    using hmac_okD [OF assms(1)] by (simp add: decrypt_int64_def unseal_def Let_def)
qed

lemma decrypt_short:
  assumes "hmac_ok HMAC" "length data < 27"
  shows "decrypt_int64 HMAC data ek ik = Inl MemoryFault"
  using assms(2) hmac_okD [OF assms(1)] by (simp add: decrypt_int64_def read_mem_def Let_def)


text \<open>The message an exchange with these keys sends for the price \<open>v\<close>, in network byte order.\<close>

definition price_bytes :: "int \<Rightarrow> byte list" where
  "price_bytes v = rev (le_bytes 8 (word_of_int v :: u64))"

definition price_message :: "hmac_sha1 \<Rightarrow> byte list \<Rightarrow> byte list \<Rightarrow> byte list \<Rightarrow> int \<Rightarrow> byte list" where
  "price_message HMAC ek ik iv v = seal (mac_of HMAC ek) (mac_of HMAC ik) iv (price_bytes v)"

lemma sint_word_of_int64: "int64_min \<le> v \<Longrightarrow> v \<le> int64_max \<Longrightarrow> sint (word_of_int v :: u64) = v"
  by (simp add: int_limits sint_sbintrunc' signed_take_bit_int_eq_self)

lemma length_price_bytes [simp]: "length (price_bytes v) = 8"
  by (simp add: price_bytes_def)

lemma price_bytes_value:
  "int64_min \<le> v \<Longrightarrow> v \<le> int64_max \<Longrightarrow> sint (ntohll (le_word (price_bytes v))) = v"
  using ntohll_le_word [of "price_bytes v"] by (simp add: price_bytes_def le_word_inverse sint_word_of_int64)

lemma price_bytes_onto: "length p = 8 \<Longrightarrow> p = price_bytes (sint (ntohll (le_word p)))"
  using ntohll_le_word [of p] le_bytes_inverse [of "rev p", where 'w = 64] by (simp add: price_bytes_def)

lemma sint64_range: "int64_min \<le> sint (w :: u64)" "sint (w :: u64) \<le> int64_max"
  using sint_greater_eq [of w] sint_less [of w] by (simp_all add: int_limits)

lemma mac_length: "hmac_ok HMAC \<Longrightarrow> 8 \<le> length (mac_of HMAC k m)" "hmac_ok HMAC \<Longrightarrow> 4 \<le> length (mac_of HMAC k m)"
  using hmac_okD [of HMAC k m] by auto

lemma length_price_message: "hmac_ok HMAC \<Longrightarrow> length iv = 16 \<Longrightarrow> length (price_message HMAC ek ik iv v) = 28"
  using mac_length [of HMAC ek iv] mac_length [of HMAC ik "price_bytes v @ iv"] by (simp add: price_message_def seal_def)

lemma price_decode_decrypt:
  assumes "bio (map from_web_safe (add_padding t)) = Some data"
  shows "hmac_price_decode HMAC bio ek ik t = bind_result (decrypt_int64 HMAC data ek ik)
    (\<lambda>act_value. Inr (case act_value of None \<Rightarrow> 0 | Some v \<Rightarrow> v))"
  using assms by (simp add: hmac_price_decode_def web_safe_base64_decode_def base64_decode_def web_safe_loops)

lemma price_decode_unseal:
  assumes "hmac_ok HMAC" "bio (map from_web_safe (add_padding t)) = Some data" "28 \<le> length data"
  shows "hmac_price_decode HMAC bio ek ik t =
    Inr (case unseal (mac_of HMAC ek) (mac_of HMAC ik) (take 28 data) of None \<Rightarrow> 0 | Some p \<Rightarrow> sint (ntohll (le_word p)))"
  using decrypt_unseal [OF assms(1), of data ek ik] assms(3)
  by (simp add: price_decode_decrypt [where bio = bio and t = t, OF assms(2)] split: option.split)

lemma price_decode_accepts:
  assumes "hmac_ok HMAC" "bio (map from_web_safe (add_padding t)) = Some data" "length iv = 16"
    "int64_min \<le> v" "v \<le> int64_max" "take 28 data = price_message HMAC ek ik iv v"
  shows "hmac_price_decode HMAC bio ek ik t = Inr v"
proof -
  have "28 \<le> length data" using length_price_message [OF assms(1,3)] assms(6) by (metis length_take min.cobounded1)
  moreover have "unseal (mac_of HMAC ek) (mac_of HMAC ik) (take 28 data) = Some (price_bytes v)"
    unfolding assms(6) price_message_def
    using unseal_seal [of iv "price_bytes v" "mac_of HMAC ek" "mac_of HMAC ik" "[]"] mac_length [OF assms(1)] assms(3) by simp
  ultimately show ?thesis using price_decode_unseal [where bio = bio and t = t, OF assms(1,2)] assms(4,5) by (simp add: price_bytes_value)
qed

lemma price_decode_rejects:
  assumes "hmac_ok HMAC" "bio (map from_web_safe (add_padding t)) = Some data" "28 \<le> length data"
    "\<forall>iv v. length iv = 16 \<longrightarrow> take 28 data \<noteq> price_message HMAC ek ik iv v"
  shows "hmac_price_decode HMAC bio ek ik t = Inr 0"
proof -
  have "\<not> sealed (mac_of HMAC ek) (mac_of HMAC ik) (take 28 data) p" for p
    using assms(4) price_bytes_onto [of p] unfolding sealed_def price_message_def by metis
  moreover have "unseal (mac_of HMAC ek) (mac_of HMAC ik) (take 28 data) = Some p \<longleftrightarrow>
      sealed (mac_of HMAC ek) (mac_of HMAC ik) (take 28 data) p" for p
    by (rule unseal_iff) (use assms(3) mac_length [OF assms(1)] in simp_all)
  ultimately have "unseal (mac_of HMAC ek) (mac_of HMAC ik) (take 28 data) = None" by (metis option.exhaust)
  then show ?thesis using price_decode_unseal [where bio = bio and t = t, OF assms(1-3)] by simp
qed

text \<open>C21: A Baidu or Guangyin price is accepted exactly if it is a message sealed with the two keys, and then the price
  is the sealed one; any other text of at least 28 bytes gives 0.  The length is not checked: a message of less than 27
  bytes is read beyond its end.\<close>

theorem hmac_price_decode_spec:
  assumes "hmac_ok HMAC" "bio (map from_web_safe (add_padding t)) = Some data"
  shows "(length data < 27 \<longrightarrow> hmac_price_decode HMAC bio ek ik t = Inl MemoryFault) \<and>
    (\<forall>iv v. length iv = 16 \<and> int64_min \<le> v \<and> v \<le> int64_max \<and> take 28 data = price_message HMAC ek ik iv v \<longrightarrow>
       hmac_price_decode HMAC bio ek ik t = Inr v) \<and>
    (28 \<le> length data \<and> (\<forall>iv v. length iv = 16 \<longrightarrow> take 28 data \<noteq> price_message HMAC ek ik iv v) \<longrightarrow>
       hmac_price_decode HMAC bio ek ik t = Inr 0)"
  using price_decode_accepts [where bio = bio and t = t, OF assms] price_decode_rejects [where bio = bio and t = t, OF assms] price_decode_decrypt [of bio t data HMAC ek ik]
    decrypt_short [OF assms(1), of data ek ik] assms(2) by auto

lemma int64_500: "int64_min \<le> 500" "500 \<le> int64_max"
  by (simp_all add: int_limits)

definition sample_hmac :: hmac_sha1 where
  "sample_hmac k m = Some (replicate 20 (foldr (+) (k @ m) 0))"

theorem hmac_price_decode_spec_witness:
  "baidu_price_decode sample_hmac
     (\<lambda>_. Some (price_message sample_hmac baidu_encryption_key baidu_integrity_key (replicate 16 7) 500)) ''x'' = Inr 500 \<and>
   guangyin_price_decode sample_hmac (\<lambda>_. Some [1, 2, 3]) ''x'' = Inl MemoryFault"
proof -
  have ok: "hmac_ok sample_hmac" by (simp add: hmac_ok_def sample_hmac_def)
  let ?m = "price_message sample_hmac baidu_encryption_key baidu_integrity_key (replicate 16 7) 500"
  have "take 28 ?m = ?m" using length_price_message [OF ok, of "replicate 16 7"] by simp
  then have "hmac_price_decode sample_hmac (\<lambda>_. Some ?m) baidu_encryption_key baidu_integrity_key ''x'' = Inr 500"
    using hmac_price_decode_spec [of sample_hmac "\<lambda>_. Some ?m" "''x''" ?m baidu_encryption_key baidu_integrity_key, OF ok refl]
    by (metis (no_types, lifting) int64_500 length_replicate)
  moreover have "hmac_price_decode sample_hmac (\<lambda>_. Some [1, 2, 3]) guangyin_encryption_key guangyin_integrity_key ''x'' = Inl MemoryFault"
    using hmac_price_decode_spec [of sample_hmac "\<lambda>_. Some [1, 2, 3]" "''x''" "[1, 2, 3]", OF ok refl] by simp
  ultimately show ?thesis by (simp add: baidu_price_decode_def guangyin_price_decode_def)
qed

section \<open>The decoders with hexadecimal keys\<close>

definition evp_ok :: "hmac_evp \<Rightarrow> bool" where
  "evp_ok evp \<longleftrightarrow> (\<forall>k m. length (evp SHA1 k m) = 20)"

definition hex_key :: "string \<Rightarrow> byte list" where
  "hex_key s = (case decodeHex s of Inr k \<Rightarrow> k | Inl _ \<Rightarrow> [])"

lemma decodePrice_bytes_unseal:
  assumes "evp_ok evp" "b64 (map from_web_safe e_enc) = Some data" "28 \<le> length data"
    "decodeHex dec_key = Inr k" "decodeHex i_key = Inr ik"
  shows "decodePrice_bytes evp b64 dec_key i_key e_enc =
    (case unseal (evp SHA1 k) (evp SHA1 ik) (take 28 data) of
       Some p \<Rightarrow> Inr p | None \<Rightarrow> Inl (MtError ''PriceDecodeException''))"
proof -
  have len: "length (evp SHA1 k m) = 20" for k m using assms(1) by (simp add: evp_ok_def)
  have eight: "length (take 8 (drop 16 data)) = 8" using assms(3) by simp
  have "map2 (XOR) (take 8 (drop 16 data)) (take 8 (evp SHA1 k m)) = map2 (XOR) (take 8 (drop 16 data)) (evp SHA1 k m)" for m
    using map2_take [of "(XOR)" "take 8 (drop 16 data)" "evp SHA1 k m"] unfolding eight .
  then show ?thesis unfolding unseal_take using assms len
    by (auto simp: decodePrice_bytes_def hmac_def hmac_engine_def xorBytes_def unseal_def Let_def)
qed


definition hex_digits :: string where
  "hex_digits = ''0123456789abcdefABCDEF''"

lemma toDigit_hex: "c \<in> set hex_digits \<Longrightarrow> \<exists>d. toDigit c j = Inr d"
  by (auto simp: toDigit_def hex_digits_def)

lemma decodeHex_loop_hex:
  "set s \<subseteq> set hex_digits \<Longrightarrow> \<exists>k. decodeHex_loop s j = Inr k"
proof (induction s j rule: decodeHex_loop.induct)
  case (1 a b rest j)
  from 1(2) obtain x y where d: "toDigit a j = Inr x" "toDigit b (j + 1) = Inr y"
    using toDigit_hex [of a j] toDigit_hex [of b "j + 1"] by auto
  from 1(1) [OF d] 1(2) obtain k where "decodeHex_loop rest (j + 2) = Inr k" by auto
  with d show ?case by simp
qed auto

lemma decodeHex_hex_key:
  "even (length s) \<Longrightarrow> set s \<subseteq> set hex_digits \<Longrightarrow> decodeHex s = Inr (hex_key s)"
  using decodeHex_loop_hex [of s 0] by (auto simp: decodeHex_def hex_key_def)

lemma keys_hex: "decodeHex max360_DEC_KEY = Inr (hex_key max360_DEC_KEY)" "decodeHex max360_IKEY = Inr (hex_key max360_IKEY)"
  "decodeHex kupai_DEC_KEY = Inr (hex_key kupai_DEC_KEY)" "decodeHex kupai_IKEY = Inr (hex_key kupai_IKEY)"
  by (rule decodeHex_hex_key; simp add: hex_digits_def max360_DEC_KEY_def max360_IKEY_def kupai_DEC_KEY_def kupai_IKEY_def)+

lemma evp_length: "evp_ok evp \<Longrightarrow> 8 \<le> length (evp SHA1 k m)" "evp_ok evp \<Longrightarrow> 4 \<le> length (evp SHA1 k m)"
  by (simp_all add: evp_ok_def)

definition accepted :: "hmac_evp \<Rightarrow> string \<Rightarrow> string \<Rightarrow> byte list \<Rightarrow> byte list \<Rightarrow> bool" where
  "accepted evp dec_key i_key data p \<longleftrightarrow> sealed (evp SHA1 (hex_key dec_key)) (evp SHA1 (hex_key i_key)) (take 28 data) p"

lemma unseal_accepted:
  assumes "evp_ok evp" "28 \<le> length data"
  shows "unseal (evp SHA1 (hex_key dec_key)) (evp SHA1 (hex_key i_key)) (take 28 data) = Some p \<longleftrightarrow>
    accepted evp dec_key i_key data p"
  unfolding accepted_def by (rule unseal_iff) (use assms evp_length in simp_all)

lemma max360_unseal:
  assumes "evp_ok evp" "b64 (map from_web_safe t) = Some data" "28 \<le> length data"
  shows "max360_price_decode evp b64 t =
    (case unseal (evp SHA1 (hex_key max360_DEC_KEY)) (evp SHA1 (hex_key max360_IKEY)) (take 28 data) of
       None \<Rightarrow> Inr 0 | Some p \<Rightarrow> Inr (double_to_int64 (Some (of_int (int64_to_double (sint (ntohll (le_word p))))))))"
proof -
  have "length p = 8" if "unseal (evp SHA1 (hex_key max360_DEC_KEY)) (evp SHA1 (hex_key max360_IKEY)) (take 28 data) = Some p" for p
    using that unfolding unseal_accepted [OF assms(1,3)] by (simp add: accepted_def sealed_def)
  then show ?thesis
    using decodePrice_bytes_unseal [of evp b64 t data, OF assms keys_hex(1,2)]
    by (auto simp: max360_price_decode_def max360_decodePrice_def ntohll_le_word split: option.split)
qed

lemma kupai_unseal:
  assumes "evp_ok evp" "b64 (map from_web_safe t) = Some data" "28 \<le> length data"
  shows "kupai_price_decode evp b64 t =
    (case unseal (evp SHA1 (hex_key kupai_DEC_KEY)) (evp SHA1 (hex_key kupai_IKEY)) (take 28 data) of
       None \<Rightarrow> Inr 0 | Some p \<Rightarrow> Inr (double_to_int64 (ieee_value (le_word p))))"
  using decodePrice_bytes_unseal [of evp b64 t data, OF assms keys_hex(3,4)]
  by (auto simp: kupai_price_decode_def kupai_decodePrice_def split: option.split)

lemma exact_double: "\<bar>v\<bar> < 2 ^ 53 \<Longrightarrow> double_to_int64 (Some (of_int (int64_to_double v))) = v"
  by (auto simp: int64_to_double_def double_to_int64_def truncate_def int_limits)

text \<open>C37: The 360 and Kupai decoders unseal the same message with keys of their own: 360 seals an integer, which
  survives the detour through \<open>double\<close> below two to the 53rd, Kupai a \<open>double\<close>, which is truncated; 28 bytes or more that are not
  sealed with the keys give 0 in both.\<close>

theorem hex_price_decoders_spec:
  assumes "evp_ok evp" "b64 (map from_web_safe t) = Some data" "28 \<le> length data"
  shows "(\<forall>v. \<bar>v\<bar> < 2 ^ 53 \<and> accepted evp max360_DEC_KEY max360_IKEY data (price_bytes v) \<longrightarrow>
       max360_price_decode evp b64 t = Inr v) \<and>
    (\<forall>w q. accepted evp kupai_DEC_KEY kupai_IKEY data (le_bytes 8 w) \<and> ieee_value w = Some q \<and>
       int64_min \<le> truncate q \<and> truncate q \<le> int64_max \<longrightarrow> kupai_price_decode evp b64 t = Inr (truncate q)) \<and>
    ((\<forall>p. \<not> accepted evp max360_DEC_KEY max360_IKEY data p) \<longrightarrow> max360_price_decode evp b64 t = Inr 0) \<and>
    ((\<forall>p. \<not> accepted evp kupai_DEC_KEY kupai_IKEY data p) \<longrightarrow> kupai_price_decode evp b64 t = Inr 0)"
proof -
  note u = unseal_accepted [OF assms(1,3)]
  note m360 = max360_unseal [of evp b64 t data, OF assms] and kup = kupai_unseal [of evp b64 t data, OF assms]
  have none: "unseal (evp SHA1 (hex_key dk)) (evp SHA1 (hex_key ik)) (take 28 data) = None"
    if "\<forall>p. \<not> accepted evp dk ik data p" for dk ik
    using that u [of dk ik] by (metis option.exhaust)
  have small: "int64_min \<le> v \<and> v \<le> int64_max" if "\<bar>v\<bar> < 2 ^ 53" for v using that by (auto simp: int_limits)
  have "max360_price_decode evp b64 t = Inr v"
    if "\<bar>v\<bar> < 2 ^ 53" "accepted evp max360_DEC_KEY max360_IKEY data (price_bytes v)" for v
    using m360 [unfolded u [THEN iffD2, OF that(2)]] small [OF that(1)] that(1) by (simp add: exact_double price_bytes_value)
  moreover have "kupai_price_decode evp b64 t = Inr (truncate q)"
    if "accepted evp kupai_DEC_KEY kupai_IKEY data (le_bytes 8 w)" "ieee_value w = Some q"
      "int64_min \<le> truncate q" "truncate q \<le> int64_max" for w q
    using kup [unfolded u [THEN iffD2, OF that(1)]] that(2-4) by (simp add: le_word_inverse double_to_int64_def)
  moreover have "max360_price_decode evp b64 t = Inr 0" if "\<forall>p. \<not> accepted evp max360_DEC_KEY max360_IKEY data p"
    using m360 [unfolded none [OF that]] by simp
  moreover have "kupai_price_decode evp b64 t = Inr 0" if "\<forall>p. \<not> accepted evp kupai_DEC_KEY kupai_IKEY data p"
    using kup [unfolded none [OF that]] by simp
  ultimately show ?thesis by blast
qed

definition sample_evp :: hmac_evp where
  "sample_evp d k m = replicate 20 (foldr (+) (k @ m) 0)"

theorem hex_price_decoders_spec_witness:
  "max360_price_decode sample_evp (\<lambda>_. Some (seal (sample_evp SHA1 (hex_key max360_DEC_KEY))
     (sample_evp SHA1 (hex_key max360_IKEY)) (replicate 16 7) (price_bytes 700))) ''x'' = Inr 700"
proof -
  let ?m = "seal (sample_evp SHA1 (hex_key max360_DEC_KEY)) (sample_evp SHA1 (hex_key max360_IKEY)) (replicate 16 7) (price_bytes 700)"
  have len: "length ?m = 28" by (simp add: seal_def sample_evp_def)
  have "accepted sample_evp max360_DEC_KEY max360_IKEY ?m (price_bytes 700)"
    unfolding accepted_def sealed_def using len by (auto intro!: exI [of _ "replicate 16 7"])
  moreover have "evp_ok sample_evp" by (simp add: evp_ok_def sample_evp_def)
  ultimately show ?thesis using hex_price_decoders_spec [of sample_evp "\<lambda>_. Some ?m" "''x''" ?m] len by simp
qed

end
