(* ===== verification/Price_Codes.thy ===== *)
theory Price_Codes
  imports Cypher Price_Hmac
begin

text \<open>
  Model of the other winning-price decoders: protocol/tanx/tanx_price.cpp, protocol/youku/youku_price.cpp,
  protocol/tencent_gdt/tencent_gdt_price.cpp and protocol/netease/nex_price.cpp.  MD5, AES and the base64
  decoders of OpenSSL and CryptoPP are parameters.
\<close>

section \<open>Tanx\<close>

type_synonym md5_digest = "byte list \<Rightarrow> byte list"

definition tanx_key :: "byte list" where
  "tanx_key = [0x01, 0xd5, 0xba, 0xaf, 0x00, 0x9c, 0x4d, 0xd6, 0xbb, 0x01, 0xb7, 0x11, 0xfc, 0x74, 0x92, 0x92]"

text \<open>\<open>decodePrice\<close> on the 25 bytes of a message: the price and the bidding time, if version and checksum agree.
  The price is built in the memory of a little-endian machine.\<close>

definition tanx_decodePrice :: "md5_digest \<Rightarrow> byte list \<Rightarrow> (int \<times> u32) option" where
  "tanx_decodePrice md5 src =
     (if src ! 0 \<noteq> 1 then None
      else let bidid = take 16 (drop 1 src);
               ctxBuf = md5 (bidid @ tanx_key);
               price = map2 (XOR) (take 4 (drop 17 src)) ctxBuf;
               ctxBuf = md5 (take 17 src @ price @ tanx_key)
           in if take 4 ctxBuf \<noteq> take 4 (drop 21 src) then None
              else Some (sint (le_word price :: u32), ntohl (le_word (take 4 (drop 7 src)))))"

text \<open>\<open>noescape\<close> of a string, through a buffer of 2048 characters.\<close>

definition noescape :: "string \<Rightarrow> char \<Rightarrow> char \<Rightarrow> string result" where
  "noescape input oc nc =
     (let s = cstr input in if 2048 < length s + 1 then Inl MemoryFault else Inr (map (\<lambda>c. if c = oc then nc else c) s))"

text \<open>\<open>noescape(buffer)\<close>: in place, up to the first zero byte.\<close>

fun noescape_inplace :: "byte list \<Rightarrow> byte list" where
  "noescape_inplace [] = []"
| "noescape_inplace (b # bs) =
     (if b = 0 then b # bs else (if b = ord8 CHR ''-'' then ord8 CHR ''%'' else b) # noescape_inplace bs)"

definition base64DecodedLength :: "nat \<Rightarrow> nat" where
  "base64DecodedLength len = (len + 3) div 4 * 3"

text \<open>The text that is handed to the base64 decoder.\<close>

definition tanx_text :: "string \<Rightarrow> string result" where
  "tanx_text ori_input =
     bind_result (urlDecode_f 2048 ori_input) (\<lambda>input.
     bind_result (noescape input CHR ''-'' CHR ''%'') (\<lambda>input.
     bind_result (noescape input CHR '' '' CHR ''+'') (\<lambda>input. urlDecode_f 2048 input)))"

text \<open>With a negative count \<open>buffer[originLen] = '\0'\<close> writes before the buffer.\<close>

definition tanx_price_decode :: "md5_digest \<Rightarrow> bio_base64 \<Rightarrow> string \<Rightarrow> int result" where
  "tanx_price_decode md5 bio ori_input =
     bind_result (tanx_text ori_input) (\<lambda>out.
     case bio out of
       None \<Rightarrow> Inl MemoryFault
     | Some bs \<Rightarrow>
         let buffer = noescape_inplace (take (base64DecodedLength (length out)) bs)
         in if length buffer \<noteq> 25 then Inr 0
            else (case tanx_decodePrice md5 buffer of None \<Rightarrow> Inr 0 | Some (price, time) \<Rightarrow> Inr price))"

section \<open>Youku, GDT and NEX\<close>

text \<open>\<open>b64\<close> and \<open>aes\<close> are what CryptoPP writes to its sink; a failure inside is logged and leaves what was written.\<close>

type_synonym aes_decode = "string \<Rightarrow> string \<Rightarrow> string"

definition padding :: "nat \<Rightarrow> string" where
  "padding n = [[], ''==='', ''=='', ''=''] ! n"

definition youku_TOKEN :: string where
  "youku_TOKEN = ''c28dc5ce331840668de6d1ac9be0b0a8''"

definition youku_key :: string where
  "youku_key =
     (case fromLittleEndiumHex False youku_TOKEN (replicate 32 0) 32 of
        Inr (key, keySize) \<Rightarrow> map chr8 (take 16 key) | Inl e \<Rightarrow> [])"

definition youku_getPrice :: "(string \<Rightarrow> string) \<Rightarrow> aes_decode \<Rightarrow> string \<Rightarrow> int result" where
  "youku_getPrice b64 aes input =
     (let paddingString = input @ padding (length input mod 4)
      in stoi (aes youku_key (urlsafe_base64decode b64 paddingString [])))"

text \<open>The handler of \<open>std::exception\<close> in the three decoders leaves the price 0.\<close>

definition caught :: "int result \<Rightarrow> int result" where
  "caught r = (case r of Inl MemoryFault \<Rightarrow> Inl MemoryFault | Inl e \<Rightarrow> Inr 0 | Inr v \<Rightarrow> Inr v)"

definition youku_price_decode :: "(string \<Rightarrow> string) \<Rightarrow> aes_decode \<Rightarrow> string \<Rightarrow> int result" where
  "youku_price_decode b64 aes input = caught (bind_result (urlDecode_f 2048 input) (youku_getPrice b64 aes))"

definition gdt_TOKEN :: string where
  "gdt_TOKEN = ''MTI3NzU4MywxNDUz''"

text \<open>\<open>getPrice\<close> computes the padded string and decodes the unpadded one.\<close>

definition gdt_getPrice :: "(string \<Rightarrow> string) \<Rightarrow> aes_decode \<Rightarrow> string \<Rightarrow> int result" where
  "gdt_getPrice b64 aes_nopadding input = stoi (aes_nopadding gdt_TOKEN (urlsafe_base64decode b64 input []))"

definition gdt_price_decode :: "(string \<Rightarrow> string) \<Rightarrow> aes_decode \<Rightarrow> string \<Rightarrow> int result" where
  "gdt_price_decode b64 aes_nopadding input =
     caught (bind_result (urlDecode_f 2048 input) (gdt_getPrice b64 aes_nopadding))"

definition nex_price_decode :: "(string \<Rightarrow> string) \<Rightarrow> (string \<Rightarrow> string \<Rightarrow> string \<Rightarrow> string) \<Rightarrow> string \<Rightarrow> int result" where
  "nex_price_decode b64 aes_cbc input =
     caught (stoi (aes_cbc ''OGEyY2EwZGI1Y2Nm'' ''MDE1Y2NmMTliZmFi'' (b64 input)))"

section \<open>Tanx messages\<close>

definition tanx_message :: "md5_digest \<Rightarrow> byte list \<Rightarrow> int \<Rightarrow> byte list" where
  "tanx_message md5 bidid v =
     (let price = le_bytes 4 (word_of_int v :: u32)
      in 1 # bidid @ map2 (XOR) price (md5 (bidid @ tanx_key)) @ take 4 (md5 (1 # bidid @ price @ tanx_key)))"

definition md5_ok :: "md5_digest \<Rightarrow> bool" where
  "md5_ok md5 \<longleftrightarrow> (\<forall>m. length (md5 m) = 16)"

lemma length_tanx_message: "md5_ok md5 \<Longrightarrow> length bidid = 16 \<Longrightarrow> length (tanx_message md5 bidid v) = 25"
  by (simp add: tanx_message_def Let_def md5_ok_def)

lemma tanx_decodePrice_message:
  assumes "md5_ok md5" "length bidid = 16" "int32_min \<le> v" "v \<le> int32_max"
  shows "\<exists>time. tanx_decodePrice md5 (tanx_message md5 bidid v) = Some (v, time)"
proof -
  let ?p = "le_bytes 4 (word_of_int v :: u32)"
  have len: "length (md5 m) = 16" for m using assms(1) by (simp add: md5_ok_def)
  have "map2 (XOR) (map2 (XOR) ?p (md5 (bidid @ tanx_key))) (md5 (bidid @ tanx_key)) = ?p"
    by (rule xor_stream) (simp add: len)
  moreover have "sint (le_word ?p :: u32) = v"
    using assms(3,4) by (simp add: le_word_inverse int_limits sint_sbintrunc' signed_take_bit_int_eq_self)
  ultimately show ?thesis using assms(2) len
    by (simp add: tanx_decodePrice_def tanx_message_def Let_def)
qed

text \<open>Only messages sealed with the key are accepted.\<close>

lemma tanx_decodePrice_only:
  assumes "md5_ok md5" "length src = 25" "tanx_decodePrice md5 src = Some (v, time)"
  shows "\<exists>bidid. length bidid = 16 \<and> src = tanx_message md5 bidid v"
proof -
  define bidid price where "bidid = take 16 (drop 1 src)" and "price = map2 (XOR) (take 4 (drop 17 src)) (md5 (bidid @ tanx_key))"
  have len: "length (md5 m) = 16" for m using assms(1) by (simp add: md5_ok_def)
  from assms(3) have d: "src ! 0 = 1" "take 4 (md5 (take 17 src @ price @ tanx_key)) = take 4 (drop 21 src)" "v = sint (le_word price :: u32)"
    unfolding tanx_decodePrice_def bidid_def price_def by (simp_all add: Let_def split: if_splits)
  have head: "take 17 src = 1 # bidid"
    using assms(2) d(1) unfolding bidid_def by (cases src) simp_all
  have "length price = 4" using assms(2) len by (simp add: price_def)
  then have price: "le_bytes 4 (word_of_int v :: u32) = price"
    using le_bytes_inverse [of price, where 'w = 32] d(3) by simp
  have "map2 (XOR) price (md5 (bidid @ tanx_key)) = take 4 (drop 17 src)"
    unfolding price_def by (rule xor_stream) (use assms(2) len in simp)
  moreover have "src = take 17 src @ take 4 (drop 17 src) @ take 4 (drop 21 src)"
    using assms(2) append_take_drop_id [of 17 src] append_take_drop_id [of 4 "drop 17 src"] by simp
  ultimately have "src = tanx_message md5 bidid v"
    using d(2) head by (simp add: tanx_message_def Let_def price)
  moreover have "length bidid = 16" using assms(2) by (simp add: bidid_def)
  ultimately show ?thesis by blast
qed

lemma length_noescape_inplace [simp]: "length (noescape_inplace bs) = length bs"
  by (induction bs) simp_all

lemma noescape_inplace_same: "ord8 CHR ''-'' \<notin> set (takeWhile (\<lambda>b. b \<noteq> 0) bs) \<Longrightarrow> noescape_inplace bs = bs"
  by (induction bs) auto

text \<open>C39: A Tanx price is decoded from the bytes after the dashes before the first zero byte have been replaced.
  Whatever these bytes are: if they are the message sealed with the key for a bid and an int32 price, the result is that
  price, and if they are no sealed message the result is 0.\<close>

theorem tanx_price_decode_spec:
  assumes "md5_ok md5" "tanx_text t = Inr out" "bio out = Some data" "length data \<le> base64DecodedLength (length out)"
  shows "(\<forall>bidid v. length bidid = 16 \<and> int32_min \<le> v \<and> v \<le> int32_max \<and> noescape_inplace data = tanx_message md5 bidid v \<longrightarrow>
       tanx_price_decode md5 bio t = Inr v) \<and>
    ((\<forall>bidid v. length bidid = 16 \<longrightarrow> noescape_inplace data \<noteq> tanx_message md5 bidid v) \<longrightarrow> tanx_price_decode md5 bio t = Inr 0)"
proof -
  have eq: "tanx_price_decode md5 bio t =
      (if length data \<noteq> 25 then Inr 0
       else case tanx_decodePrice md5 (noescape_inplace data) of None \<Rightarrow> Inr 0 | Some (price, time) \<Rightarrow> Inr price)"
    using assms(2-4) by (simp add: tanx_price_decode_def Let_def)
  have "tanx_price_decode md5 bio t = Inr v"
    if "length bidid = 16" "int32_min \<le> v" "v \<le> int32_max" "noescape_inplace data = tanx_message md5 bidid v" for bidid v
  proof -
    have "length data = 25"
      using length_tanx_message [OF assms(1) that(1)] length_noescape_inplace [of data] that(4) by simp
    then show ?thesis
      using tanx_decodePrice_message [OF assms(1) that(1-3)] that(4) by (auto simp: eq)
  qed
  moreover have "tanx_price_decode md5 bio t = Inr 0"
    if "\<forall>bidid v. length bidid = 16 \<longrightarrow> noescape_inplace data \<noteq> tanx_message md5 bidid v"
    using tanx_decodePrice_only [OF assms(1), of "noescape_inplace data"] that by (auto simp: eq split: option.split)
  ultimately show ?thesis by blast
qed

definition sample_md5 :: md5_digest where
  "sample_md5 m = replicate 16 (foldr (\<lambda>b s. 3 * s + b) m 1)"

lemma sample_md5_ok: "md5_ok sample_md5"
  by (simp add: md5_ok_def sample_md5_def)

theorem tanx_price_decode_spec_witness:
  "tanx_price_decode sample_md5 (\<lambda>_. Some (tanx_message sample_md5 (replicate 16 0) 15)) (replicate 36 CHR ''A'') = Inr 15"
proof -
  have "tanx_text (replicate 36 CHR ''A'') = Inr (replicate 36 CHR ''A'')"
    by (simp add: tanx_text_def urlDecode_f_def noescape_def cstr_def numeral_eq_Suc)
  moreover have "takeWhile (\<lambda>b. b \<noteq> 0) (tanx_message sample_md5 (replicate 16 0) 15) = [1]"
    by (simp add: tanx_message_def Let_def numeral_eq_Suc)
  then have "noescape_inplace (tanx_message sample_md5 (replicate 16 0) 15) = tanx_message sample_md5 (replicate 16 0) 15"
    by (intro noescape_inplace_same) (simp add: ord8_def)
  ultimately show ?thesis
    using tanx_price_decode_spec [OF sample_md5_ok, of "replicate 36 CHR ''A''" "replicate 36 CHR ''A''"
      "\<lambda>_. Some (tanx_message sample_md5 (replicate 16 0) 15)" "tanx_message sample_md5 (replicate 16 0) 15"]
      length_tanx_message [OF sample_md5_ok, of "replicate 16 0" 15]
    by (auto simp: base64DecodedLength_def int_limits ord8_def)
qed

text \<open>A sealed message with a dash among its bytes is rejected.\<close>

lemma tanx_dash_lost:
  "tanx_price_decode sample_md5 (\<lambda>_. Some (tanx_message sample_md5 (0x2D # replicate 15 1) 15)) (replicate 36 CHR ''A'') = Inr 0"
  by code_simp

end
