(* ===== verification/Rijndael.thy ===== *)
theory Rijndael
  imports Rijndael_Tables
begin

text \<open>
  Model of the class \<open>CRijndael\<close> (protocol/sohu/sohu_price.cpp): key expansion, the block functions, the unrolled
  ones for the default block size, and the three modes of operation with the chain block.  Decryption
  inverts encryption for every key and block size and in every mode.
\<close>

section \<open>The object\<close>

record rijndael =
  m_bKeyInit :: bool
  m_Ke :: "u32 list list"
  m_Kd :: "u32 list list"
  m_keylength :: nat
  m_blockSize :: nat
  m_iROUNDS :: nat
  m_chain0 :: "byte list"
  m_chain :: "byte list"

text \<open>The constructor initialises the flag only; the other members are written by \<open>MakeKey\<close> before they are read.\<close>

definition rijndael_new :: rijndael where
  "rijndael_new = \<lparr>m_bKeyInit = False, m_Ke = [], m_Kd = [], m_keylength = 0, m_blockSize = 0, m_iROUNDS = 0,
     m_chain0 = [], m_chain = []\<rparr>"

definition sm_szErrorMsg1 :: string where
  "sm_szErrorMsg1 = ''Object not Initialized''"

definition sm_szErrorMsg2 :: string where
  "sm_szErrorMsg2 = ''Data not multiple of Block Size''"

section \<open>Key expansion\<close>

definition key_rounds :: "nat \<Rightarrow> nat \<Rightarrow> nat" where
  "key_rounds keylength blockSize =
     (if keylength = 16 then (if blockSize = 16 then 10 else if blockSize = 24 then 12 else 14)
      else if keylength = 24 then (if blockSize \<noteq> 32 then 12 else 14)
      else 14)"

text \<open>Four bytes to an \<open>int\<close>, the first one highest: the loops that fill \<open>tk\<close> and \<open>t\<close>.\<close>

definition load_words :: "nat \<Rightarrow> byte list \<Rightarrow> u32 list" where
  "load_words n bs = map (\<lambda>i. pack (bs ! (4 * i)) (bs ! (4 * i + 1)) (bs ! (4 * i + 2)) (bs ! (4 * i + 3))) [0..<n]"

text \<open>The loop that copies \<open>tk\<close> into the round keys.\<close>

fun copy_keys :: "nat \<Rightarrow> nat \<Rightarrow> u32 list \<Rightarrow> u32 list list \<times> u32 list list \<times> nat \<Rightarrow> u32 list list \<times> u32 list list \<times> nat" where
  "copy_keys R BC [] (Ke, Kd, t) = (Ke, Kd, t)"
| "copy_keys R BC (k # ks) (Ke, Kd, t) =
     (if t < (R + 1) * BC
      then copy_keys R BC ks (Ke[t div BC := (Ke ! (t div BC))[t mod BC := k]],
             Kd[R - t div BC := (Kd ! (R - t div BC))[t mod BC := k]], t + 1)
      else (Ke, Kd, t))"

text \<open>\<open>for (i = from + 1, j = from; i < to;) tk[i++] ^= tk[j++];\<close>\<close>

definition xor_chain :: "nat \<Rightarrow> nat \<Rightarrow> u32 list \<Rightarrow> u32 list" where
  "xor_chain from to tk = fold (\<lambda>i tk. tk[i := tk ! i XOR tk ! (i - 1)]) [from + 1..<to] tk"

definition S_at :: "byte \<Rightarrow> u32" where
  "S_at x = ucast (byte_at sm_S x)"

text \<open>One step of the round key evolution function.\<close>

definition evolve :: "nat \<Rightarrow> nat \<Rightarrow> u32 list \<Rightarrow> u32 list" where
  "evolve KC rconpointer tk =
     (let tt = tk ! (KC - 1);
          tk = tk[0 := tk ! 0 XOR (push_bit 24 (S_at (byte_of 2 tt)) XOR push_bit 16 (S_at (byte_of 1 tt)) XOR
                 push_bit 8 (S_at (byte_of 0 tt)) XOR S_at (byte_of 3 tt) XOR
                 push_bit 24 (word_of_int (sm_rcon ! rconpointer AND 0xFF)))]
      in if KC \<noteq> 8 then xor_chain 0 KC tk
         else let tk = xor_chain 0 (KC div 2) tk;
                  tt = tk ! (KC div 2 - 1);
                  tk = tk[KC div 2 := tk ! (KC div 2) XOR (S_at (byte_of 0 tt) XOR push_bit 8 (S_at (byte_of 1 tt)) XOR
                         push_bit 16 (S_at (byte_of 2 tt)) XOR push_bit 24 (S_at (byte_of 3 tt)))]
              in xor_chain (KC div 2) KC tk)"

lemma copy_keys_count:
  "snd (snd (copy_keys R BC ks (Ke, Kd, t))) = (if t < (R + 1) * BC then min (t + length ks) ((R + 1) * BC) else t)"
  by (induction ks arbitrary: Ke Kd t) auto

lemma length_xor_chain [simp]: "length (xor_chain i j tk) = length tk"
proof -
  have "length (fold (\<lambda>i tk. tk[i := tk ! i XOR tk ! (i - 1)]) is tk) = length tk" for "is" and tk :: "u32 list"
    by (induction "is" arbitrary: tk) simp_all
  then show ?thesis by (simp add: xor_chain_def)
qed

lemma length_evolve [simp]: "length (evolve KC p tk) = length tk"
  by (simp add: evolve_def Let_def)

text \<open>The loop of \<open>MakeKey\<close>; there are 4, 6 or 8 words in \<open>tk\<close>, so every turn copies some.\<close>

function expand_loop :: "nat \<Rightarrow> nat \<Rightarrow> nat \<Rightarrow> u32 list \<Rightarrow> u32 list list \<times> u32 list list \<times> nat \<Rightarrow> u32 list list \<times> u32 list list" where
  "expand_loop R BC rconpointer tk (Ke, Kd, t) =
     (if t < (R + 1) * BC \<and> tk \<noteq> []
      then let tk = evolve (length tk) rconpointer tk
           in expand_loop R BC (rconpointer + 1) tk (copy_keys R BC tk (Ke, Kd, t))
      else (Ke, Kd))"
  by pat_completeness auto
termination
proof (relation "measure (\<lambda>(R, BC, p, tk, Ke, Kd, t). (R + 1) * BC - t)", goal_cases)
  case (2 R BC p tk Ke Kd t x)
  moreover have "0 < length x" using 2 by (metis length_evolve length_greater_0_conv)
  ultimately have "t < snd (snd (copy_keys R BC x (Ke, Kd, t)))"
    unfolding copy_keys_count by (simp add: min_def)
  moreover have "t < (R + 1) * BC" using 2 by simp
  ultimately show ?case by (auto simp: case_prod_beta intro: diff_less_mono2)
qed simp

declare expand_loop.simps [simp del]

text \<open>The arguments \<open>key\<close> and \<open>chain\<close> are arrays here, so the test for a null key has no branch.\<close>

definition MakeKey :: "byte list \<Rightarrow> byte list \<Rightarrow> nat \<Rightarrow> nat \<Rightarrow> rijndael \<Rightarrow> rijndael result" where
  "MakeKey key chain keylength blockSize o1 =
     (if \<not> (keylength = 16 \<or> keylength = 24 \<or> keylength = 32) then Inl (MtError ''Incorrect key length'')
      else if \<not> (blockSize = 16 \<or> blockSize = 24 \<or> blockSize = 32) then Inl (MtError ''Incorrect block length'')
      else if length chain < blockSize \<or> length key < keylength then Inl MemoryFault
      else let R = key_rounds keylength blockSize; BC = blockSize div 4;
               zeros = replicate (R + 1) (replicate BC 0);
               tk = load_words (keylength div 4) key;
               (Ke, Kd) = expand_loop R BC 0 tk (copy_keys R BC tk (zeros, zeros, 0));
               Kd = map (\<lambda>r. if 1 \<le> r \<and> r < R then map inv_mix (Kd ! r) else Kd ! r) [0..<R + 1]
           in Inr (o1\<lparr>m_bKeyInit := True, m_Ke := Ke, m_Kd := Kd, m_keylength := keylength, m_blockSize := blockSize,
                m_iROUNDS := R, m_chain0 := take blockSize chain, m_chain := take blockSize chain\<rparr>))"

section \<open>Blocks\<close>

text \<open>A round of encryption in the array \<open>t\<close>, and the last one.\<close>

definition enc_round :: "nat \<Rightarrow> nat \<Rightarrow> nat \<Rightarrow> u32 list \<Rightarrow> u32 list \<Rightarrow> u32 list" where
  "enc_round s1 s2 s3 K t =
     (let BC = length t in
      map (\<lambda>i. (word_at sm_T1 (byte_of 3 (t ! i)) XOR word_at sm_T2 (byte_of 2 (t ! ((i + s1) mod BC))) XOR
           word_at sm_T3 (byte_of 1 (t ! ((i + s2) mod BC))) XOR word_at sm_T4 (byte_of 0 (t ! ((i + s3) mod BC)))) XOR K ! i)
        [0..<BC])"

definition dec_round :: "nat \<Rightarrow> nat \<Rightarrow> nat \<Rightarrow> u32 list \<Rightarrow> u32 list \<Rightarrow> u32 list" where
  "dec_round s1 s2 s3 K t =
     (let BC = length t in
      map (\<lambda>i. (word_at sm_T5 (byte_of 3 (t ! i)) XOR word_at sm_T6 (byte_of 2 (t ! ((i + s1) mod BC))) XOR
           word_at sm_T7 (byte_of 1 (t ! ((i + s2) mod BC))) XOR word_at sm_T8 (byte_of 0 (t ! ((i + s3) mod BC)))) XOR K ! i)
        [0..<BC])"

definition last_round :: "int list \<Rightarrow> nat \<Rightarrow> nat \<Rightarrow> nat \<Rightarrow> u32 list \<Rightarrow> u32 list \<Rightarrow> byte list" where
  "last_round box s1 s2 s3 K t =
     (let BC = length t in
      concat (map (\<lambda>i. let tt = K ! i in
          [byte_at box (byte_of 3 (t ! i)) XOR byte_of 3 tt,
           byte_at box (byte_of 2 (t ! ((i + s1) mod BC))) XOR byte_of 2 tt,
           byte_at box (byte_of 1 (t ! ((i + s2) mod BC))) XOR byte_of 1 tt,
           byte_at box (byte_of 0 (t ! ((i + s3) mod BC))) XOR byte_of 0 tt]) [0..<BC]))"

text \<open>The shifts: the column \<open>dir\<close> is 0 to encrypt and 1 to decrypt.\<close>

definition shift_of :: "nat \<Rightarrow> nat \<Rightarrow> nat \<Rightarrow> nat" where
  "shift_of BC dir k = sm_shifts ! (if BC = 4 then 0 else if BC = 6 then 1 else 2) ! k ! dir"

text \<open>The rounds 1 to \<open>R - 1\<close> one after the other.\<close>

definition rounds :: "(u32 list \<Rightarrow> u32 list \<Rightarrow> u32 list) \<Rightarrow> u32 list list \<Rightarrow> nat \<Rightarrow> u32 list \<Rightarrow> u32 list" where
  "rounds step K R t = fold (\<lambda>r. step (K ! r)) [1..<R] t"

definition add_key :: "u32 list \<Rightarrow> u32 list \<Rightarrow> u32 list" where
  "add_key t K = map2 (XOR) t K"

text \<open>\<open>EncryptBlock\<close> and \<open>DecryptBlock\<close> after the test for the default block size.\<close>

definition encrypt_general :: "rijndael \<Rightarrow> byte list \<Rightarrow> byte list" where
  "encrypt_general c input =
     (let BC = m_blockSize c div 4; s1 = shift_of BC 0 1; s2 = shift_of BC 0 2; s3 = shift_of BC 0 3;
          t = rounds (enc_round s1 s2 s3) (m_Ke c) (m_iROUNDS c) (add_key (load_words BC input) (m_Ke c ! 0))
      in last_round sm_S s1 s2 s3 (m_Ke c ! m_iROUNDS c) t)"

definition decrypt_general :: "rijndael \<Rightarrow> byte list \<Rightarrow> byte list" where
  "decrypt_general c input =
     (let BC = m_blockSize c div 4; s1 = shift_of BC 1 1; s2 = shift_of BC 1 2; s3 = shift_of BC 1 3;
          t = rounds (dec_round s1 s2 s3) (m_Kd c) (m_iROUNDS c) (add_key (load_words BC input) (m_Kd c ! 0))
      in last_round sm_Si s1 s2 s3 (m_Kd c ! m_iROUNDS c) t)"

text \<open>The unrolled functions keep the four words in variables.\<close>

type_synonym four = "u32 \<times> u32 \<times> u32 \<times> u32"

definition load4 :: "byte list \<Rightarrow> u32 list \<Rightarrow> four" where
  "load4 b K =
     (pack (b ! 0) (b ! 1) (b ! 2) (b ! 3) XOR K ! 0, pack (b ! 4) (b ! 5) (b ! 6) (b ! 7) XOR K ! 1,
      pack (b ! 8) (b ! 9) (b ! 10) (b ! 11) XOR K ! 2, pack (b ! 12) (b ! 13) (b ! 14) (b ! 15) XOR K ! 3)"

fun def_enc_round :: "u32 list \<Rightarrow> four \<Rightarrow> four" where
  "def_enc_round Ker (t0, t1, t2, t3) =
     ((word_at sm_T1 (byte_of 3 t0) XOR word_at sm_T2 (byte_of 2 t1) XOR word_at sm_T3 (byte_of 1 t2) XOR word_at sm_T4 (byte_of 0 t3)) XOR Ker ! 0,
      (word_at sm_T1 (byte_of 3 t1) XOR word_at sm_T2 (byte_of 2 t2) XOR word_at sm_T3 (byte_of 1 t3) XOR word_at sm_T4 (byte_of 0 t0)) XOR Ker ! 1,
      (word_at sm_T1 (byte_of 3 t2) XOR word_at sm_T2 (byte_of 2 t3) XOR word_at sm_T3 (byte_of 1 t0) XOR word_at sm_T4 (byte_of 0 t1)) XOR Ker ! 2,
      (word_at sm_T1 (byte_of 3 t3) XOR word_at sm_T2 (byte_of 2 t0) XOR word_at sm_T3 (byte_of 1 t1) XOR word_at sm_T4 (byte_of 0 t2)) XOR Ker ! 3)"

fun def_dec_round :: "u32 list \<Rightarrow> four \<Rightarrow> four" where
  "def_dec_round Kdr (t0, t1, t2, t3) =
     ((word_at sm_T5 (byte_of 3 t0) XOR word_at sm_T6 (byte_of 2 t3) XOR word_at sm_T7 (byte_of 1 t2) XOR word_at sm_T8 (byte_of 0 t1)) XOR Kdr ! 0,
      (word_at sm_T5 (byte_of 3 t1) XOR word_at sm_T6 (byte_of 2 t0) XOR word_at sm_T7 (byte_of 1 t3) XOR word_at sm_T8 (byte_of 0 t2)) XOR Kdr ! 1,
      (word_at sm_T5 (byte_of 3 t2) XOR word_at sm_T6 (byte_of 2 t1) XOR word_at sm_T7 (byte_of 1 t0) XOR word_at sm_T8 (byte_of 0 t3)) XOR Kdr ! 2,
      (word_at sm_T5 (byte_of 3 t3) XOR word_at sm_T6 (byte_of 2 t2) XOR word_at sm_T7 (byte_of 1 t1) XOR word_at sm_T8 (byte_of 0 t0)) XOR Kdr ! 3)"

definition out4 :: "int list \<Rightarrow> u32 \<Rightarrow> u32 \<Rightarrow> u32 \<Rightarrow> u32 \<Rightarrow> u32 \<Rightarrow> byte list" where
  "out4 box tt a b c d =
     [byte_at box (byte_of 3 a) XOR byte_of 3 tt, byte_at box (byte_of 2 b) XOR byte_of 2 tt,
      byte_at box (byte_of 1 c) XOR byte_of 1 tt, byte_at box (byte_of 0 d) XOR byte_of 0 tt]"

definition DefEncryptBlock :: "rijndael \<Rightarrow> byte list \<Rightarrow> byte list result" where
  "DefEncryptBlock c input =
     (if \<not> m_bKeyInit c then Inl (MtError sm_szErrorMsg1)
      else let (t0, t1, t2, t3) = fold (\<lambda>r. def_enc_round (m_Ke c ! r)) [1..<m_iROUNDS c] (load4 input (m_Ke c ! 0));
               Ker = m_Ke c ! m_iROUNDS c
           in Inr (out4 sm_S (Ker ! 0) t0 t1 t2 t3 @ out4 sm_S (Ker ! 1) t1 t2 t3 t0 @
                out4 sm_S (Ker ! 2) t2 t3 t0 t1 @ out4 sm_S (Ker ! 3) t3 t0 t1 t2))"

definition DefDecryptBlock :: "rijndael \<Rightarrow> byte list \<Rightarrow> byte list result" where
  "DefDecryptBlock c input =
     (if \<not> m_bKeyInit c then Inl (MtError sm_szErrorMsg1)
      else let (t0, t1, t2, t3) = fold (\<lambda>r. def_dec_round (m_Kd c ! r)) [1..<m_iROUNDS c] (load4 input (m_Kd c ! 0));
               Kdr = m_Kd c ! m_iROUNDS c
           in Inr (out4 sm_Si (Kdr ! 0) t0 t3 t2 t1 @ out4 sm_Si (Kdr ! 1) t1 t0 t3 t2 @
                out4 sm_Si (Kdr ! 2) t2 t1 t0 t3 @ out4 sm_Si (Kdr ! 3) t3 t2 t1 t0))"

definition EncryptBlock :: "rijndael \<Rightarrow> byte list \<Rightarrow> byte list result" where
  "EncryptBlock c input =
     (if \<not> m_bKeyInit c then Inl (MtError sm_szErrorMsg1)
      else if m_blockSize c = 16 then DefEncryptBlock c input
      else Inr (encrypt_general c input))"

definition DecryptBlock :: "rijndael \<Rightarrow> byte list \<Rightarrow> byte list result" where
  "DecryptBlock c input =
     (if \<not> m_bKeyInit c then Inl (MtError sm_szErrorMsg1)
      else if m_blockSize c = 16 then DefDecryptBlock c input
      else Inr (decrypt_general c input))"

section \<open>Modes\<close>

datatype mode = ECB | CBC | CFB

definition Xor :: "rijndael \<Rightarrow> byte list \<Rightarrow> byte list \<Rightarrow> byte list result" where
  "Xor c buff chain = (if \<not> m_bKeyInit c then Inl (MtError sm_szErrorMsg1) else Inr (map2 (XOR) buff chain))"

text \<open>The body of the loops, on one block.\<close>

definition encrypt_step :: "mode \<Rightarrow> rijndael \<Rightarrow> byte list \<Rightarrow> (byte list \<times> rijndael) result" where
  "encrypt_step iMode c pin =
     (case iMode of
        CBC \<Rightarrow> bind_result (Xor c (m_chain c) pin) (\<lambda>ch. bind_result (EncryptBlock c ch) (\<lambda>presult.
                 Inr (presult, c\<lparr>m_chain := presult\<rparr>)))
      | CFB \<Rightarrow> bind_result (EncryptBlock c (m_chain c)) (\<lambda>e. bind_result (Xor c e pin) (\<lambda>presult.
                 Inr (presult, c\<lparr>m_chain := presult\<rparr>)))
      | ECB \<Rightarrow> bind_result (EncryptBlock c pin) (\<lambda>presult. Inr (presult, c)))"

definition decrypt_step :: "mode \<Rightarrow> rijndael \<Rightarrow> byte list \<Rightarrow> (byte list \<times> rijndael) result" where
  "decrypt_step iMode c pin =
     (case iMode of
        CBC \<Rightarrow> bind_result (DecryptBlock c pin) (\<lambda>d. bind_result (Xor c d (m_chain c)) (\<lambda>presult.
                 Inr (presult, c\<lparr>m_chain := pin\<rparr>)))
      | CFB \<Rightarrow> bind_result (EncryptBlock c (m_chain c)) (\<lambda>e. bind_result (Xor c e pin) (\<lambda>presult.
                 Inr (presult, c\<lparr>m_chain := pin\<rparr>)))
      | ECB \<Rightarrow> bind_result (DecryptBlock c pin) (\<lambda>presult. Inr (presult, c)))"

fun block_loop :: "(rijndael \<Rightarrow> byte list \<Rightarrow> (byte list \<times> rijndael) result) \<Rightarrow> nat \<Rightarrow> rijndael \<Rightarrow> byte list \<Rightarrow> (byte list \<times> rijndael) result" where
  "block_loop step 0 c pin = Inr ([], c)"
| "block_loop step (Suc n) c pin =
     bind_result (step c (take (m_blockSize c) pin)) (\<lambda>(out, c').
     bind_result (block_loop step n c' (drop (m_blockSize c) pin)) (\<lambda>(rest, c''). Inr (out @ rest, c'')))"

text \<open>The input and the result are different buffers of \<open>n\<close> bytes.\<close>

definition Encrypt :: "rijndael \<Rightarrow> byte list \<Rightarrow> mode \<Rightarrow> (byte list \<times> rijndael) result" where
  "Encrypt c input iMode =
     (let n = length input in
      if \<not> m_bKeyInit c then Inl (MtError sm_szErrorMsg1)
      else if n = 0 \<or> n mod m_blockSize c \<noteq> 0 then Inl (MtError sm_szErrorMsg2)
      else block_loop (encrypt_step iMode) (n div m_blockSize c) c input)"

definition Decrypt :: "rijndael \<Rightarrow> byte list \<Rightarrow> mode \<Rightarrow> (byte list \<times> rijndael) result" where
  "Decrypt c input iMode =
     (let n = length input in
      if \<not> m_bKeyInit c then Inl (MtError sm_szErrorMsg1)
      else if n = 0 \<or> n mod m_blockSize c \<noteq> 0 then Inl (MtError sm_szErrorMsg2)
      else block_loop (decrypt_step iMode) (n div m_blockSize c) c input)"

definition ResetChain :: "rijndael \<Rightarrow> rijndael" where
  "ResetChain c = c\<lparr>m_chain := m_chain0 c\<rparr>"

definition GetKeyLength :: "rijndael \<Rightarrow> nat result" where
  "GetKeyLength c = (if \<not> m_bKeyInit c then Inl (MtError sm_szErrorMsg1) else Inr (m_keylength c))"

definition GetBlockSize :: "rijndael \<Rightarrow> nat result" where
  "GetBlockSize c = (if \<not> m_bKeyInit c then Inl (MtError sm_szErrorMsg1) else Inr (m_blockSize c))"

definition GetRounds :: "rijndael \<Rightarrow> nat result" where
  "GetRounds c = (if \<not> m_bKeyInit c then Inl (MtError sm_szErrorMsg1) else Inr (m_iROUNDS c))"

section \<open>Columns\<close>

lemma byte_of_pack [simp]:
  "byte_of 3 (pack a b c d) = a" "byte_of 2 (pack a b c d) = b" "byte_of (Suc 0) (pack a b c d) = c" "byte_of 0 (pack a b c d) = d"
  by (rule bit_word_eqI; auto simp: bit_byte_of bit_pack)+

lemma pack_bytes [simp]: "pack (byte_of 3 w) (byte_of 2 w) (byte_of (Suc 0) w) (byte_of 0 w) = w"
  by (rule bit_word_eqI) (auto simp: bit_byte_of bit_pack)

definition sub :: "int list \<Rightarrow> u32 \<Rightarrow> u32" where
  "sub box w = pack (byte_at box (byte_of 3 w)) (byte_at box (byte_of 2 w)) (byte_at box (byte_of (Suc 0) w)) (byte_at box (byte_of 0 w))"

definition shift_rows :: "nat \<Rightarrow> nat \<Rightarrow> nat \<Rightarrow> u32 list \<Rightarrow> u32 list" where
  "shift_rows s1 s2 s3 t =
     (let n = length t in map (\<lambda>i. pack (byte_of 3 (t ! i)) (byte_of 2 (t ! ((i + s1) mod n)))
        (byte_of (Suc 0) (t ! ((i + s2) mod n))) (byte_of 0 (t ! ((i + s3) mod n)))) [0..<n])"

definition mix_T :: "u32 \<Rightarrow> u32" where
  "mix_T w = word_at sm_T1 (byte_of 3 w) XOR word_at sm_T2 (byte_of 2 w) XOR word_at sm_T3 (byte_of (Suc 0) w) XOR word_at sm_T4 (byte_of 0 w)"

definition store_words :: "u32 list \<Rightarrow> byte list" where
  "store_words ws = concat (map (\<lambda>w. [byte_of 3 w, byte_of 2 w, byte_of (Suc 0) w, byte_of 0 w]) ws)"

lemma length_shift_rows [simp]: "length (shift_rows s1 s2 s3 t) = length t"
  by (simp add: shift_rows_def Let_def)

lemma shift_rows_nth:
  "i < length t \<Longrightarrow> shift_rows s1 s2 s3 t ! i = pack (byte_of 3 (t ! i)) (byte_of 2 (t ! ((i + s1) mod length t)))
     (byte_of (Suc 0) (t ! ((i + s2) mod length t))) (byte_of 0 (t ! ((i + s3) mod length t)))"
  by (simp add: shift_rows_def Let_def)

lemma length_rounds [simp]: "length (enc_round s1 s2 s3 K t) = length t" "length (dec_round s1 s2 s3 K t) = length t"
  by (simp_all add: enc_round_def dec_round_def Let_def)

lemma length_load_words [simp]: "length (load_words n bs) = n"
  by (simp add: load_words_def)

lemma sub_inverse: "sub sm_Si (sub sm_S w) = w"
  by (simp add: sub_def Si_S)

lemma inv_mix_mix_T: "inv_mix (mix_T w) = sub sm_S w"
  unfolding mix_T_def by (simp only: inv_mix_T sub_def)

lemma enc_round_eq:
  "length K = length t \<Longrightarrow> enc_round s1 s2 s3 K t = map2 (\<lambda>w k. mix_T w XOR k) (shift_rows s1 s2 s3 t) K"
  by (rule nth_equalityI) (simp_all add: enc_round_def shift_rows_def mix_T_def Let_def)

lemma dec_round_eq:
  "length K = length t \<Longrightarrow>
    dec_round s1 s2 s3 K t = map2 (\<lambda>w k. inv_mix (sub sm_Si w) XOR k) (shift_rows s1 s2 s3 t) K"
  by (rule nth_equalityI)
    (simp_all add: dec_round_def shift_rows_def Let_def inv_mix_def sub_def word_at_T5 word_at_T678)

lemma last_round_eq:
  "length K = length t \<Longrightarrow>
    last_round box s1 s2 s3 K t = store_words (map2 (\<lambda>w k. sub box w XOR k) (shift_rows s1 s2 s3 t) K)"
proof -
  assume len: "length K = length t"
  have eq: "map2 (\<lambda>w k. sub box w XOR k) (shift_rows s1 s2 s3 t) K =
      map (\<lambda>i. sub box (shift_rows s1 s2 s3 t ! i) XOR K ! i) [0..<length t]"
    using len by (intro nth_equalityI) simp_all
  show ?thesis
    unfolding eq last_round_def store_words_def Let_def map_map comp_def
    by (intro arg_cong [where f = concat] map_cong) (simp_all add: shift_rows_nth sub_def byte_of_xor)
qed

lemma unshift:
  assumes "s1 + u1 = length t" "s2 + u2 = length t" "s3 + u3 = length t"
  shows "shift_rows u1 u2 u3 (map (sub sm_S) (shift_rows s1 s2 s3 t)) = map (sub sm_S) t"
proof (rule nth_equalityI)
  fix i assume "i < length (shift_rows u1 u2 u3 (map (sub sm_S) (shift_rows s1 s2 s3 t)))"
  then have i: "i < length t" by simp
  have home: "((i + u) mod length t + s) mod length t = i" if "s + u = length t" for s u
    using that i by (metis add.assoc add.commute mod_add_left_eq mod_add_self2 mod_less)
  have lt: "(i + u) mod length t < length t" for u using i by (metis gr_implies_not0 mod_less_divisor neq0_conv)
  show "shift_rows u1 u2 u3 (map (sub sm_S) (shift_rows s1 s2 s3 t)) ! i = map (sub sm_S) t ! i"
    using i lt home [OF assms(1)] home [OF assms(2)] home [OF assms(3)]
    by (simp add: shift_rows_nth sub_def)
qed simp

section \<open>Blocks\<close>

text \<open>
  What a keyed object promises of its two key schedules for \<open>n\<close> columns, and of the shifts of both directions;
  \<open>ok\<close> is that the object is keyed.
\<close>

locale round_keys =
  fixes ok :: bool and n R :: nat and Ke Kd :: "u32 list list" and s1 s2 s3 u1 u2 u3 :: nat
  assumes R: "ok \<Longrightarrow> 1 \<le> R" and row_length: "ok \<Longrightarrow> r \<le> R \<Longrightarrow> length (Ke ! r) = n"
    and first_key: "ok \<Longrightarrow> Kd ! 0 = Ke ! R" and last_key: "ok \<Longrightarrow> Kd ! R = Ke ! 0"
    and mixed_key: "ok \<Longrightarrow> 1 \<le> r \<Longrightarrow> r < R \<Longrightarrow> Kd ! r = map inv_mix (Ke ! (R - r))"
    and shifts: "ok \<Longrightarrow> s1 + u1 = n" "ok \<Longrightarrow> s2 + u2 = n" "ok \<Longrightarrow> s3 + u3 = n"
begin

definition enc_state :: "u32 list \<Rightarrow> nat \<Rightarrow> u32 list" where
  "enc_state t r = rounds (enc_round s1 s2 s3) Ke (Suc r) (add_key t (Ke ! 0))"

lemma enc_state_simps:
  "enc_state t 0 = add_key t (Ke ! 0)"
  "enc_state t (Suc r) = enc_round s1 s2 s3 (Ke ! Suc r) (enc_state t r)"
  by (simp_all add: enc_state_def rounds_def)

lemma length_enc_state: "ok \<Longrightarrow> length t = n \<Longrightarrow> length (enc_state t r) = n"
  by (induction r) (simp_all add: enc_state_simps add_key_def row_length)

text \<open>The state \<open>r\<close> rounds before the end of encryption, behind the S-box and the shift, is the state of decryption.\<close>

lemma dec_round_back:
  assumes ok "length t = n" "1 \<le> r" "r < R"
  shows "dec_round u1 u2 u3 (Kd ! r) (map (sub sm_S) (shift_rows s1 s2 s3 (enc_state t (R - r)))) =
    map (sub sm_S) (shift_rows s1 s2 s3 (enc_state t (R - Suc r)))"
proof -
  let ?t = "enc_state t (R - r)" and ?v = "enc_state t (R - Suc r)" and ?K = "Ke ! (R - r)"
  have len: "length ?t = n" "length ?v = n" "length ?K = n" using assms by (simp_all add: row_length length_enc_state)
  have "R - r = Suc (R - Suc r)" using assms by simp
  then have t: "?t = map2 (\<lambda>w k. mix_T w XOR k) (shift_rows s1 s2 s3 ?v) ?K"
    using enc_state_simps(2) [of t "R - Suc r"] enc_round_eq [of ?K ?v] len by simp
  have "dec_round u1 u2 u3 (Kd ! r) (map (sub sm_S) (shift_rows s1 s2 s3 ?t)) =
      map2 (\<lambda>w k. inv_mix (sub sm_Si w) XOR k) (map (sub sm_S) ?t) (map inv_mix ?K)"
    using assms len shifts by (simp add: dec_round_eq mixed_key unshift)
  also have "\<dots> = map (sub sm_S) (shift_rows s1 s2 s3 ?v)"
    by (rule nth_equalityI) (use len in \<open>simp_all add: sub_inverse inv_mix_xor [symmetric]
      arg_cong [OF t, of "\<lambda>l. l ! i" for i] inv_mix_mix_T xor.assoc\<close>)
  finally show ?thesis .
qed

lemma dec_rounds:
  assumes ok "length t = n" "r < R"
  shows "rounds (dec_round u1 u2 u3) Kd (Suc r) (map (sub sm_S) (shift_rows s1 s2 s3 (enc_state t (R - 1)))) =
    map (sub sm_S) (shift_rows s1 s2 s3 (enc_state t (R - Suc r)))"
  using assms(3)
proof (induction r)
  case (Suc r)
  then show ?case using dec_round_back [OF assms(1,2), of "Suc r"] by (simp add: rounds_def)
qed (simp add: rounds_def)

text \<open>The columns of a block come back.\<close>

lemma columns_restored:
  assumes ok and t: "length t = n"
  defines "c \<equiv> map2 (\<lambda>w k. sub sm_S w XOR k) (shift_rows s1 s2 s3 (enc_state t (R - 1))) (Ke ! R)"
  shows "map2 (\<lambda>w k. sub sm_Si w XOR k) (shift_rows u1 u2 u3 (rounds (dec_round u1 u2 u3) Kd R (add_key c (Kd ! 0)))) (Kd ! R) = t"
proof -
  have len: "length (Ke ! R) = n" "length (Ke ! 0) = n" "length (enc_state t r) = n" for r
    using row_length length_enc_state assms by simp_all
  have "add_key c (Kd ! 0) = map (sub sm_S) (shift_rows s1 s2 s3 (enc_state t (R - 1)))"
    unfolding c_def add_key_def first_key [OF assms(1)]
    by (rule nth_equalityI) (use t len in \<open>simp_all add: xor.assoc\<close>)
  moreover have "Suc (R - 1) = R" using R [OF assms(1)] by simp
  ultimately have "rounds (dec_round u1 u2 u3) Kd R (add_key c (Kd ! 0)) = map (sub sm_S) (shift_rows s1 s2 s3 (enc_state t 0))"
    using dec_rounds [OF assms(1) t, of "R - 1"] R [OF assms(1)] by simp
  moreover have "shift_rows u1 u2 u3 (map (sub sm_S) (shift_rows s1 s2 s3 (enc_state t 0))) = map (sub sm_S) (enc_state t 0)"
    by (rule unshift) (use shifts [OF assms(1)] len in simp_all)
  moreover have "map2 (\<lambda>w k. sub sm_Si w XOR k) (map (sub sm_S) (enc_state t 0)) (Ke ! 0) = t"
    by (rule nth_equalityI) (use t len in \<open>simp_all add: sub_inverse enc_state_simps add_key_def xor.assoc\<close>)
  ultimately show ?thesis by (simp add: last_key [OF assms(1)])
qed

end

lemma store_load: "length bs = 4 * n \<Longrightarrow> store_words (load_words n bs) = bs"
proof (induction n arbitrary: bs)
  case (Suc n)
  then obtain a b c d r where bs: "bs = a # b # c # d # r" "length r = 4 * n"
    by (auto simp: numeral_eq_Suc length_Suc_conv)
  have "load_words (Suc n) bs = pack a b c d # load_words n r"
    unfolding load_words_def bs(1) by (simp add: upt_conv_Cons map_Suc_upt [symmetric] add.commute [of 3] del: upt_Suc)
  with Suc.IH [OF bs(2)] bs(1) show ?case by (simp add: store_words_def)
qed (simp add: store_words_def load_words_def)

lemma length_store_words [simp]: "length (store_words ws) = 4 * length ws"
  by (induction ws) (simp_all add: store_words_def)

lemma load_store: "load_words (length ws) (store_words ws) = ws"
proof (induction ws)
  case (Cons w ws)
  have "load_words (length (w # ws)) (store_words (w # ws)) = w # load_words (length ws) (store_words ws)"
    unfolding load_words_def store_words_def by (simp add: upt_conv_Cons map_Suc_upt [symmetric] add.commute [of 3] del: upt_Suc)
  then show ?case using Cons by simp
qed (simp add: load_words_def)

section \<open>Keyed objects\<close>

text \<open>The two schedules during the expansion mirror each other.\<close>

definition mirrored :: "nat \<Rightarrow> nat \<Rightarrow> u32 list list \<Rightarrow> u32 list list \<Rightarrow> bool" where
  "mirrored R BC Ke Kd \<longleftrightarrow> length Ke = R + 1 \<and> length Kd = R + 1 \<and> (\<forall>r \<le> R. length (Ke ! r) = BC \<and> Kd ! (R - r) = Ke ! r)"

lemma mirrored_zeros: "mirrored R BC (replicate (R + 1) (replicate BC 0)) (replicate (R + 1) (replicate BC 0))"
  by (simp add: mirrored_def del: replicate.simps)

lemma mirrored_update:
  assumes "mirrored R BC Ke Kd" "q \<le> R"
  shows "mirrored R BC (Ke[q := (Ke ! q)[j := k]]) (Kd[R - q := (Kd ! (R - q))[j := k]])"
  using assms by (auto simp: mirrored_def nth_list_update)

lemma mirrored_copy_keys:
  assumes "mirrored R BC Ke Kd" "copy_keys R BC ks (Ke, Kd, t) = (Ke', Kd', t')"
  shows "mirrored R BC Ke' Kd'"
  using assms
proof (induction ks arbitrary: Ke Kd t)
  case (Cons k ks)
  have "t div BC \<le> R" if "t < (R + 1) * BC"
    using that less_mult_imp_div_less [of t "R + 1" BC] by simp
  with Cons.prems Cons.IH [OF mirrored_update [OF Cons.prems(1)]] show ?case by (auto split: if_splits)
qed simp

lemma mirrored_expand_loop:
  "mirrored R BC Ke Kd \<Longrightarrow> expand_loop R BC p tk (Ke, Kd, t) = (Ke', Kd') \<Longrightarrow> mirrored R BC Ke' Kd'"
proof (induction R BC p tk "(Ke, Kd, t)" arbitrary: Ke Kd t rule: expand_loop.induct)
  case (1 R BC p tk Ke Kd t)
  obtain E D t' where c: "copy_keys R BC (evolve (length tk) p tk) (Ke, Kd, t) = (E, D, t')" by (metis prod_cases3)
  show ?case
  proof (cases "t < (R + 1) * BC \<and> tk \<noteq> []")
    case True
    from mirrored_copy_keys [OF 1(2) c] 1(1) [OF True refl c] 1(3) True c show ?thesis
      by (simp add: expand_loop.simps [of R BC p tk Ke Kd t] Let_def)
  next
    case False
    then show ?thesis using 1(2,3) by (auto simp: expand_loop.simps [of R BC p tk Ke Kd t])
  qed
qed

definition rijndael_inv :: "rijndael \<Rightarrow> bool" where
  "rijndael_inv c \<longleftrightarrow> m_bKeyInit c \<and> m_blockSize c \<in> {16, 24, 32} \<and> 1 \<le> m_iROUNDS c \<and>
     length (m_chain c) = m_blockSize c \<and> length (m_chain0 c) = m_blockSize c \<and>
     (\<forall>r \<le> m_iROUNDS c. length (m_Ke c ! r) = m_blockSize c div 4) \<and>
     m_Kd c ! 0 = m_Ke c ! m_iROUNDS c \<and> m_Kd c ! m_iROUNDS c = m_Ke c ! 0 \<and>
     (\<forall>r. 1 \<le> r \<and> r < m_iROUNDS c \<longrightarrow> m_Kd c ! r = map inv_mix (m_Ke c ! (m_iROUNDS c - r)))"

lemma MakeKey_inv: "MakeKey key chain kl bs o1 = Inr c \<Longrightarrow> rijndael_inv c"
proof -
  assume mk: "MakeKey key chain kl bs o1 = Inr c"
  define R BC tk where "R = key_rounds kl bs" and "BC = bs div 4" and "tk = load_words (kl div 4) key"
  define zeros :: "u32 list list" where "zeros = replicate (R + 1) (replicate BC 0)"
  obtain Ke1 Kd1 t1 where c1: "copy_keys R BC tk (zeros, zeros, 0) = (Ke1, Kd1, t1)" by (metis prod_cases3)
  obtain Ke Kd where c2: "expand_loop R BC 0 tk (Ke1, Kd1, t1) = (Ke, Kd)" by fastforce
  have m: "mirrored R BC Ke Kd"
    using mirrored_expand_loop [OF mirrored_copy_keys [OF mirrored_zeros c1 [unfolded zeros_def]] c2] .
  let ?Kd = "map (\<lambda>r. if 1 \<le> r \<and> r < R then map inv_mix (Kd ! r) else Kd ! r) [0..<R + 1]"
  have sizes: "bs \<in> {16, 24, 32}" "\<not> length chain < bs" and c:
    "c = o1\<lparr>m_bKeyInit := True, m_Ke := Ke, m_Kd := ?Kd, m_keylength := kl, m_blockSize := bs,
       m_iROUNDS := R, m_chain0 := take bs chain, m_chain := take bs chain\<rparr>"
    using mk c1 c2 unfolding MakeKey_def R_def [symmetric] BC_def [symmetric] tk_def [symmetric] zeros_def [symmetric] Let_def
    by (auto split: if_splits)
  have R: "1 \<le> R" by (simp add: R_def key_rounds_def)
  have "Kd ! r = Ke ! (R - r)" if "r \<le> R" for r
    using m that unfolding mirrored_def by (metis diff_diff_cancel diff_le_self)
  then show ?thesis using sizes R m unfolding c by (auto simp: rijndael_inv_def mirrored_def BC_def nth_append)
qed

interpretation block: round_keys "rijndael_inv c" "m_blockSize c div 4" "m_iROUNDS c" "m_Ke c" "m_Kd c"
    "shift_of (m_blockSize c div 4) 0 1" "shift_of (m_blockSize c div 4) 0 2" "shift_of (m_blockSize c div 4) 0 3"
    "shift_of (m_blockSize c div 4) 1 1" "shift_of (m_blockSize c div 4) 1 2" "shift_of (m_blockSize c div 4) 1 3" for c
  by unfold_locales (auto simp: rijndael_inv_def shift_of_def sm_shifts_def)

section \<open>Round trips\<close>

lemma length_enc_rounds: "length (rounds (enc_round s1 s2 s3) K R t) = length t"
proof -
  have "length (fold (\<lambda>r. enc_round s1 s2 s3 (K ! r)) rs t) = length t" for rs
    by (induction rs arbitrary: t) simp_all
  then show ?thesis by (simp add: rounds_def)
qed

lemma length_dec_rounds: "length (rounds (dec_round s1 s2 s3) K R t) = length t"
proof -
  have "length (fold (\<lambda>r. dec_round s1 s2 s3 (K ! r)) rs t) = length t" for rs
    by (induction rs arbitrary: t) simp_all
  then show ?thesis by (simp add: rounds_def)
qed

lemma rijndael_invD:
  assumes "rijndael_inv c"
  shows "m_bKeyInit c" "4 * (m_blockSize c div 4) = m_blockSize c" "0 < m_blockSize c" "length (m_chain c) = m_blockSize c"
    "length (m_Ke c ! 0) = m_blockSize c div 4" "length (m_Ke c ! m_iROUNDS c) = m_blockSize c div 4"
    "length (m_Kd c ! 0) = m_blockSize c div 4" "length (m_Kd c ! m_iROUNDS c) = m_blockSize c div 4"
  using assms by (auto simp: rijndael_inv_def)

lemma general_inverse:
  assumes inv: "rijndael_inv c" and p: "length p = m_blockSize c"
  shows "length (encrypt_general c p) = m_blockSize c \<and> decrypt_general c (encrypt_general c p) = p"
proof -
  let ?n = "m_blockSize c div 4"
  let ?t = "load_words ?n p"
  define e where "e = map2 (\<lambda>w k. sub sm_S w XOR k) (shift_rows (shift_of ?n 0 1) (shift_of ?n 0 2) (shift_of ?n 0 3)
      (block.enc_state c ?t (m_iROUNDS c - 1))) (m_Ke c ! m_iROUNDS c)"
  have R: "Suc (m_iROUNDS c - 1) = m_iROUNDS c" using inv by (auto simp: rijndael_inv_def)
  note len = rijndael_invD [OF inv]
  have t: "length ?t = ?n" by simp
  have e_len: "length e = ?n" using block.length_enc_state [OF inv t] len by (simp add: e_def)
  have enc: "encrypt_general c p = store_words e"
    unfolding e_def block.enc_state_def R using len
    by (simp add: encrypt_general_def Let_def last_round_eq length_enc_rounds add_key_def)
  then have "load_words ?n (encrypt_general c p) = e" using load_store [of e] e_len by simp
  then have "decrypt_general c (encrypt_general c p) = store_words ?t"
    using block.columns_restored [OF inv t, folded e_def] len e_len
    by (simp add: decrypt_general_def Let_def last_round_eq length_dec_rounds add_key_def)
  then show ?thesis using store_load [of p ?n] p len enc e_len by simp
qed

text \<open>The unrolled functions are the general ones for four columns.\<close>

definition list4 :: "four \<Rightarrow> u32 list" where
  "list4 f = (case f of (a, b, c, d) \<Rightarrow> [a, b, c, d])"

lemma upt4: "[0..<4] = [0, 1, 2, 3 :: nat]"
  by code_simp

lemma mod4: "(0 + 1) mod 4 = (1 :: nat)" "(0 + 2) mod 4 = (2 :: nat)" "(0 + 3) mod 4 = (3 :: nat)" "(1 + 1) mod 4 = (2 :: nat)" "(1 + 2) mod 4 = (3 :: nat)"
  "(1 + 3) mod 4 = (0 :: nat)" "(2 + 1) mod 4 = (3 :: nat)" "(2 + 2) mod 4 = (0 :: nat)" "(2 + 3) mod 4 = (1 :: nat)" "(3 + 1) mod 4 = (0 :: nat)"
  "(3 + 2) mod 4 = (1 :: nat)" "(3 + 3) mod 4 = (2 :: nat)"
  by simp_all

lemma nth4: "[a, b, c, d] ! 0 = a" "[a, b, c, d] ! 1 = b" "[a, b, c, d] ! 2 = c" "[a, b, c, d] ! 3 = d" "length [a, b, c, d] = 4"
  by simp_all

lemmas unroll4 = Let_def list4_def prod.case nth4 upt4 mod4 list.map concat.simps append.simps

lemma list4_rounds:
  "list4 (def_enc_round K f) = enc_round 1 2 3 K (list4 f)" "list4 (def_dec_round K f) = dec_round 3 2 1 K (list4 f)"
proof -
  obtain a b c d where f: "f = (a, b, c, d)" by (cases f)
  show "list4 (def_enc_round K f) = enc_round 1 2 3 K (list4 f)"
    unfolding f def_enc_round.simps enc_round_def unroll4 ..
  show "list4 (def_dec_round K f) = dec_round 3 2 1 K (list4 f)"
    unfolding f def_dec_round.simps dec_round_def unroll4 ..
qed

lemma list4_fold:
  "list4 (fold (\<lambda>r. def_enc_round (K ! r)) rs f) = fold (\<lambda>r. enc_round 1 2 3 (K ! r)) rs (list4 f)"
  "list4 (fold (\<lambda>r. def_dec_round (K ! r)) rs f) = fold (\<lambda>r. dec_round 3 2 1 (K ! r)) rs (list4 f)"
  by (induction rs arbitrary: f) (simp_all add: list4_rounds)

lemma list4_load: "length K = 4 \<Longrightarrow> list4 (load4 b K) = add_key (load_words 4 b) K"
  by (rule nth_equalityI) (auto simp: list4_def load4_def add_key_def load_words_def less_Suc_eq numeral_eq_Suc)

lemma list4_out:
  assumes "list4 f = t" "f = (t0, t1, t2, t3)"
  shows "out4 sm_S (K ! 0) t0 t1 t2 t3 @ out4 sm_S (K ! 1) t1 t2 t3 t0 @ out4 sm_S (K ! 2) t2 t3 t0 t1 @ out4 sm_S (K ! 3) t3 t0 t1 t2 =
      last_round sm_S 1 2 3 K t"
    "out4 sm_Si (K ! 0) t0 t3 t2 t1 @ out4 sm_Si (K ! 1) t1 t0 t3 t2 @ out4 sm_Si (K ! 2) t2 t1 t0 t3 @ out4 sm_Si (K ! 3) t3 t2 t1 t0 =
      last_round sm_Si 3 2 1 K t"
  unfolding assms(1) [symmetric] assms(2) last_round_def out4_def unroll4 by (rule refl)+

lemma default_blocks:
  assumes "rijndael_inv c" "m_blockSize c = 16"
  shows "DefEncryptBlock c b = Inr (encrypt_general c b)" "DefDecryptBlock c b = Inr (decrypt_general c b)"
proof -
  have K: "length (m_Ke c ! 0) = 4" "length (m_Kd c ! 0) = 4" using rijndael_invD [OF assms(1)] assms(2) by simp_all
  obtain t0 t1 t2 t3 where t: "fold (\<lambda>r. def_enc_round (m_Ke c ! r)) [1..<m_iROUNDS c] (load4 b (m_Ke c ! 0)) = (t0, t1, t2, t3)"
    by (metis prod_cases4)
  obtain v0 v1 v2 v3 where v: "fold (\<lambda>r. def_dec_round (m_Kd c ! r)) [1..<m_iROUNDS c] (load4 b (m_Kd c ! 0)) = (v0, v1, v2, v3)"
    by (metis prod_cases4)
  show "DefEncryptBlock c b = Inr (encrypt_general c b)"
    using rijndael_invD(1) [OF assms(1)] assms(2) t list4_out(1) [OF list4_fold(1) t, of "m_Ke c ! m_iROUNDS c"] list4_load [OF K(1)]
    by (simp add: DefEncryptBlock_def encrypt_general_def Let_def rounds_def shift_of_def sm_shifts_def)
  show "DefDecryptBlock c b = Inr (decrypt_general c b)"
    using rijndael_invD(1) [OF assms(1)] assms(2) v list4_out(2) [OF list4_fold(2) v, of "m_Kd c ! m_iROUNDS c"] list4_load [OF K(2)]
    by (simp add: DefDecryptBlock_def decrypt_general_def Let_def rounds_def shift_of_def sm_shifts_def)
qed

lemma block_functions:
  assumes "rijndael_inv c"
  shows "EncryptBlock c b = Inr (encrypt_general c b)" "DecryptBlock c b = Inr (decrypt_general c b)"
  using rijndael_invD(1) [OF assms] default_blocks [OF assms] by (simp_all add: EncryptBlock_def DecryptBlock_def)


lemma xor_same: "length a = length b \<Longrightarrow> map2 (XOR) (map2 (XOR) a b) b = (a :: byte list)"
    "length a = length b \<Longrightarrow> map2 (XOR) b (map2 (XOR) b a) = (a :: byte list)"
  by (induction a b rule: list_induct2) (simp_all add: xor.assoc xor.assoc [symmetric])

lemma map2_xor_commute: "map2 (XOR) a b = map2 (XOR) b (a :: byte list)"
  by (induction a b rule: list_induct2') (simp_all add: xor.commute)

lemma inv_chain: "rijndael_inv c \<Longrightarrow> length ch = m_blockSize c \<Longrightarrow> rijndael_inv (c\<lparr>m_chain := ch\<rparr>)"
  by (simp add: rijndael_inv_def)

text \<open>One block in any mode: the decrypting object ends in the same state as the encrypting one.\<close>

lemma step_inverse:
  assumes inv: "rijndael_inv c" and p: "length p = m_blockSize c"
  shows "\<exists>e c'. encrypt_step iMode c p = Inr (e, c') \<and> length e = m_blockSize c \<and> decrypt_step iMode c e = Inr (p, c') \<and>
    rijndael_inv c' \<and> m_blockSize c' = m_blockSize c"
proof (cases iMode)
  case ECB
  then show ?thesis using general_inverse [OF inv p] inv by (simp add: encrypt_step_def decrypt_step_def block_functions)
next
  case CBC
  let ?x = "map2 (XOR) (m_chain c) p"
  have "length ?x = m_blockSize c" using rijndael_invD [OF inv] p by simp
  from general_inverse [OF inv this] show ?thesis
    using CBC inv rijndael_invD [OF inv] p xor_same(1) [of p "m_chain c"]
    by (simp add: encrypt_step_def decrypt_step_def block_functions Xor_def inv_chain map2_xor_commute [of "m_chain c"])
next
  case CFB
  let ?e = "encrypt_general c (m_chain c)"
  have "length ?e = m_blockSize c" using general_inverse [OF inv] rijndael_invD [OF inv] by simp
  then show ?thesis
    using CFB inv rijndael_invD [OF inv] p xor_same(2) [of p ?e]
    by (simp add: encrypt_step_def decrypt_step_def block_functions Xor_def inv_chain)
qed

lemma loop_inverse:
  assumes "rijndael_inv c" "length p = n * m_blockSize c"
  shows "\<exists>e c'. block_loop (encrypt_step iMode) n c p = Inr (e, c') \<and> length e = n * m_blockSize c \<and>
    block_loop (decrypt_step iMode) n c e = Inr (p, c')"
  using assms
proof (induction n arbitrary: c p)
  case (Suc n)
  let ?b = "m_blockSize c"
  obtain e c' where s: "encrypt_step iMode c (take ?b p) = Inr (e, c')" "length e = ?b" "decrypt_step iMode c e = Inr (take ?b p, c')"
    "rijndael_inv c'" "m_blockSize c' = ?b"
    using step_inverse [OF Suc.prems(1), of "take ?b p" iMode] Suc.prems(2) by auto
  obtain r c'' where l: "block_loop (encrypt_step iMode) n c' (drop ?b p) = Inr (r, c'')" "length r = n * ?b"
    "block_loop (decrypt_step iMode) n c' r = Inr (drop ?b p, c'')"
    using Suc.IH [OF s(4), of "drop ?b p"] Suc.prems(2) s(5) by auto
  show ?case using s l by simp
qed simp

lemma decrypt_inverts:
  assumes inv: "rijndael_inv c" and n: "p \<noteq> []" "m_blockSize c dvd length p"
  shows "\<exists>e c'. Encrypt c p iMode = Inr (e, c') \<and> length e = length p \<and> Decrypt c e iMode = Inr (p, c')"
proof -
  have len: "length p = (length p div m_blockSize c) * m_blockSize c" using n(2) by simp
  obtain e c' where "block_loop (encrypt_step iMode) (length p div m_blockSize c) c p = Inr (e, c')" "length e = length p"
    "block_loop (decrypt_step iMode) (length p div m_blockSize c) c e = Inr (p, c')"
    using loop_inverse [OF inv len, of iMode] len by auto
  then show ?thesis using n rijndael_invD(1) [OF inv] by (auto simp: Encrypt_def Decrypt_def Let_def)
qed

section \<open>Properties\<close>

text \<open>C6: Decryption inverts encryption: for every key of 16, 24 or 32 bytes, every block size, every chain block and
  each of the three modes, a text of whole blocks is encrypted without an exception to a text of the same length,
  and an object in the state before the encryption decrypts it to the text, ending with the same chain block.\<close>

theorem rijndael_round_trip:
  assumes "MakeKey key chain keylength blockSize o1 = Inr c" "p \<noteq> []" "m_blockSize c dvd length p"
  shows "\<exists>e c'. Encrypt c p iMode = Inr (e, c') \<and> length e = length p \<and> Decrypt c e iMode = Inr (p, c')"
  using decrypt_inverts [OF MakeKey_inv [OF assms(1)] assms(2,3)] .

lemma MakeKey_ok:
  assumes "keylength \<in> {16, 24, 32}" "blockSize \<in> {16, 24, 32}" "blockSize \<le> length chain" "keylength \<le> length key"
  shows "\<exists>c. MakeKey key chain keylength blockSize o1 = Inr c \<and> m_blockSize c = blockSize"
  using assms by (auto simp: MakeKey_def Let_def split: prod.split)

theorem rijndael_round_trip_witness:
  "\<exists>c e c'. MakeKey (replicate 24 7) (replicate 32 0) 24 32 rijndael_new = Inr c \<and>
     Encrypt c (replicate 64 9) CBC = Inr (e, c') \<and> Decrypt c e CBC = Inr (replicate 64 9, c')"
proof -
  obtain c where c: "MakeKey (replicate 24 7) (replicate 32 0) 24 32 rijndael_new = Inr c" "m_blockSize c = 32"
    using MakeKey_ok [of 24 32 "replicate 32 0" "replicate 24 7"] by auto
  have "replicate 64 (9 :: byte) \<noteq> []" "m_blockSize c dvd length (replicate 64 (9 :: byte))" using c(2) by simp_all
  from rijndael_round_trip [OF c(1) this, of CBC] c(1) show ?thesis by blast
qed

text \<open>C30: The unrolled block functions for 16 bytes compute what the general loops compute, for every keyed object.\<close>

theorem default_block_equivalence:
  assumes "MakeKey key chain keylength 16 o1 = Inr c"
  shows "DefEncryptBlock c b = Inr (encrypt_general c b) \<and> DefDecryptBlock c b = Inr (decrypt_general c b)"
proof -
  have "m_blockSize c = 16" using assms by (auto simp: MakeKey_def Let_def split: if_splits prod.splits)
  then show ?thesis using default_blocks [OF MakeKey_inv [OF assms]] by simp
qed

theorem default_block_equivalence_witness:
  "\<exists>c. MakeKey (replicate 16 1) (replicate 16 0) 16 16 rijndael_new = Inr c \<and>
     DefEncryptBlock c (replicate 16 5) = Inr (encrypt_general c (replicate 16 5))"
proof -
  obtain c where c: "MakeKey (replicate 16 1) (replicate 16 0) 16 16 rijndael_new = Inr c"
    using MakeKey_ok [of 16 16 "replicate 16 0" "replicate 16 1"] by auto
  from default_block_equivalence [OF c] c show ?thesis by blast
qed

text \<open>C31: All twelve transposition tables hold the products their construction names: T1 the S-box entry times the
  column (2, 1, 1, 3), U1 the index times the inverse column (14, 9, 13, 11), T5 the inverse S-box entry times that
  inverse column, and each other table the one before it rotated by one byte; the inverse S-box undoes the S-box.\<close>

theorem tables_are_products:
  "word_at sm_T1 x = Mul4 (sm_S ! unat x) [2, 1, 1, 3] \<and>
   word_at sm_T2 x = ror8 (word_at sm_T1 x) \<and> word_at sm_T3 x = ror8 (word_at sm_T2 x) \<and> word_at sm_T4 x = ror8 (word_at sm_T3 x) \<and>
   word_at sm_T5 x = Mul4 (int (unat (byte_at sm_Si x))) [14, 9, 13, 11] \<and>
   word_at sm_T6 x = ror8 (word_at sm_T5 x) \<and> word_at sm_T7 x = ror8 (word_at sm_T6 x) \<and> word_at sm_T8 x = ror8 (word_at sm_T7 x) \<and>
   word_at sm_U1 x = Mul4 (int (unat x)) [14, 9, 13, 11] \<and>
   word_at sm_U2 x = ror8 (word_at sm_U1 x) \<and> word_at sm_U3 x = ror8 (word_at sm_U2 x) \<and> word_at sm_U4 x = ror8 (word_at sm_U3 x) \<and>
   byte_at sm_Si (byte_at sm_S x) = x"
proof -
  have U1: "word_at sm_U1 y = Mul4 (int (unat y)) [14, 9, 13, 11]" for y
    using table_nth [OF Mul4_U1_list, of y] by (simp add: word_at_def byte_index)
  have T1: "word_at sm_T1 x = Mul4 (sm_S ! unat x) [2, 1, 1, 3]"
    using table_nth [OF Mul4_T1_list, of x] by (simp add: word_at_def)
  show ?thesis
    by (simp only: T1 U1 Si_S word_at_T(2-4) word_at_T5 word_at_T678 word_at_U simp_thms)
qed

end
