(* ===== verification/Sohu_Price.thy ===== *)
theory Sohu_Price
  imports Rijndael
begin

text \<open>
  Model of the price decoder of protocol/sohu/sohu_price.cpp after the cipher: hexadecimal input, decryption in ECB
  mode, and the text that ends with a block holding its length.
\<close>

section \<open>The decoder\<close>

definition hex_value :: "char \<Rightarrow> byte option" where
  "hex_value c =
     (let lch = ord8 c in
      if ord8 CHR ''0'' \<le> lch \<and> lch \<le> ord8 CHR ''9'' then Some (lch - ord8 CHR ''0'')
      else if ord8 CHR ''A'' \<le> lch \<and> lch \<le> ord8 CHR ''F'' then Some (lch - ord8 CHR ''A'' + 10)
      else if ord8 CHR ''a'' \<le> lch \<and> lch \<le> ord8 CHR ''f'' then Some (lch - ord8 CHR ''a'' + 10)
      else None)"

definition Hex2Char :: "char \<Rightarrow> char \<Rightarrow> byte option" where
  "Hex2Char a b =
     (case hex_value a of None \<Rightarrow> None
      | Some x \<Rightarrow> (case hex_value b of None \<Rightarrow> None | Some y \<Rightarrow> Some (push_bit 4 (push_bit 4 0 + x) + y)))"

text \<open>A pair that is not hexadecimal is left out; so is a single last character.\<close>

fun Hex2String :: "string \<Rightarrow> byte list" where
  "Hex2String (a # b # hex) = (case Hex2Char a b of Some ch \<Rightarrow> ch # Hex2String hex | None \<Rightarrow> Hex2String hex)"
| "Hex2String _ = []"

definition MAX_LEN :: nat where
  "MAX_LEN = 4096"

text \<open>
  \<open>MakeKey\<close> copies 16 bytes from the address of the empty literal that is passed for the chain: its terminator and the
  15 bytes that follow it in memory, \<open>after\<close>.  An exception is logged and gives the empty string.
\<close>

definition sohu_Decrypt :: "byte list \<Rightarrow> byte list \<Rightarrow> byte list \<Rightarrow> string result" where
  "sohu_Decrypt after code key =
     (case bind_result (MakeKey key (0 # after) (length key) 16 rijndael_new) (\<lambda>rijn.
        if length code < MAX_LEN \<and> 16 \<le> length code then
          bind_result (Decrypt rijn code ECB) (\<lambda>(text, _).
            let pos = length code - 16; raw_len = atoi (cstr (map chr8 (drop pos text)))
            in if raw_len \<le> 0 \<or> int pos < raw_len then Inl (MtError ''raw_len error'')
               else Inr (map chr8 (take (nat raw_len) text)))
        else Inr []) of
        Inl MemoryFault \<Rightarrow> Inl MemoryFault
      | Inl e \<Rightarrow> Inr []
      | Inr s \<Rightarrow> Inr s)"

definition sohu_hexkey :: string where
  "sohu_hexkey = ''4AC6A8443D2A7E0391FAEE43C017C2C9E13E70C34732B8A0A3CA8C1DB9E2FBC6''"

definition sohu_price_decode :: "byte list \<Rightarrow> string \<Rightarrow> int result" where
  "sohu_price_decode after input =
     (case bind_result (sohu_Decrypt after (Hex2String input) (Hex2String sohu_hexkey)) stoi of
        Inl MemoryFault \<Rightarrow> Inl MemoryFault
      | Inl e \<Rightarrow> Inr 0
      | Inr price \<Rightarrow> Inr price)"

section \<open>What the exchange sends\<close>

definition fill_block :: "string \<Rightarrow> byte list" where
  "fill_block s = map ord8 s @ replicate (16 - length s) 0"

text \<open>The price in one block, its length in the second.\<close>

definition sohu_plain :: "int \<Rightarrow> byte list" where
  "sohu_plain price = fill_block (to_string price) @ fill_block (to_string (int (length (to_string price))))"

definition hex_upper :: "nat \<Rightarrow> char" where
  "hex_upper n = ''0123456789ABCDEF'' ! n"

definition to_hex :: "byte list \<Rightarrow> string" where
  "to_hex bs = concat (map (\<lambda>b. [hex_upper (unat b div 16), hex_upper (unat b mod 16)]) bs)"

lemma hex_digit: "n < 16 \<Longrightarrow> hex_value (hex_upper n) = Some (word_of_nat n)"
proof -
  have "list_all (\<lambda>n. hex_value (hex_upper n) = Some (word_of_nat n)) [0..<16]" by code_simp
  moreover assume "n < 16"
  ultimately show ?thesis by (simp add: list_all_iff)
qed

lemma Hex2Char_upper: "Hex2Char (hex_upper (unat b div 16)) (hex_upper (unat b mod 16)) = Some b"
proof -
  have "unat b div 16 < 16" by (rule less_mult_imp_div_less) (use unat_byte_less [of b] in linarith)
  moreover have "push_bit 4 (word_of_nat (unat b div 16)) + word_of_nat (unat b mod 16) = b"
  proof -
    have "push_bit 4 (word_of_nat (unat b div 16)) + word_of_nat (unat b mod 16) =
        (word_of_nat (unat b div 16 * 16) + word_of_nat (unat b mod 16) :: byte)"
      by (simp add: push_bit_eq_mult)
    also have "\<dots> = word_of_nat (unat b)" unfolding of_nat_add [symmetric] div_mult_mod_eq ..
    finally show ?thesis by simp
  qed
  ultimately show ?thesis by (simp add: Hex2Char_def hex_digit)
qed

lemma Hex2String_to_hex: "Hex2String (to_hex bs) = bs"
  by (induction bs) (simp_all add: to_hex_def Hex2Char_upper)

lemma length_sohu_key: "length (Hex2String sohu_hexkey) = 32"
  by (simp add: sohu_hexkey_def hex_value_def Hex2Char_def ord8_def)


lemma nat_to_string_bound: "0 < k \<Longrightarrow> n < 10 ^ k \<Longrightarrow> length (nat_to_string n) \<le> k"
proof (induction n arbitrary: k rule: nat_to_string.induct)
  case (1 n)
  show ?case
  proof (cases "n < 10")
    case False
    then obtain j where k: "k = Suc j" "0 < j" using 1(2,3) by (cases k; cases "k - 1") auto
    then have "n div 10 < 10 ^ j" using 1(3) by (simp add: div_less_iff_less_mult mult.commute)
    with 1(1) [OF False k(2)] k(1) False show ?thesis by (simp add: nat_to_string.simps [of n])
  qed (use 1(2) in \<open>simp add: nat_to_string.simps [of n]\<close>)
qed

lemma int32_string_fits: "int32_min \<le> i \<Longrightarrow> i \<le> int32_max \<Longrightarrow> length (to_string i) \<le> 11"
proof -
  assume "int32_min \<le> i" "i \<le> int32_max"
  then have "nat i < 10 ^ 10" "nat (- i) < 10 ^ 10" by (simp_all add: int_limits nat_less_iff)
  then have "length (nat_to_string (nat i)) \<le> 10" "length (nat_to_string (nat (- i))) \<le> 10"
    by (auto intro!: nat_to_string_bound)
  then show ?thesis by (simp add: to_string_def)
qed

lemma cstr_fill: "NUL \<notin> set s \<Longrightarrow> cstr (map chr8 (map ord8 s @ replicate n 0)) = s"
proof (induction s)
  case Nil
  have "chr8 0 = NUL" by (simp add: chr8_def char_of_def)
  then show ?case by (cases n) (simp_all add: cstr_def)
qed (auto simp: cstr_def)

lemma to_string_no_NUL: "NUL \<notin> set (to_string i)"
  using set_to_string [of NUL i] by (auto simp: is_digit_char_def)

lemma ecb_chain:
  assumes "rijndael_inv c" "m_blockSize c \<le> length ch" "m_blockSize c \<le> length ch0"
  shows "\<exists>e. block_loop (encrypt_step ECB) n c p = Inr (e, c) \<and>
    block_loop (encrypt_step ECB) n (c\<lparr>m_chain0 := take (m_blockSize c) ch0, m_chain := take (m_blockSize c) ch\<rparr>) p =
      Inr (e, c\<lparr>m_chain0 := take (m_blockSize c) ch0, m_chain := take (m_blockSize c) ch\<rparr>)"
proof (induction n arbitrary: p)
  case (Suc n)
  let ?c = "c\<lparr>m_chain0 := take (m_blockSize c) ch0, m_chain := take (m_blockSize c) ch\<rparr>"
  have "rijndael_inv ?c" using assms by (simp add: rijndael_inv_def)
  moreover have "encrypt_general ?c b = encrypt_general c b" for b by (simp add: encrypt_general_def)
  ultimately show ?case using Suc [of "drop (m_blockSize c) p"] assms(1)
    by (auto simp: encrypt_step_def block_functions)
qed simp


lemma sohu_Decrypt_plain:
  assumes "length after = 15" "MakeKey key chain (length key) 16 rijndael_new = Inr c" "Encrypt c p ECB = Inr (e, c')"
    "p = fill_block s @ fill_block (to_string (int (length s)))" "s \<noteq> []" "length s \<le> 16"
  shows "sohu_Decrypt after e key = Inr s"
proof -
  have inv: "rijndael_inv c" by (rule MakeKey_inv [OF assms(2)])
  have size: "m_blockSize c = 16" and ch: "16 \<le> length chain"
    using assms(2) by (auto simp: MakeKey_def Let_def split: if_splits prod.splits)
  have "int (length s) \<le> int32_max" "int32_min \<le> int (length s)" using assms(6) by (simp_all add: int_limits)
  then have digits: "length (to_string (int (length s))) \<le> 11" "atoi (to_string (int (length s))) = int (length s)"
    using int32_string_fits atoi_to_string by blast+
  then have len: "length p = 32" using assms(4,6) by (simp add: fill_block_def)
  let ?c = "c\<lparr>m_chain0 := take (m_blockSize c) (0 # after), m_chain := take (m_blockSize c) (0 # after)\<rparr>"
  have mk: "MakeKey key (0 # after) (length key) 16 rijndael_new = Inr ?c"
    using assms(1,2) by (auto simp: MakeKey_def Let_def size split: if_splits prod.splits)
  have "rijndael_inv ?c" by (rule MakeKey_inv [OF mk])
  moreover have "Encrypt ?c p ECB = Inr (e, ?c)"
    using ecb_chain [OF inv, of "0 # after" "0 # after" 2 p] assms(1,3) size len rijndael_invD(1) [OF inv]
    by (auto simp: Encrypt_def Let_def)
  ultimately have d: "Decrypt ?c e ECB = Inr (p, ?c)" "length e = 32"
    using decrypt_inverts [of ?c p ECB] size len by (cases "p = []"; auto)+
  have "map chr8 (drop 16 p) = map chr8 (map ord8 (to_string (int (length s))) @ replicate (16 - length (to_string (int (length s)))) 0)"
    using assms(4,6) by (simp add: fill_block_def)
  then have "atoi (cstr (map chr8 (drop 16 p))) = int (length s)"
    by (simp only: cstr_fill [OF to_string_no_NUL] digits)
  moreover have "map chr8 (take (length s) p) = s" using assms(4,6) by (simp add: fill_block_def)
  ultimately show ?thesis
    using d mk assms(5,6) by (simp add: sohu_Decrypt_def MAX_LEN_def Let_def)
qed

section \<open>Properties\<close>

text \<open>C27: A price the exchange encrypts with the shared key, whatever its chain block, is decoded to itself; the 15 bytes
  that \<open>MakeKey\<close> reads behind the empty literal do not matter.\<close>

theorem sohu_price_round_trip:
  assumes "int32_min \<le> price" "price \<le> int32_max" "length after = 15"
    "MakeKey (Hex2String sohu_hexkey) chain 32 16 rijndael_new = Inr c" "Encrypt c (sohu_plain price) ECB = Inr (e, c')"
  shows "sohu_price_decode after (to_hex e) = Inr price"
proof -
  have "sohu_Decrypt after e (Hex2String sohu_hexkey) = Inr (to_string price)"
    by (rule sohu_Decrypt_plain [OF assms(3) _ assms(5)])
      (use assms(1,2,4) int32_string_fits [of price] in \<open>simp_all add: length_sohu_key sohu_plain_def\<close>)
  then show ?thesis using assms(1,2) by (simp add: sohu_price_decode_def Hex2String_to_hex)
qed

theorem sohu_price_round_trip_witness:
  "\<exists>c e c'. MakeKey (Hex2String sohu_hexkey) (replicate 16 3) 32 16 rijndael_new = Inr c \<and>
     Encrypt c (sohu_plain 1250) ECB = Inr (e, c') \<and> sohu_price_decode (replicate 15 9) (to_hex e) = Inr 1250"
proof -
  obtain c where c: "MakeKey (Hex2String sohu_hexkey) (replicate 16 3) 32 16 rijndael_new = Inr c" "m_blockSize c = 16"
    using MakeKey_ok [of 32 16 "replicate 16 3" "Hex2String sohu_hexkey"] length_sohu_key by auto
  have ok: "int32_min \<le> 1250" "1250 \<le> int32_max" by (simp_all add: int_limits)
  then have "length (sohu_plain 1250) = 32"
    using int32_string_fits [of 1250] int32_string_fits [of "int (length (to_string 1250))"]
    by (simp add: sohu_plain_def fill_block_def int_limits)
  then obtain e c' where "Encrypt c (sohu_plain 1250) ECB = Inr (e, c')"
    using decrypt_inverts [OF MakeKey_inv [OF c(1)], of "sohu_plain 1250" ECB] c(2) by (cases "sohu_plain 1250 = []") auto
  with sohu_price_round_trip [OF ok, of "replicate 15 9"] c(1) show ?thesis by (metis length_replicate)
qed

text \<open>With fewer bytes behind the literal the read leaves the image.\<close>

lemma sohu_chain_overread: "length after < 15 \<Longrightarrow> sohu_price_decode after input = Inl MemoryFault"
  by (simp add: sohu_price_decode_def sohu_Decrypt_def MakeKey_def length_sohu_key)

end
