(* ===== verification/Pricing.thy ===== *)
theory Pricing
  imports Floating Log_Item Price_Codes Sohu_Price
begin

text \<open>
  Model of the price computations of core/logic/abstract_query_task.cpp: the winning price an exchange reports, the
  offered price of the link, and what a show or a click costs and is charged.  The numbers of the exchanges and of the
  price types, the cryptographic libraries and \<open>MT::common::costdetailVec\<close>, which may throw, are parameters.
\<close>

section \<open>Constants and libraries\<close>

datatype adx_name = ADX_TANX | ADX_TANX_MOBILE | ADX_YOUKU | ADX_YOUKU_MOBILE | ADX_BAIDU | ADX_BAIDU_MOBILE
  | ADX_GUANGYIN | ADX_GUANGYIN_MOBILE | ADX_TENCENT_GDT | ADX_GDT_MOBILE | ADX_NETEASE_MOBILE | ADX_YIDIAN
  | ADX_SOHU_PC | ADX_SOHU_MOBILE | ADX_INMOBI | ADX_LIEBAO_MOBILE | ADX_NEX_PC | ADX_NEX_MOBILE | ADX_KUPAI_MOBILE
  | ADX_360_MAX_PC | ADX_360_MAX_MOBILE | ADX_2345_PC | ADX_2345_MOBILE | ADX_SSP_PC | ADX_SSP_MOBILE

record price_env =
  adx_id :: "adx_name \<Rightarrow> int"
  PRICETYPE_RRTB_CPM :: int
  PRICETYPE_RRTB_CPC :: int
  PRICETYPE_RCPC :: int
  PRICETYPE_RTB :: int
  OFFERPRICE_ENCODE_KEY :: string
  lib_md5 :: md5_digest
  lib_hmac :: hmac_sha1
  lib_evp :: hmac_evp
  lib_bio :: bio_base64
  lib_boost64 :: boost_base64
  lib_b64 :: "string \<Rightarrow> string"
  lib_aes :: aes_decode
  lib_aes_nopadding :: aes_decode
  lib_aes_cbc :: "string \<Rightarrow> string \<Rightarrow> string \<Rightarrow> string"
  sohu_after :: "byte list"
  costdetailVec :: "string \<Rightarrow> dbl \<Rightarrow> u64 list result"

section \<open>The reported price\<close>

text \<open>\<open>safeconvert(stoi, s)\<close> and the handlers \<open>catch (...) { return 0; }\<close>\<close>

definition safe_stoi :: "string \<Rightarrow> int" where
  "safe_stoi s = (case stoi s of Inr v \<Rightarrow> v | Inl e \<Rightarrow> 0)"

definition safe_stod :: "string \<Rightarrow> dbl" where
  "safe_stod s = (case stod s of Inr v \<Rightarrow> v | Inl e \<Rightarrow> Fin 0)"

text \<open>\<open>int(std::stof(input) * 1.06 * 100)\<close>\<close>

definition inmobi_price :: "string \<Rightarrow> int" where
  "inmobi_price s =
     (case stof s of
        Inr v \<Rightarrow> dbl_to_int (dbl_mul (dbl_mul v (round_double (106 / 100))) (Fin 100))
      | Inl e \<Rightarrow> 0)"

text \<open>Division of a \<open>int64_t\<close> truncates.\<close>

definition quot64 :: "int \<Rightarrow> int \<Rightarrow> int" where
  "quot64 a b = sgn a * (\<bar>a\<bar> div b)"

text \<open>The decoders that return \<open>int64_t\<close> are cut to \<open>int\<close> by the \<open>return\<close>.\<close>

definition to_int :: "int result \<Rightarrow> int result" where
  "to_int r = (case r of Inr v \<Rightarrow> Inr (wrap32 v) | Inl e \<Rightarrow> Inl e)"

definition adx_is :: "price_env \<Rightarrow> int \<Rightarrow> adx_name list \<Rightarrow> bool" where
  "adx_is E adx names \<longleftrightarrow> adx \<in> set (map (adx_id E) names)"

definition decodeAdxExchangePrice :: "price_env \<Rightarrow> int \<Rightarrow> string \<Rightarrow> int result" where
  "decodeAdxExchangePrice E adx input =
     (if input = [] then Inr 0
      else if adx_is E adx [ADX_TANX, ADX_TANX_MOBILE] then to_int (tanx_price_decode (lib_md5 E) (lib_bio E) input)
      else if adx_is E adx [ADX_YOUKU, ADX_YOUKU_MOBILE] then to_int (youku_price_decode (lib_b64 E) (lib_aes E) input)
      else if adx_is E adx [ADX_BAIDU, ADX_BAIDU_MOBILE] then to_int (baidu_price_decode (lib_hmac E) (lib_bio E) input)
      else if adx_is E adx [ADX_GUANGYIN, ADX_GUANGYIN_MOBILE] then to_int (guangyin_price_decode (lib_hmac E) (lib_bio E) input)
      else if adx_is E adx [ADX_TENCENT_GDT, ADX_GDT_MOBILE] then gdt_price_decode (lib_b64 E) (lib_aes_nopadding E) input
      else if adx_is E adx [ADX_NETEASE_MOBILE, ADX_YIDIAN] then stoi input
      else if adx_is E adx [ADX_SOHU_PC, ADX_SOHU_MOBILE] then sohu_price_decode (sohu_after E) input
      else if adx_is E adx [ADX_INMOBI] then Inr (inmobi_price input)
      else if adx_is E adx [ADX_LIEBAO_MOBILE] then Inr (safe_stoi input)
      else if adx_is E adx [ADX_NEX_PC, ADX_NEX_MOBILE] then nex_price_decode (lib_b64 E) (lib_aes_cbc E) input
      else if adx_is E adx [ADX_KUPAI_MOBILE] then to_int (kupai_price_decode (lib_evp E) (lib_boost64 E) input)
      else if adx_is E adx [ADX_360_MAX_PC, ADX_360_MAX_MOBILE]
        then to_int (bind_result (max360_price_decode (lib_evp E) (lib_boost64 E) input) (\<lambda>v. Inr (quot64 v 10000)))
      else if adx_is E adx [ADX_2345_PC, ADX_2345_MOBILE, ADX_SSP_PC, ADX_SSP_MOBILE] then Inr (safe_stoi input)
      else Inr 0)"

section \<open>The offered price\<close>

definition decodeOfferPrice :: "price_env \<Rightarrow> string \<Rightarrow> bool \<Rightarrow> int" where
  "decodeOfferPrice E input useAes =
     (case (if \<not> useAes then bind_result (stoi input) (\<lambda>output. Inr (if output < 0 then wrap32 (- output) else output))
            else stoi (lib_aes E (OFFERPRICE_ENCODE_KEY E) input)) of
        Inr v \<Rightarrow> v
      | Inl e \<Rightarrow> 0)"

section \<open>Cost and charge\<close>

definition is_cpc :: "price_env \<Rightarrow> int \<Rightarrow> bool" where
  "is_cpc E t \<longleftrightarrow> t = PRICETYPE_RRTB_CPC E \<or> t = PRICETYPE_RCPC E"

text \<open>\<open>calcPrice\<close> writes to the log item it is given: an exception of \<open>costdetailVec\<close> leaves the cost and the price that
  were written before it.\<close>

definition split_fees :: "price_env \<Rightarrow> string \<Rightarrow> dbl \<Rightarrow> ad_info \<Rightarrow> ad_info \<times> cxx_error option" where
  "split_fees E detail base ad =
     (if detail \<noteq> [] then
        case costdetailVec E detail base of Inr v \<Rightarrow> (ad\<lparr>feeRateDetail := v\<rparr>, None) | Inl e \<Rightarrow> (ad, Some e)
      else (ad, None))"

definition calcPrice ::
  "price_env \<Rightarrow> int \<Rightarrow> bool \<Rightarrow> int \<Rightarrow> int \<Rightarrow> dbl \<Rightarrow> string \<Rightarrow> log_phase_type \<Rightarrow> int \<Rightarrow> int \<Rightarrow> ad_info \<Rightarrow>
   ad_info \<times> cxx_error option" where
  "calcPrice E adx isDeal decodePrice offer feeRate detail phase prType adplaceBuyType ad =
     (let buy = (if adplaceBuyType = 0 then PRICETYPE_RRTB_CPM E else adplaceBuyType);
          fixPrice = (isDeal \<or> adx_is E adx [ADX_NETEASE_MOBILE, ADX_YIDIAN]);
          offer = (if fixPrice then if offer = 0 then decodePrice else offer else offer)
      in case phase of
           SHOW \<Rightarrow>
             let ad = ad\<lparr>cost := if buy = PRICETYPE_RRTB_CPM E then decodePrice else 0\<rparr>
             in if is_cpc E prType then (ad\<lparr>bidPrice := 0\<rparr>, None)
                else if \<not> fixPrice then
                  split_fees E detail (Fin (of_int decodePrice))
                    (ad\<lparr>bidPrice := dbl_to_int (dbl_ceil (dbl_mul (Fin (of_int decodePrice)) feeRate))\<rparr>)
                else split_fees E detail (Fin (of_int offer)) (ad\<lparr>bidPrice := offer\<rparr>)
         | CLICK \<Rightarrow>
             let ad = ad\<lparr>cost := wrap32 ((if buy = PRICETYPE_RRTB_CPM E then 0 else decodePrice) * 1000)\<rparr>
             in if is_cpc E prType then
                  split_fees E detail (dbl_div (Fin (of_int (wrap32 (offer * 1000)))) feeRate)
                    (ad\<lparr>bidPrice := wrap32 (offer * 1000)\<rparr>)
                else (ad, None)
         | _ \<Rightarrow> (ad, None))"

section \<open>Ranges\<close>

named_theorems int_range

lemma is_int32_wrap32 [int_range]: "is_int32 (wrap32 v)"
  by (simp add: is_int32_def wrap32_def int_limits)

lemma is_int32_0 [int_range]: "is_int32 0"
  by (simp add: is_int32_def int_limits)

lemma stoi_range: "stoi s = Inr v \<Longrightarrow> is_int32 v"
  by (auto simp: stoi_def is_int32_def split: option.splits if_splits)

lemma safe_stoi_range [int_range]: "is_int32 (safe_stoi s)"
  by (auto simp: safe_stoi_def int_range dest: stoi_range split: sum.split)

lemma dbl_to_int_range [int_range]: "is_int32 (dbl_to_int x)"
  by (cases x) (auto simp: is_int32_def Let_def int_limits)

lemma to_int_range: "to_int r = Inr v \<Longrightarrow> is_int32 v"
  by (auto simp: to_int_def int_range split: sum.splits)

lemma caught_range: "caught r = Inr v \<Longrightarrow> (\<And>w. r = Inr w \<Longrightarrow> is_int32 w) \<Longrightarrow> is_int32 v"
  by (auto simp: caught_def int_range split: sum.splits cxx_error.splits)

lemma int_decoders_range:
  "gdt_price_decode b64 aes s = Inr v \<Longrightarrow> is_int32 v" "nex_price_decode b64 cbc s = Inr v \<Longrightarrow> is_int32 v"
  "sohu_price_decode after s = Inr v \<Longrightarrow> is_int32 v"
  unfolding gdt_price_decode_def gdt_getPrice_def nex_price_decode_def sohu_price_decode_def
  by (erule caught_range, auto simp: bind_result_eq_Inr int_range dest: stoi_range split: sum.splits cxx_error.splits)+

lemma decodeAdxExchangePrice_range:
  assumes "decodeAdxExchangePrice E adx s = Inr v"
  shows "is_int32 v"
  using assms unfolding decodeAdxExchangePrice_def inmobi_price_def
  by (auto simp: int_range dest: to_int_range stoi_range int_decoders_range split: if_splits sum.splits)

lemma decodeOfferPrice_range [int_range]: "is_int32 (decodeOfferPrice E s b)"
  unfolding decodeOfferPrice_def
  by (auto simp: int_range bind_result_eq_Inr dest: stoi_range split: sum.split if_splits)

lemma calcPrice_valid:
  assumes "ad_valid ad" "is_int32 decodePrice" "is_int32 offer"
  shows "ad_valid (fst (calcPrice E adx deal decodePrice offer rate detail phase pt buy ad))"
  using assms unfolding calcPrice_def split_fees_def Let_def ad_valid_def
  by (cases phase) (simp_all add: int_range split: sum.split)

text \<open>The amount the fees are split on, if they are.\<close>

definition fee_base :: "price_env \<Rightarrow> int \<Rightarrow> bool \<Rightarrow> int \<Rightarrow> int \<Rightarrow> dbl \<Rightarrow> log_phase_type \<Rightarrow> int \<Rightarrow> dbl option" where
  "fee_base E adx isDeal p offer rate phase prType =
     (let fixPrice = (isDeal \<or> adx_is E adx [ADX_NETEASE_MOBILE, ADX_YIDIAN]);
          agreed = (if fixPrice \<and> offer = 0 then p else offer)
      in if phase = SHOW \<and> \<not> is_cpc E prType then Some (Fin (of_int (if fixPrice then agreed else p)))
         else if phase = CLICK \<and> is_cpc E prType then Some (dbl_div (Fin (of_int (wrap32 (agreed * 1000)))) rate)
         else None)"

lemma calcPrice_throws:
  "snd (calcPrice E adx isDeal p offer rate detail phase prType buy ad) =
     (if detail = [] then None
      else case fee_base E adx isDeal p offer rate phase prType of None \<Rightarrow> None
        | Some b \<Rightarrow> (case costdetailVec E detail b of Inl e \<Rightarrow> Some e | Inr v \<Rightarrow> None))"
  by (cases phase) (simp_all add: calcPrice_def fee_base_def split_fees_def Let_def split: sum.split)

lemma fst_split_fees [simp]:
  "cost (fst (split_fees E detail b ad)) = cost ad" "bidPrice (fst (split_fees E detail b ad)) = bidPrice ad"
  "landingUrl (fst (split_fees E detail b ad)) = landingUrl ad"
  by (simp_all add: split_fees_def split: sum.split)

section \<open>Properties\<close>

lemma wrap32_thousand: "\<bar>v\<bar> \<le> 2147483 \<Longrightarrow> wrap32 (v * 1000) = v * 1000"
  by (simp add: wrap32_def)

lemma wrap32_zero [simp]: "wrap32 0 = 0"
  by (simp add: wrap32_def)

text \<open>The price a delivery is charged: the offered one if it is settled per click or at a fixed price, the marked-up
  winning price otherwise.\<close>

definition agreed_price :: "price_env \<Rightarrow> int \<Rightarrow> bool \<Rightarrow> int \<Rightarrow> int \<Rightarrow> dbl \<Rightarrow> int \<Rightarrow> int" where
  "agreed_price E adx isDeal p offer rate prType =
     (if isDeal \<or> adx_is E adx [ADX_NETEASE_MOBILE, ADX_YIDIAN] then if offer = 0 then p else offer
      else if is_cpc E prType then offer else dbl_to_int (dbl_ceil (dbl_mul (Fin (of_int p)) rate)))"

text \<open>C8: over the show and the click of one delivery the winning price is recorded as cost once and the agreed price
  is charged once, whatever the buying and the settlement type are, as long as a thousandfold price fits an \<open>int\<close>: a
  show counts in thousandths, a click whole.\<close>

theorem charged_once:
  assumes "cost ad = 0" "bidPrice ad = 0" "\<bar>p\<bar> \<le> 2147483" "\<bar>offer\<bar> \<le> 2147483"
  shows "let logged = (\<lambda>phase. fst (calcPrice E adx isDeal p offer rate detail phase prType buy ad)) in
    1000 * cost (logged SHOW) + cost (logged CLICK) = 1000 * p \<and>
    1000 * bidPrice (logged SHOW) + bidPrice (logged CLICK) = 1000 * agreed_price E adx isDeal p offer rate prType"
  using assms unfolding calcPrice_def agreed_price_def Let_def by (auto simp: wrap32_thousand)

fun sample_adx :: "adx_name \<Rightarrow> int" where
  "sample_adx ADX_TANX = 1" | "sample_adx ADX_TANX_MOBILE = 2" | "sample_adx ADX_YOUKU = 3" | "sample_adx ADX_YOUKU_MOBILE = 4" | "sample_adx ADX_BAIDU = 5"
| "sample_adx ADX_BAIDU_MOBILE = 6" | "sample_adx ADX_GUANGYIN = 7" | "sample_adx ADX_GUANGYIN_MOBILE = 8" | "sample_adx ADX_TENCENT_GDT = 9" | "sample_adx ADX_GDT_MOBILE = 10"
| "sample_adx ADX_NETEASE_MOBILE = 11" | "sample_adx ADX_YIDIAN = 12" | "sample_adx ADX_SOHU_PC = 13" | "sample_adx ADX_SOHU_MOBILE = 14" | "sample_adx ADX_INMOBI = 15"
| "sample_adx ADX_LIEBAO_MOBILE = 16" | "sample_adx ADX_NEX_PC = 17" | "sample_adx ADX_NEX_MOBILE = 18" | "sample_adx ADX_KUPAI_MOBILE = 19" | "sample_adx ADX_360_MAX_PC = 20"
| "sample_adx ADX_360_MAX_MOBILE = 21" | "sample_adx ADX_2345_PC = 22" | "sample_adx ADX_2345_MOBILE = 23" | "sample_adx ADX_SSP_PC = 24" | "sample_adx ADX_SSP_MOBILE = 25"

definition sample_prices :: price_env where
  "sample_prices = \<lparr>adx_id = sample_adx, PRICETYPE_RRTB_CPM = 1, PRICETYPE_RRTB_CPC = 2, PRICETYPE_RCPC = 3,
     PRICETYPE_RTB = 4, OFFERPRICE_ENCODE_KEY = [], lib_md5 = \<lambda>_. replicate 16 0, lib_hmac = \<lambda>_ _. None, lib_evp = \<lambda>_ _ _. [],
     lib_bio = \<lambda>_. None, lib_boost64 = \<lambda>_. None, lib_b64 = id, lib_aes = \<lambda>_ s. s, lib_aes_nopadding = \<lambda>_ s. s,
     lib_aes_cbc = \<lambda>_ _ s. s, sohu_after = [], costdetailVec = \<lambda>detail _. if detail = ''?'' then Inl InvalidArgument else Inr []\<rparr>"

theorem charged_once_witness:
  "let logged = (\<lambda>phase. fst (calcPrice sample_prices 25 False 120 300 (Fin 1) [] phase 2 0 ad_new)) in
    1000 * cost (logged SHOW) + cost (logged CLICK) = 120000 \<and> 1000 * bidPrice (logged SHOW) + bidPrice (logged CLICK) = 300000"
  using charged_once [of ad_new 120 300 sample_prices 25 False "Fin 1" "[]" 2 0]
  by (simp add: ad_new_def agreed_price_def adx_is_def is_cpc_def sample_prices_def)

lemma dbl_to_int_ceil:
  assumes "is_int32 \<lceil>r\<rceil>"
  shows "dbl_to_int (dbl_ceil (Fin r)) = \<lceil>r\<rceil>"
  using assms by (simp add: is_int32_def)

lemma nonneg_int32: "0 \<le> m \<Longrightarrow> m \<le> int32_max \<Longrightarrow> is_int32 m"
  by (simp add: is_int32_def int32_min_def)

lemma marked_up:
  assumes "0 \<le> q" "\<lceil>q\<rceil> \<le> int32_max"
  shows "\<exists>b. dbl_to_int (dbl_ceil (round_double q)) = b \<and> \<lfloor>q\<rfloor> \<le> b \<and> b \<le> \<lceil>q\<rceil>"
proof -
  let ?r = "round_mag 53 (-1074) q"
  have c: "\<lceil>q\<rceil> < 2 ^ 53" using assms(2) by (simp add: int_limits)
  have f: "\<lfloor>q\<rfloor> \<le> \<lceil>?r\<rceil>" "\<lceil>?r\<rceil> \<le> \<lceil>q\<rceil>" using ceiling_round_mag [OF assms(1) c] by auto
  have "round_double q = Fin ?r" by (rule round_double_small [OF assms(1) _ c]) simp
  moreover have "0 \<le> \<lfloor>q\<rfloor>" using assms(1) by simp
  then have "is_int32 \<lceil>?r\<rceil>" by (rule nonneg_int32 [OF order_trans [OF _ f(1)] order_trans [OF f(2) assms(2)]])
  ultimately show ?thesis using f dbl_to_int_ceil by simp
qed

text \<open>C9: a show settled per thousand and not at a fixed price is charged at least the winning price when the fee rate is at least one; the
  charge is the exact marked-up price, rounded up, or one unit below it.\<close>

theorem charge_covers_price:
  assumes "0 \<le> p" "1 \<le> f" "\<lceil>of_int p * f\<rceil> \<le> int32_max" "\<not> is_cpc E prType" "\<not> isDeal"
    "\<not> adx_is E adx [ADX_NETEASE_MOBILE, ADX_YIDIAN]"
  shows "let ad' = fst (calcPrice E adx isDeal p offer (Fin f) detail SHOW prType buy ad) in
    p \<le> bidPrice ad' \<and> cost ad' \<le> bidPrice ad' \<and> \<lceil>of_int p * f\<rceil> - 1 \<le> bidPrice ad' \<and> bidPrice ad' \<le> \<lceil>of_int p * f\<rceil>"
proof -
  let ?q = "of_int p * f"
  have q: "of_int p \<le> ?q" using assms(1,2) by (simp add: mult_le_cancel_left1)
  then have "0 \<le> ?q" "p \<le> \<lfloor>?q\<rfloor>" using assms(1) by (simp_all add: le_floor_iff)
  then obtain b where b: "dbl_to_int (dbl_ceil (round_double ?q)) = b" "\<lfloor>?q\<rfloor> \<le> b" "b \<le> \<lceil>?q\<rceil>"
    using marked_up [OF _ assms(3)] by blast
  have "\<lceil>?q\<rceil> - 1 \<le> \<lfloor>?q\<rfloor>" by linarith
  then have "p \<le> b" "\<lceil>?q\<rceil> - 1 \<le> b" using \<open>p \<le> \<lfloor>?q\<rfloor>\<close> b(2) by linarith+
  then show ?thesis using assms(1,4-6) b by (auto simp: calcPrice_def Let_def)
qed

theorem charge_covers_price_witness:
  "let ad' = fst (calcPrice sample_prices 25 False 120 0 (Fin (5 / 4)) [] SHOW 1 0 ad_new) in
    120 \<le> bidPrice ad' \<and> cost ad' \<le> bidPrice ad' \<and> 149 \<le> bidPrice ad' \<and> bidPrice ad' \<le> 150"
  using charge_covers_price [of 120 "5 / 4" sample_prices 1 False 25 0 "[]" 0 ad_new]
  by (simp add: adx_is_def is_cpc_def sample_prices_def int_limits)

text \<open>A click offered at 2147484 or more overflows: the charge becomes negative.\<close>

lemma click_charge_overflows:
  "bidPrice (fst (calcPrice sample_prices 25 False 0 2147484 (Fin 1) [] CLICK 2 0 ad_new)) = -2147483296"
  by (simp add: calcPrice_def adx_is_def is_cpc_def sample_prices_def wrap32_def)

end
