(* ===== verification/Http.thy ===== *)
theory Http
  imports Std_Map "HOL-Library.List_Lexorder" "HOL-Library.Char_ord"
begin

text \<open>
  Model of utility/http.h and http.cpp, the request and the response the tasks work on.  The headers are a
  \<open>std::map\<close> from strings, which the printing functions walk in key order.
\<close>

section \<open>Assignment\<close>

text \<open>\<open>m[k] = v\<close>\<close>

fun omap_assign :: "'k :: linorder \<Rightarrow> 'v \<Rightarrow> ('k \<times> 'v) list \<Rightarrow> ('k \<times> 'v) list" where
  "omap_assign k v [] = [(k, v)]"
| "omap_assign k v ((k', v') # m) =
     (if k < k' then (k, v) # (k', v') # m else if k = k' then (k, v) # m else (k', v') # omap_assign k v m)"

type_synonym header_map = "(string \<times> string) list"

definition find_header :: "header_map \<Rightarrow> string \<Rightarrow> string" where
  "find_header m k = (case map_of m k of Some v \<Rightarrow> v | None \<Rightarrow> [])"

text \<open>The loop of the two \<open>to_string\<close>.\<close>

definition crlf :: string where
  "crlf = [CHR 0x0D, CHR 0x0A]"

definition print_headers :: "header_map \<Rightarrow> string" where
  "print_headers m = concat (map (\<lambda>(k, v). if k \<noteq> [] \<and> v \<noteq> [] then k @ '':'' @ v @ crlf else []) m)"

section \<open>Requests\<close>

record http_request =
  req_headers :: header_map
  postdata :: string

definition request_new :: http_request where
  "request_new = \<lparr>req_headers = [], postdata = []\<rparr>"

text \<open>\<open>insert\<close> and, if there is an entry, assignment.\<close>

definition request_set :: "string \<Rightarrow> string \<Rightarrow> http_request \<Rightarrow> http_request" where
  "request_set key v r =
     (if map_of (req_headers r) key = None then r\<lparr>req_headers := omap_insert key v (req_headers r)\<rparr>
      else r\<lparr>req_headers := omap_assign key v (req_headers r)\<rparr>)"

definition request_get :: "http_request \<Rightarrow> string \<Rightarrow> string" where
  "request_get r key = find_header (req_headers r) key"

definition isGzip :: "http_request \<Rightarrow> bool" where
  "isGzip r = str_contains (request_get r ''Content-Encoding'') ''gzip''"

definition isResponseNeedGzip :: "http_request \<Rightarrow> bool" where
  "isResponseNeedGzip r = str_contains (request_get r ''Accept-Encoding'') ''gzip''"

definition path_info :: "http_request \<Rightarrow> string" where "path_info r = request_get r ''URI''"
definition request_method :: "http_request \<Rightarrow> string" where "request_method r = request_get r ''Method''"
definition query_string :: "http_request \<Rightarrow> string" where "query_string r = request_get r ''QUERY''"
definition http_cookie :: "http_request \<Rightarrow> string" where "http_cookie r = request_get r ''Cookie''"
definition http_user_agent :: "http_request \<Rightarrow> string" where "http_user_agent r = request_get r ''User-Agent''"
definition remote_addr :: "http_request \<Rightarrow> string" where "remote_addr r = request_get r ''X-Forwarded-For''"
definition http_referer :: "http_request \<Rightarrow> string" where "http_referer r = request_get r ''Referer''"

definition set_post_data :: "string \<Rightarrow> http_request \<Rightarrow> http_request" where
  "set_post_data d r = r\<lparr>postdata := d\<rparr>"

definition request_to_string :: "http_request \<Rightarrow> string" where
  "request_to_string r = print_headers (req_headers r) @ (if length (postdata r) > 0 then crlf @ postdata r else [])"

section \<open>Responses\<close>

record http_response =
  respStatus :: int
  statusMsg :: string
  resp_headers :: header_map
  body :: string
  bodyStream :: string
  needGzipResponse :: bool

text \<open>A new response; the status is not initialised.\<close>

definition response_new :: "int \<Rightarrow> http_response" where
  "response_new st = \<lparr>respStatus = st, statusMsg = [], resp_headers = [], body = [], bodyStream = [], needGzipResponse = False\<rparr>"

definition setResponseGzip :: "bool \<Rightarrow> http_response \<Rightarrow> http_response" where
  "setResponseGzip t r = r\<lparr>needGzipResponse := t\<rparr>"

definition response_set :: "string \<Rightarrow> string \<Rightarrow> http_response \<Rightarrow> http_response" where
  "response_set key v r = r\<lparr>resp_headers := omap_assign key v (resp_headers r)\<rparr>"

definition response_get :: "http_response \<Rightarrow> string \<Rightarrow> string" where
  "response_get r key = find_header (resp_headers r) key"

definition set_status :: "int \<Rightarrow> string \<Rightarrow> http_response \<Rightarrow> http_response" where
  "set_status code msg r = r\<lparr>respStatus := code, statusMsg := msg\<rparr>"

definition set_content_header :: "string \<Rightarrow> http_response \<Rightarrow> http_response" where
  "set_content_header ct r = response_set ''Content-Type'' ct r"

definition content_header :: "http_response \<Rightarrow> string" where
  "content_header r = find_header (resp_headers r) ''Content-Type''"

definition cookies :: "http_response \<Rightarrow> string" where
  "cookies r = find_header (resp_headers r) ''Set-Cookie''"

definition set_body :: "string \<Rightarrow> http_response \<Rightarrow> http_response" where
  "set_body msg r = (if length msg = 0 then r else r\<lparr>body := msg\<rparr>)"

definition append_debug :: "string \<Rightarrow> http_response \<Rightarrow> http_response" where
  "append_debug msg r = r\<lparr>bodyStream := bodyStream r @ msg\<rparr>"

definition get_debug_message :: "http_response \<Rightarrow> string" where
  "get_debug_message r = (if 0 < length (bodyStream r) then bodyStream r else [])"

definition response_to_string :: "http_response \<Rightarrow> string" where
  "response_to_string r =
     ''HTTP/1.1 '' @ to_string (respStatus r) @ '' '' @ statusMsg r @ crlf @ print_headers (resp_headers r) @
     (if length (body r) > 0 then crlf @ body r else [])"

section \<open>The headers as a map\<close>

lemma omap_assign_keys: "set (map fst (omap_assign k v m)) = insert k (set (map fst m))"
  by (induction k v m rule: omap_assign.induct) auto

lemma map_ok_assign: "map_ok m \<Longrightarrow> map_ok (omap_assign k v m)"
proof (induction k v m rule: omap_assign.induct)
  case (2 k v k' v' m)
  consider "k < k'" | "k = k'" | "k' < k" by (rule linorder_cases)
  then show ?case
  proof cases
    case 1
    with 2 show ?thesis by (auto intro: less_trans)
  next
    case 3
    then have "\<forall>x \<in> set (map fst (omap_assign k v m)). k' < x"
      unfolding omap_assign_keys using 2 by auto
    with 2 3 show ?thesis by auto
  qed (use 2 in simp)
qed simp

lemma map_of_assign: "map_ok m \<Longrightarrow> map_of (omap_assign k v m) = (map_of m)(k \<mapsto> v)"
proof (induction k v m rule: omap_assign.induct)
  case (2 k v k' v' m)
  then show ?case by (auto simp: fun_eq_iff)
qed auto

lemma find_header_assign: "map_ok m \<Longrightarrow> find_header (omap_assign k v m) k' = (if k' = k then v else find_header m k')"
  by (simp add: find_header_def map_of_assign)

lemma response_set_get [simp]:
  "map_ok (resp_headers r) \<Longrightarrow> response_get (response_set k v r) k' = (if k' = k then v else response_get r k')"
  "map_ok (resp_headers r) \<Longrightarrow> map_ok (resp_headers (response_set k v r))"
  by (simp_all add: response_get_def response_set_def find_header_assign map_ok_assign)

lemma request_set_ok:
  assumes "map_ok (req_headers r)"
  shows "map_ok (req_headers (request_set k v r))" "map_of (req_headers (request_set k v r)) = (map_of (req_headers r))(k \<mapsto> v)"
  using assms by (auto simp: request_set_def map_ok_insert map_of_insert map_ok_assign map_of_assign fun_eq_iff)

lemma fold_request_set:
  assumes "map_ok (req_headers r)"
  shows "map_ok (req_headers (fold (\<lambda>(k, v). request_set k v) kvs r)) \<and>
    map_of (req_headers (fold (\<lambda>(k, v). request_set k v) kvs r)) = map_of (req_headers r) ++ map_of (rev kvs)"
  using assms
proof (induction kvs arbitrary: r)
  case (Cons kv kvs)
  then show ?case by (cases kv) (simp add: request_set_ok map_add_def fun_eq_iff split: option.split)
qed simp

text \<open>C35: Whatever headers are set on a new request, in whatever order, each is found with the value set last, and the
  printed request has one line for each header with a nonempty name and value, in ascending order of the names.\<close>

theorem request_headers:
  defines "build \<equiv> \<lambda>kvs. fold (\<lambda>(k, v). request_set k v) kvs request_new"
  shows "request_get (build kvs) k = (case map_of (rev kvs) k of Some v \<Rightarrow> v | None \<Rightarrow> []) \<and>
    (\<exists>hs. sorted_wrt (<) (map fst hs) \<and> map_of hs = map_of (rev kvs) \<and>
       request_to_string (build kvs) = concat [k @ '':'' @ v @ crlf. (k, v) \<leftarrow> hs, k \<noteq> [] \<and> v \<noteq> []])"
proof -
  let ?r = "fold (\<lambda>(k, v). request_set k v) kvs request_new"
  have ok: "map_ok (req_headers ?r)" and m: "map_of (req_headers ?r) = map_of (rev kvs)"
    using fold_request_set [of request_new kvs] by (simp_all add: request_new_def)
  have "postdata (fold (\<lambda>(k, v). request_set k v) kvs r) = postdata r" for r
    by (induction kvs arbitrary: r) (auto simp: request_set_def)
  then have "request_to_string ?r = print_headers (req_headers ?r)" by (simp add: request_to_string_def request_new_def)
  moreover have "print_headers hs = concat [k @ '':'' @ v @ crlf. (k, v) \<leftarrow> hs, k \<noteq> [] \<and> v \<noteq> []]" for hs
    by (induction hs) (auto simp: print_headers_def)
  ultimately show ?thesis using ok m
    by (auto simp: build_def request_get_def find_header_def map_ok_def intro!: exI [of _ "req_headers ?r"])
qed

end
