(* ===== verification/Source_Id.thy ===== *)
theory Source_Id
  imports Log_Item Url_Param Floating "HOL-Library.AList"
begin

text \<open>
  Model of core/model/source_id.h and source_id.cpp: the id a click gets and the record of the click that is kept
  under it.  The record of the Aerospike client (a list of at most so many named bins) and the accessors of
  \<open>MT::common::ASEntity\<close> are a parameter; \<open>aerospike_ok\<close> states what their documentation says.
\<close>

section \<open>The names of the parameters\<close>

text \<open>Macros of mtty/constants.h.\<close>

datatype url_key = URL_LANDING_URL | URL_REFERER | URL_ADPLACE_ID | URL_MTTYADPLACE_ID | URL_EXPOSE_ID | URL_SITE_ID
  | URL_ADOWNER_ID | URL_EXEC_ID | URL_CREATIVE_ID | URL_ADX_ID | URL_CLICK_ID | URL_AREA_ID | URL_CLICK_X | URL_CLICK_Y
  | URL_PRICE_TYPE | URL_ORDER_ID | URL_FEE_RATE | URL_BID_PRICE | URL_ADPLACE_BUY_TYPE | URL_FEE_RATE_STRS
  | URL_EXCHANGE_PRICE | URL_DEAL_ID | URL_PRODUCTPACKAGE_ID | URL_DEVICE_IDFA | URL_DEVICE_IMEI | URL_DEVICE_ANDOROIDID
  | URL_DEVICE_MAC | URL_IP | URL_MTTY_UID | URL_IMP_OF | URL_SSP_PID

section \<open>The Aerospike client\<close>

datatype as_val = AsInt int | AsStr string

type_synonym as_bins = "(string \<times> as_val) list"

text \<open>\<open>rec_set n k v bs\<close> sets a bin of a record made for \<open>n\<close> bins.\<close>

record aerospike =
  rec_set :: "nat \<Rightarrow> string \<Rightarrow> as_val \<Rightarrow> as_bins \<Rightarrow> as_bins"
  getStr :: "as_bins \<Rightarrow> string \<Rightarrow> string"
  getInt64 :: "as_bins \<Rightarrow> string \<Rightarrow> int \<Rightarrow> int"

text \<open>A new bin, whose name has at most 14 characters, is added if there is room and refused otherwise; a bin is read with the value it has, a missing one as
  the empty string or the given default.\<close>

definition aerospike_ok :: "aerospike \<Rightarrow> bool" where
  "aerospike_ok A \<longleftrightarrow>
     (\<forall>n k v bs. length k \<le> 14 \<and> k \<notin> fst ` set bs \<longrightarrow> rec_set A n k v bs = (if length bs < n then bs @ [(k, v)] else bs)) \<and>
     (\<forall>bs k s. map_of bs k = Some (AsStr s) \<longrightarrow> getStr A bs k = s) \<and>
     (\<forall>bs k. map_of bs k = None \<longrightarrow> getStr A bs k = []) \<and>
     (\<forall>bs k i d. map_of bs k = Some (AsInt i) \<longrightarrow> getInt64 A bs k d = i) \<and>
     (\<forall>bs k d. map_of bs k = None \<longrightarrow> getInt64 A bs k d = d)"

section \<open>\<open>SourceId\<close>\<close>

text \<open>\<open>setw(12) << setfill('0') << setbase(16)\<close> of an \<open>int64_t\<close>, which prints the bits.\<close>

definition pad_left :: "nat \<Rightarrow> char \<Rightarrow> string \<Rightarrow> string" where
  "pad_left n c s = replicate (n - length s) c @ s"

definition source_id_text :: "int \<Rightarrow> string" where
  "source_id_text val = pad_left 12 CHR ''0'' (nat_to_hex (nat (val mod 2 ^ 64)))"

definition SourceId_record :: "aerospike \<Rightarrow> as_bins \<Rightarrow> string" where
  "SourceId_record A bs =
     (let val = getInt64 A bs ''val'' (-1) in if val \<noteq> -1 then source_id_text val else getStr A bs ''source_id'')"

text \<open>The record the entity itself holds then, which \<open>put\<close> writes.\<close>

definition SourceId_bins :: "aerospike \<Rightarrow> string \<Rightarrow> as_bins" where
  "SourceId_bins A v = rec_set A 1 ''source_id'' (AsStr (cstr v)) []"

section \<open>\<open>SourceRecord\<close>\<close>

record source_record =
  sr_time :: int
  sr_advId :: string
  sr_sid :: string
  sr_adxId :: string
  sr_mtUid :: string
  sr_pid :: string
  sr_adxPid :: string
  sr_requestId :: string
  sr_createId :: string
  sr_geoId :: string
  sr_refererUrl :: string
  sr_bidPrice :: string
  sr_ppId :: string
  sr_oId :: string
  sr_priceType :: string
  sr_mId :: string
  sr_impId :: string

definition SourceRecord_new :: source_record where
  "SourceRecord_new = \<lparr>sr_time = 0, sr_advId = [], sr_sid = [], sr_adxId = [], sr_mtUid = [], sr_pid = [], sr_adxPid = [],
     sr_requestId = [], sr_createId = [], sr_geoId = [], sr_refererUrl = [], sr_bidPrice = [], sr_ppId = [], sr_oId = [],
     sr_priceType = [], sr_mId = [], sr_impId = []\<rparr>"

text \<open>The bins in the order they are set; \<open>p k\<close> is \<open>paramMap[k]\<close>.\<close>

definition source_bins :: "(url_key \<Rightarrow> string) \<Rightarrow> log_item \<Rightarrow> as_bins" where
  "source_bins p l =
     (''latest_time'', AsInt (timeStamp l)) #
     map (\<lambda>(bin, v). (bin, AsStr (cstr v)))
       [(''adv_id'', p URL_ADOWNER_ID),
        (''sid'', p URL_EXEC_ID),
        (''adx_id'', p URL_ADX_ID),
        (''mt_uid'', userId l),
        (''pid'', p URL_MTTYADPLACE_ID),
        (''adxpid'', p URL_ADPLACE_ID),
        (''request_id'', p URL_EXPOSE_ID),
        (''create_id'', p URL_CREATIVE_ID),
        (''geo_id'', p URL_AREA_ID),
        (''referer_url'', p URL_REFERER),
        (''bid_price'', p URL_BID_PRICE),
        (''ppid'', p URL_PRODUCTPACKAGE_ID),
        (''oid'', p URL_ORDER_ID),
        (''pricetype'', p URL_PRICE_TYPE),
        (''mid'', p URL_SITE_ID),
        (''impid'', p URL_EXPOSE_ID)]"

definition SourceRecord :: "aerospike \<Rightarrow> (url_key \<Rightarrow> string) \<Rightarrow> log_item \<Rightarrow> as_bins" where
  "SourceRecord A p l = fold (\<lambda>(k, v) bs. rec_set A 16 k v bs) (source_bins p l) []"

definition SourceRecord_record :: "aerospike \<Rightarrow> as_bins \<Rightarrow> source_record" where
  "SourceRecord_record A bs =
     \<lparr>sr_time = getInt64 A bs ''latest_time'' (-1),
      sr_advId = getStr A bs ''adv_id'',
      sr_sid = getStr A bs ''sid'',
      sr_adxId = getStr A bs ''adx_id'',
      sr_mtUid = getStr A bs ''mt_uid'',
      sr_pid = getStr A bs ''pid'',
      sr_adxPid = getStr A bs ''adxpid'',
      sr_requestId = getStr A bs ''request_id'',
      sr_createId = getStr A bs ''create_id'',
      sr_geoId = getStr A bs ''geo_id'',
      sr_refererUrl = getStr A bs ''referer_url'',
      sr_bidPrice = getStr A bs ''bid_price'',
      sr_ppId = getStr A bs ''ppid'',
      sr_oId = getStr A bs ''oid'',
      sr_priceType = getStr A bs ''pricetype'',
      sr_mId = getStr A bs ''mid'',
      sr_impId = getStr A bs ''impid''\<rparr>"

section \<open>Storing and reading\<close>

lemma rec_set_fold:
  assumes "aerospike_ok A" "distinct (map fst (acc @ bs))" "\<forall>kv \<in> set bs. length (fst kv) \<le> 14" "length acc \<le> n"
  shows "fold (\<lambda>(k, v). rec_set A n k v) bs acc = take n (acc @ bs)"
  using assms(2-4)
proof (induction bs arbitrary: acc)
  case (Cons kv bs)
  obtain k v where kv: "kv = (k, v)" by force
  have new: "rec_set A n k v acc = (if length acc < n then acc @ [(k, v)] else acc)"
    using assms(1) Cons.prems(1,2) by (auto simp: aerospike_ok_def kv image_iff)
  show ?case
  proof (cases "length acc < n")
    case True
    then show ?thesis using Cons.IH [of "acc @ [(k, v)]"] Cons.prems new by (simp add: kv)
  next
    case False
    then show ?thesis using Cons.IH [of acc] Cons.prems new by (simp add: kv)
  qed
qed simp

lemma source_record_stored:
  assumes "aerospike_ok A"
  shows "SourceRecord_record A (SourceRecord A p l) =
      \<lparr>sr_time = timeStamp l,
       sr_advId = cstr (p URL_ADOWNER_ID),
       sr_sid = cstr (p URL_EXEC_ID),
       sr_adxId = cstr (p URL_ADX_ID),
       sr_mtUid = cstr (userId l),
       sr_pid = cstr (p URL_MTTYADPLACE_ID),
       sr_adxPid = cstr (p URL_ADPLACE_ID),
       sr_requestId = cstr (p URL_EXPOSE_ID),
       sr_createId = cstr (p URL_CREATIVE_ID),
       sr_geoId = cstr (p URL_AREA_ID),
       sr_refererUrl = cstr (p URL_REFERER),
       sr_bidPrice = cstr (p URL_BID_PRICE),
       sr_ppId = cstr (p URL_PRODUCTPACKAGE_ID),
       sr_oId = cstr (p URL_ORDER_ID),
       sr_priceType = cstr (p URL_PRICE_TYPE),
       sr_mId = cstr (p URL_SITE_ID),
       sr_impId = []\<rparr>"
proof -
  have "SourceRecord A p l = take 16 (source_bins p l)"
    using rec_set_fold [OF assms, of "[]" "source_bins p l" 16] by (simp add: SourceRecord_def source_bins_def)
  moreover have "map_of bs k = Some (AsStr s) \<Longrightarrow> getStr A bs k = s" "map_of bs k = None \<Longrightarrow> getStr A bs k = []"
    "map_of bs k = Some (AsInt i) \<Longrightarrow> getInt64 A bs k d = i" for bs k s i d
    using assms by (auto simp: aerospike_ok_def)
  ultimately show ?thesis by (simp add: SourceRecord_record_def source_bins_def)
qed

text \<open>C18: what a click writes to its source record is read back, field by field, except the exposure id: the
  record is made for 16 bins and the 17th is refused.\<close>

theorem source_record_round_trip:
  assumes "aerospike_ok A"
  shows "SourceRecord_record A (SourceRecord A p l) =
      \<lparr>sr_time = timeStamp l,
       sr_advId = cstr (p URL_ADOWNER_ID),
       sr_sid = cstr (p URL_EXEC_ID),
       sr_adxId = cstr (p URL_ADX_ID),
       sr_mtUid = cstr (userId l),
       sr_pid = cstr (p URL_MTTYADPLACE_ID),
       sr_adxPid = cstr (p URL_ADPLACE_ID),
       sr_requestId = cstr (p URL_EXPOSE_ID),
       sr_createId = cstr (p URL_CREATIVE_ID),
       sr_geoId = cstr (p URL_AREA_ID),
       sr_refererUrl = cstr (p URL_REFERER),
       sr_bidPrice = cstr (p URL_BID_PRICE),
       sr_ppId = cstr (p URL_PRODUCTPACKAGE_ID),
       sr_oId = cstr (p URL_ORDER_ID),
       sr_priceType = cstr (p URL_PRICE_TYPE),
       sr_mId = cstr (p URL_SITE_ID),
       sr_impId = []\<rparr>"
  by (rule source_record_stored [OF assms])

definition sample_aerospike :: aerospike where
  "sample_aerospike =
     \<lparr>rec_set = \<lambda>n k v bs. if k \<in> fst ` set bs then AList.update k v bs else if length bs < n then bs @ [(k, v)] else bs,
      getStr = \<lambda>bs k. case map_of bs k of Some (AsStr s) \<Rightarrow> s | _ \<Rightarrow> [],
      getInt64 = \<lambda>bs k d. case map_of bs k of Some (AsInt i) \<Rightarrow> i | _ \<Rightarrow> d\<rparr>"

lemma sample_aerospike_ok: "aerospike_ok sample_aerospike"
  by (simp add: aerospike_ok_def sample_aerospike_def)

theorem source_record_round_trip_witness:
  "aerospike_ok sample_aerospike \<and>
   sr_sid (SourceRecord_record sample_aerospike (SourceRecord sample_aerospike (\<lambda>k. if k = URL_EXEC_ID then ''42'' else ''x'') log_new)) = ''42'' \<and>
   sr_impId (SourceRecord_record sample_aerospike (SourceRecord sample_aerospike (\<lambda>k. if k = URL_EXEC_ID then ''42'' else ''x'') log_new)) = []"
  unfolding source_record_round_trip [OF sample_aerospike_ok, of "\<lambda>k. if k = URL_EXEC_ID then ''42'' else ''x''" log_new]
  by (simp add: sample_aerospike_ok cstr_def)

section \<open>Distinct ids\<close>

lemma hex_text_digits: "map hex_digit_val ''0123456789abcdef'' = map Some [0..<16]"
  by (simp add: upt_rec hex_digit_val_def lower_char_def Let_def)

lemma hex_text_digit:
  assumes "d < 16"
  shows "hex_digit_val (''0123456789abcdef'' ! d) = Some d"
proof -
  have "map hex_digit_val ''0123456789abcdef'' ! d = map Some [0..<16] ! d" by (simp only: hex_text_digits)
  then show ?thesis using assms by (simp only: nth_map length_upt nth_upt list.size) simp
qed

lemma digits_in_snoc: "digits_in dv b (ds @ [c]) = digits_in dv b ds * b + int (the (dv c))"
  by (simp add: digits_in_def)

lemma hex_value: "digits_in hex_digit_val 16 (nat_to_hex n) = int n"
proof (induction n rule: nat_to_hex.induct)
  case (1 n)
  show ?case
  proof (cases "n < 16")
    case True
    then show ?thesis using hex_text_digit [of n] by (simp add: nat_to_hex.simps [of n] digits_in_def)
  next
    case False
    have "int (n div 16) * 16 + int (n mod 16) = int n" by (simp add: zdiv_int zmod_int)
    with False show ?thesis using 1 hex_text_digit [of "n mod 16"] by (simp add: nat_to_hex.simps [of n] digits_in_snoc)
  qed
qed

lemma pad_value: "digits_in hex_digit_val 16 (pad_left n CHR ''0'' s) = digits_in hex_digit_val 16 s"
proof -
  have "foldl (\<lambda>a c. a * 16 + int (the (hex_digit_val c))) 0 (replicate k CHR ''0'') = 0" for k
    by (induction k) (simp_all add: hex_digit_val_def lower_char_def)
  then show ?thesis by (simp add: pad_left_def digits_in_def)
qed

text \<open>C33: different values of the counter give different source ids, of at least twelve hexadecimal digits.\<close>

theorem source_ids_distinct:
  assumes "is_int64 a" "is_int64 b" "a \<noteq> b"
  shows "source_id_text a \<noteq> source_id_text b \<and> 12 \<le> length (source_id_text a)"
proof
  have "digits_in hex_digit_val 16 (source_id_text v) = v mod 2 ^ 64" for v
    by (simp add: source_id_text_def pad_value hex_value)
  moreover have "a mod 2 ^ 64 \<noteq> b mod 2 ^ 64"
    using assms by (auto simp: is_int64_def int_limits mod_eq_dvd_iff dest!: dvd_imp_le_int [rotated])
  ultimately show "source_id_text a \<noteq> source_id_text b" by metis
  show "12 \<le> length (source_id_text a)" by (simp add: source_id_text_def pad_left_def)
qed

theorem source_ids_distinct_witness:
  "source_id_text 255 \<noteq> source_id_text 256 \<and> 12 \<le> length (source_id_text 255)"
  by (rule source_ids_distinct) (simp_all add: is_int64_def int_limits)

end
