(* ===== verification/Query_Task.thy ===== *)
theory Query_Task
  imports Pricing Url_Helper Http Source_Id
begin

text \<open>
  Model of core/logic/abstract_query_task.h and abstract_query_task.cpp, the frame every request runs in: the query
  string becomes a parameter map, the parameters fill the log item, the user is recognised or given a new cookie, the
  task's own logic runs, and the log item is serialised and pushed.  The names of the parameters and the other
  constants of mtty/constants.h, \<open>MT::User::UserID\<close>, the clock and the id sequence are parameters; the virtual
  functions are the fields of a record.
\<close>

section \<open>Constants, libraries and virtual functions\<close>

text \<open>What the store and the other services answer during a request; \<open>None\<close> is an exception of the client.\<close>

record replies =
  counter :: "as_bins option"
  put_ok :: bool
  index_ok :: bool
  get_index :: "string \<Rightarrow> as_bins option"
  get_source :: "string \<Rightarrow> as_bins option"
  device_mapping :: "string \<Rightarrow> string \<Rightarrow> string \<times> string"
  httpGet :: "string \<Rightarrow> string"

text \<open>\<open>uid_text s\<close> and \<open>uid_cipher s\<close> are those of \<open>UserID(s, true)\<close>, \<open>uid_new (id, time)\<close> the cipher and
  the text of a new one.\<close>

record query_env =
  kname :: "url_key \<Rightarrow> string"
  prices :: price_env
  URL_LONG_INPUT_PARAMETER :: nat
  COOKIES_MTTY_ID :: string
  COOKIES_MTTY_DOMAIN :: string
  uid_valid :: "string \<Rightarrow> bool"
  uid_cipher :: "string \<Rightarrow> string"
  uid_text :: "string \<Rightarrow> string"
  uid_new :: "int \<times> int \<Rightarrow> string \<times> string"
  lib_avro :: avro
  url_b64 :: "string \<Rightarrow> string option"
  url_table :: binding_table
  aero :: aerospike
  store :: replies

definition param :: "query_env \<Rightarrow> param_map \<Rightarrow> url_key \<Rightarrow> string option" where
  "param E m k = m (kname E k)"

section \<open>From parameters to the log item\<close>

type_synonym parse_step = "query_env \<Rightarrow> param_map \<Rightarrow> log_item \<Rightarrow> log_item result"

definition on_param :: "url_key \<Rightarrow> (string \<Rightarrow> log_item \<Rightarrow> log_item result) \<Rightarrow> parse_step" where
  "on_param k f E m l = (case param E m k of None \<Rightarrow> Inr l | Some v \<Rightarrow> f v l)"

definition on_ad :: "url_key \<Rightarrow> (string \<Rightarrow> ad_info \<Rightarrow> ad_info) \<Rightarrow> parse_step" where
  "on_ad k f = on_param k (\<lambda>v l. Inr (l\<lparr>adInfo := f v (adInfo l)\<rparr>))"

definition on_device :: "url_key \<Rightarrow> string \<Rightarrow> parse_step" where
  "on_device k tag =
     on_param k (\<lambda>v l. Inr (l\<lparr>device := (device l)\<lparr>deviceID := deviceID (device l) @ tag @ '':'' @ v @ '',''\<rparr>\<rparr>))"

text \<open>\<open>char buf[1024]\<close> holds the decoded text; the log item gets it up to the first zero byte.\<close>

definition parse_landing :: parse_step where
  "parse_landing = on_param URL_LANDING_URL (\<lambda>url l.
     bind_result (urlDecode_f 1024 url) (\<lambda>buf. Inr (l\<lparr>adInfo := (adInfo l)\<lparr>landingUrl := cstr buf\<rparr>\<rparr>)))"

text \<open>The referer is decoded too, but the undecoded text is stored.\<close>

definition parse_referer :: parse_step where
  "parse_referer = on_param URL_REFERER (\<lambda>f l. bind_result (urlDecode_f 1024 f) (\<lambda>buf. Inr (l\<lparr>referer := f\<rparr>)))"

definition parse_area :: parse_step where
  "parse_area = on_param URL_AREA_ID (\<lambda>a l.
     bind_result (extractAreaInfo a) (\<lambda>(co, pr, ci).
       Inr (l\<lparr>adInfo := (adInfo l)\<lparr>areaId := a\<rparr>, geoInfo := (geoInfo l)\<lparr>country := co, province := pr, city := ci\<rparr>\<rparr>)))"

definition parse_priceType :: parse_step where
  "parse_priceType E m l =
     Inr (l\<lparr>adInfo := (adInfo l)\<lparr>priceType :=
       case param E m URL_PRICE_TYPE of Some t \<Rightarrow> wrap32 (stringToInt t) | None \<Rightarrow> 0\<rparr>\<rparr>)"

definition parse_feeRate :: "query_env \<Rightarrow> param_map \<Rightarrow> dbl" where
  "parse_feeRate E m =
     (case param E m URL_FEE_RATE of None \<Rightarrow> Fin 1
      | Some s \<Rightarrow> if dbl_le (safe_stod s) (Fin 1) then Fin 1 else safe_stod s)"

definition parse_offer :: "query_env \<Rightarrow> param_map \<Rightarrow> int" where
  "parse_offer E m = (case param E m URL_BID_PRICE of Some s \<Rightarrow> decodeOfferPrice (prices E) s False | None \<Rightarrow> 0)"

definition parse_buyType :: "query_env \<Rightarrow> param_map \<Rightarrow> int" where
  "parse_buyType E m =
     (case param E m URL_ADPLACE_BUY_TYPE of Some s \<Rightarrow> safe_stoi s | None \<Rightarrow> PRICETYPE_RRTB_CPM (prices E))"

definition parse_detail :: "query_env \<Rightarrow> param_map \<Rightarrow> string" where
  "parse_detail E m = (case param E m URL_FEE_RATE_STRS of Some s \<Rightarrow> s | None \<Rightarrow> [])"

text \<open>Whether the request is of a deal, and the winning price, both read only if there is a price.\<close>

definition parse_deal :: "query_env \<Rightarrow> param_map \<Rightarrow> bool" where
  "parse_deal E m \<longleftrightarrow> param E m URL_EXCHANGE_PRICE \<noteq> None \<and> (case param E m URL_DEAL_ID of Some d \<Rightarrow> d \<noteq> [] | None \<Rightarrow> False)"

definition winning_price :: "query_env \<Rightarrow> param_map \<Rightarrow> int \<Rightarrow> int result" where
  "winning_price E m adx =
     (case param E m URL_EXCHANGE_PRICE of Some price \<Rightarrow> decodeAdxExchangePrice (prices E) adx price | None \<Rightarrow> Inr 0)"

text \<open>Unlike the other steps this one can throw after it has written to the log item.\<close>

definition parse_price :: "query_env \<Rightarrow> param_map \<Rightarrow> log_item \<Rightarrow> log_item \<times> cxx_error option" where
  "parse_price E m l =
     (let ad = adInfo l in
      case winning_price E m (adxid ad) of
        Inl e \<Rightarrow> (l, Some e)
      | Inr decodePrice \<Rightarrow>
          (case calcPrice (prices E) (adxid ad) (parse_deal E m) decodePrice (parse_offer E m) (parse_feeRate E m)
              (parse_detail E m) (logType l) (priceType ad) (parse_buyType E m) ad of
             (ad', thrown) \<Rightarrow> (l\<lparr>adInfo := ad'\<rparr>, thrown)))"

definition steps_before_price :: "parse_step list" where
  "steps_before_price =
     [parse_landing, parse_referer,
      on_ad URL_ADPLACE_ID (\<lambda>s ad. ad\<lparr>pid := ''0'', adxpid := s\<rparr>),
      on_ad URL_MTTYADPLACE_ID (\<lambda>s ad. ad\<lparr>pid := s\<rparr>),
      on_ad URL_EXPOSE_ID (\<lambda>s ad. ad\<lparr>imp_id := s\<rparr>),
      on_ad URL_SITE_ID (\<lambda>s ad. ad\<lparr>mid := stringToInt s\<rparr>),
      on_ad URL_ADOWNER_ID (\<lambda>s ad. ad\<lparr>advId := stringToInt s, cpid := stringToInt s\<rparr>),
      on_ad URL_EXEC_ID (\<lambda>s ad. ad\<lparr>sid := stringToInt s\<rparr>),
      on_ad URL_CREATIVE_ID (\<lambda>s ad. ad\<lparr>bannerId := stringToInt s\<rparr>),
      on_ad URL_ADX_ID (\<lambda>s ad. ad\<lparr>adxid := wrap32 (stringToInt s)\<rparr>),
      on_ad URL_CLICK_ID (\<lambda>s ad. ad\<lparr>clickId := s\<rparr>),
      parse_area,
      on_param URL_CLICK_X (\<lambda>s l. Inr (l\<lparr>clickx := wrap32 (stringToInt s)\<rparr>)),
      on_param URL_CLICK_Y (\<lambda>s l. Inr (l\<lparr>clicky := wrap32 (stringToInt s)\<rparr>)),
      parse_priceType,
      on_ad URL_ORDER_ID (\<lambda>s ad. ad\<lparr>orderId := stringToInt s\<rparr>)]"

definition steps_after_price :: "parse_step list" where
  "steps_after_price =
     [on_ad URL_PRODUCTPACKAGE_ID (\<lambda>s ad. ad\<lparr>ppid := wrap32 (stringToInt s)\<rparr>),
      on_device URL_DEVICE_IDFA ''idfa'', on_device URL_DEVICE_IMEI ''imei'',
      on_device URL_DEVICE_ANDOROIDID ''androidid'', on_device URL_DEVICE_MAC ''mac'']"

text \<open>The body of the \<open>try\<close>: an exception leaves the log item as it was made until then.\<close>

fun exec_steps :: "parse_step list \<Rightarrow> query_env \<Rightarrow> param_map \<Rightarrow> log_item \<Rightarrow> log_item \<times> cxx_error option" where
  "exec_steps [] E m l = (l, None)"
| "exec_steps (f # fs) E m l = (case f E m l of Inr l' \<Rightarrow> exec_steps fs E m l' | Inl e \<Rightarrow> (l, Some e))"

definition parse_params :: "query_env \<Rightarrow> param_map \<Rightarrow> log_item \<Rightarrow> log_item \<times> cxx_error option" where
  "parse_params E m l =
     (case exec_steps steps_before_price E m l of
        (l, Some e) \<Rightarrow> (l, Some e)
      | (l, None) \<Rightarrow> (case parse_price E m l of
            (l, Some e) \<Rightarrow> (l, Some e)
          | (l, None) \<Rightarrow> exec_steps steps_after_price E m l))"

definition parseObjectToLogItem :: "query_env \<Rightarrow> param_map \<Rightarrow> log_item \<Rightarrow> log_item result" where
  "parseObjectToLogItem E m l =
     (case parse_params E m l of
        (l', None) \<Rightarrow> Inr l'
      | (l', Some MemoryFault) \<Rightarrow> Inl MemoryFault
      | (l', Some e) \<Rightarrow> Inr (l'\<lparr>reqStatus := 500\<rparr>))"

section \<open>The task\<close>

record query_task =
  userCookies :: string
  q_userAgent :: string
  userIp :: string
  q_data :: string
  q_referer :: string
  isPost :: bool
  needLog :: bool

definition AbstractQueryTask :: "http_request \<Rightarrow> query_task" where
  "AbstractQueryTask request =
     \<lparr>userCookies = http_cookie request, q_userAgent = http_user_agent request, userIp = remote_addr request,
      q_data = (if request_method request = ''POST'' then postdata request else query_string request),
      q_referer = http_referer request, isPost = (request_method request = ''POST''), needLog = True\<rparr>"

text \<open>What a request does to the outside.\<close>

datatype effect = PushLog "byte list" bool | CPMShow int int dbl | CPCShow int | CPMClick int | CPCClick int int dbl
  | IncreaseClick | PutSource string as_bins | PutIndex string as_bins | IncrOrder int
  | IncreaseTraceSuccess | IncreaseTraceFailed | FetchUrl string

text \<open>\<open>customLogic\<close> gives the response as it leaves it, what it did, and the log item with \<open>needLog\<close> or an exception.\<close>

record virtuals =
  currentPhase :: log_phase_type
  v_reqMethod :: int
  expectedReqStatus :: int
  v_filter :: "query_env \<Rightarrow> param_map \<Rightarrow> param_map"
  getPostParam :: "string \<Rightarrow> param_map \<Rightarrow> param_map result"
  customLogic :: "query_env \<Rightarrow> query_task \<Rightarrow> param_map \<Rightarrow> log_item \<Rightarrow> http_response \<Rightarrow>
    http_response \<times> effect list \<times> (log_item \<times> bool) result"
  onError :: "cxx_error \<Rightarrow> http_response \<Rightarrow> http_response"

definition filterParamMapSafe :: "query_env \<Rightarrow> param_map \<Rightarrow> param_map" where
  "filterParamMapSafe E m = (\<lambda>k. map_option (\<lambda>v. stringSafeInput v (URL_LONG_INPUT_PARAMETER E)) (m k))"

definition plantNewCookie :: "query_env \<Rightarrow> string \<Rightarrow> http_response \<Rightarrow> http_response" where
  "plantNewCookie E cookieUid resp =
     response_set ''Set-Cookie'' (COOKIES_MTTY_ID E @ ''='' @ cookieUid @ '';Domain=.'' @ COOKIES_MTTY_DOMAIN E @
       '';Max-Age=2617488000;'') resp"

definition isBussinessLogImportant :: "log_phase_type \<Rightarrow> bool" where
  "isBussinessLogImportant p \<longleftrightarrow> p = CLICK \<or> p = SHOW \<or> p = TRACK"

definition countedUserIp :: "query_env \<Rightarrow> int \<Rightarrow> string \<Rightarrow> param_map \<Rightarrow> string" where
  "countedUserIp E adx ip m =
     (if adx_is (prices E) adx [ADX_TENCENT_GDT, ADX_GDT_MOBILE]
      then case param E m URL_IP of Some v \<Rightarrow> v | None \<Rightarrow> ip else ip)"

text \<open>\<open>idSeq\<close> is what \<open>CookieMappingManager::IdSeq()\<close> gives.\<close>

definition userCookieLogic ::
  "query_env \<Rightarrow> int \<times> int \<Rightarrow> string \<Rightarrow> param_map \<Rightarrow> http_response \<Rightarrow> string \<times> http_response" where
  "userCookieLogic E idSeq jar m resp =
     (let cookieEncUid = extractCookiesParam (COOKIES_MTTY_ID E) jar;
          serverEncUid = (case param E m URL_MTTY_UID of Some u \<Rightarrow> u | None \<Rightarrow> [])
      in if uid_valid E cookieEncUid \<and> uid_valid E serverEncUid then
           (uid_text E serverEncUid,
            if cookieEncUid \<noteq> serverEncUid then plantNewCookie E (uid_cipher E serverEncUid) resp else resp)
         else if \<not> uid_valid E cookieEncUid \<and> uid_valid E serverEncUid then
           (uid_text E serverEncUid, plantNewCookie E (uid_cipher E serverEncUid) resp)
         else if uid_valid E cookieEncUid \<and> \<not> uid_valid E serverEncUid then (uid_text E cookieEncUid, resp)
         else let (cipher, txt) = uid_new E idSeq in (txt, plantNewCookie E cipher resp))"

text \<open>The parameters of a request: an encoded query is replaced by what the helper decodes, which gets the winning
  price of the plain query.  \<open>None\<close> is a run of the helper that does not return.\<close>

definition query_params :: "query_env \<Rightarrow> log_phase_type \<Rightarrow> string \<Rightarrow> param_map result option" where
  "query_params E phase data =
     (let m = getParamv2 Map.empty data CHR ''&''
      in if m ENCODE_HOLDER = None then Some (Inr m)
         else case URLHelper_data (url_b64 E) (url_table E) [] [] [] [] data True of
           None \<Rightarrow> None
         | Some r \<Rightarrow> Some (bind_result r (\<lambda>h.
             let new = paramMap h; price = kname E URL_EXCHANGE_PRICE
             in Inr (if new price = None \<and> phase = SHOW then new(price \<mapsto> map_index m price) else new))))"

definition commonLogic ::
  "query_env \<Rightarrow> virtuals \<Rightarrow> int \<Rightarrow> int \<times> int \<Rightarrow> query_task \<Rightarrow> http_response \<Rightarrow>
   (param_map \<times> log_item \<times> http_response) result option" where
  "commonLogic E V now idSeq q resp =
     (let l = log_new\<lparr>userAgent := q_userAgent q, logType := currentPhase V, reqMethod := v_reqMethod V,
                reqStatus := expectedReqStatus V, timeStamp := now, referer := q_referer q\<rparr>
      in if \<not> isPost q then
           (case query_params E (currentPhase V) (q_data q) of
              None \<Rightarrow> None
            | Some r \<Rightarrow> Some
                (bind_result r (\<lambda>m. let m = v_filter V E m in
                 bind_result (parseObjectToLogItem E m l) (\<lambda>l.
                   let (user, resp) = userCookieLogic E idSeq (userCookies q) m resp;
                       l = l\<lparr>userId := user, ipInfo := (ipInfo l)\<lparr>proxy := countedUserIp E (adxid (adInfo l)) (userIp q) m\<rparr>\<rparr>
                   in Inr (m, l, set_content_header ''text/html'' resp)))))
         else Some (bind_result (getPostParam V (q_data q) Map.empty) (\<lambda>m.
             Inr (m, l\<lparr>ipInfo := (ipInfo l)\<lparr>proxy := userIp q\<rparr>\<rparr>, set_content_header ''text/html'' resp))))"

text \<open>\<open>own\<close>: the task has a logger; \<open>named\<close>: there is a logger of the name it uses.\<close>

definition traffic_record :: "price_env \<Rightarrow> log_item \<Rightarrow> effect list" where
  "traffic_record P l =
     (let ad = adInfo l; t = priceType ad; price = round_double (of_int (bidPrice ad) / 1000)
      in case logType l of
           SHOW \<Rightarrow> if t = PRICETYPE_RRTB_CPM P \<or> t = PRICETYPE_RTB P then [CPMShow (sid ad) (advId ad) price]
                    else if t = PRICETYPE_RCPC P \<or> t = PRICETYPE_RRTB_CPC P then [CPCShow (sid ad)] else []
         | CLICK \<Rightarrow> if t = PRICETYPE_RRTB_CPM P \<or> t = PRICETYPE_RTB P then [CPMClick (sid ad)]
                    else if t = PRICETYPE_RCPC P \<or> t = PRICETYPE_RRTB_CPC P then [CPCClick (sid ad) (advId ad) price] else []
         | _ \<Rightarrow> [])"

definition doLog :: "query_env \<Rightarrow> bool \<Rightarrow> bool \<Rightarrow> log_item \<Rightarrow> effect list" where
  "doLog E own named l =
     (let logString = log_encode (lib_avro E) (\<lambda>_. None) l; isImportant = isBussinessLogImportant (logType l)
      in (if own then [PushLog logString isImportant] else if named then [PushLog logString isImportant] else []) @
         traffic_record (prices E) l)"

definition error_response :: "virtuals \<Rightarrow> cxx_error \<Rightarrow> http_response \<Rightarrow> http_response" where
  "error_response V e resp = onError V e (set_content_header ''text/html'' (set_status 500 ''error'' resp))"

definition run_query ::
  "query_env \<Rightarrow> virtuals \<Rightarrow> bool \<Rightarrow> bool \<Rightarrow> int \<Rightarrow> int \<times> int \<Rightarrow> query_task \<Rightarrow> http_response \<Rightarrow>
   (http_response \<times> effect list) result option" where
  "run_query E V own named now idSeq q resp =
     (let resp = set_status (expectedReqStatus V) [] resp
      in case commonLogic E V now idSeq q resp of
           None \<Rightarrow> None
         | Some (Inl MemoryFault) \<Rightarrow> Some (Inl MemoryFault)
         | Some (Inl e) \<Rightarrow> Some (Inr (error_response V e resp, []))
         | Some (Inr (m, l, resp)) \<Rightarrow>
             (case customLogic V E q m l resp of
                (resp, es, Inl MemoryFault) \<Rightarrow> Some (Inl MemoryFault)
              | (resp, es, Inl e) \<Rightarrow> Some (Inr (error_response V e resp, es))
              | (resp, es, Inr (l, need)) \<Rightarrow> Some (Inr (resp, es @ (if need then doLog E own named l else [])))))"

section \<open>Faults and exceptions of the steps\<close>

text \<open>A step is quiet if it throws nothing, and it keeps a property of the log item.\<close>

definition quiet :: "parse_step \<Rightarrow> bool" where
  "quiet f \<longleftrightarrow> (\<forall>E m l e. f E m l = Inl e \<longrightarrow> e = MemoryFault)"

definition step_keeps :: "(log_item \<Rightarrow> bool) \<Rightarrow> parse_step \<Rightarrow> bool" where
  "step_keeps P f \<longleftrightarrow> (\<forall>E m l l'. P l \<longrightarrow> f E m l = Inr l' \<longrightarrow> P l')"

lemma exec_steps_append:
  "exec_steps (fs @ gs) E m l = (case exec_steps fs E m l of (l', None) \<Rightarrow> exec_steps gs E m l' | (l', Some e) \<Rightarrow> (l', Some e))"
  by (induction fs arbitrary: l) (auto split: sum.split)

lemma exec_steps_keeps: "list_all (step_keeps P) fs \<Longrightarrow> P l \<Longrightarrow> P (fst (exec_steps fs E m l))"
  by (induction fs arbitrary: l) (auto simp: step_keeps_def split: sum.split)

lemma exec_steps_quiet:
  "list_all quiet fs \<Longrightarrow> snd (exec_steps fs E m l) = None \<or> snd (exec_steps fs E m l) = Some MemoryFault"
  by (induction fs arbitrary: l) (auto simp: quiet_def split: sum.split)

lemma urlDecode_f_pair_error: "urlDecode_f_pair a b = Inl e \<Longrightarrow> e = MemoryFault"
  by (auto simp: bind_result_eq_Inl urlDecode_f_pair_def table_index_def split: if_splits)

lemma urlDecode_f_loop_error: "urlDecode_f_loop s = Inl e \<Longrightarrow> e = MemoryFault"
proof (induction s rule: length_induct)
  case (1 s)
  note IH = 1(1) [rule_format]
  show ?case
  proof (cases s rule: urlDecode_f_loop.cases)
    case 1
    then show ?thesis using "1.prems" by simp
  next
    case (2 c cs)
    have cs: "urlDecode_f_loop cs = Inl e \<Longrightarrow> ?thesis" using IH [of cs] 2 by simp
    have r: "cs = c1 # c2 # r \<Longrightarrow> urlDecode_f_loop r = Inl e \<Longrightarrow> ?thesis" for c1 c2 r using IH [of r] 2 by simp
    show ?thesis
    proof (cases "c = CHR ''%''")
      case True
      with "1.prems" 2 show ?thesis
        by (cases cs rule: remdups_adj.cases) (auto simp: bind_result_eq_Inl dest: urlDecode_f_pair_error r)
    next
      case False
      with "1.prems" 2 cs show ?thesis by (auto simp: bind_result_eq_Inl)
    qed
  qed
qed

lemma urlDecode_f_error: "urlDecode_f cap s = Inl e \<Longrightarrow> e = MemoryFault"
  by (auto simp: urlDecode_f_def dest: urlDecode_f_loop_error split: if_splits)

lemma extractAreaInfo_error: "extractAreaInfo a = Inl e \<Longrightarrow> e = MemoryFault"
  by (auto simp: extractAreaInfo_def Let_def split: option.splits)

lemma quiet_intros:
  "quiet (on_ad k f)" "quiet (on_device k tag)" "quiet parse_landing" "quiet parse_referer" "quiet parse_area"
  "quiet parse_priceType" "quiet (on_param k (\<lambda>s l. Inr (g s l)))"
  by (auto simp: quiet_def on_ad_def on_device_def parse_landing_def parse_referer_def parse_area_def parse_priceType_def
      on_param_def bind_result_eq_Inl dest: urlDecode_f_error extractAreaInfo_error split: option.splits)

lemma steps_quiet: "list_all quiet steps_before_price" "list_all quiet steps_after_price"
  by (simp_all add: steps_before_price_def steps_after_price_def quiet_intros)

lemma keeps_on_param:
  "(\<And>v l l'. P l \<Longrightarrow> g v l = Inr l' \<Longrightarrow> P l') \<Longrightarrow> step_keeps P (on_param k g)"
  unfolding step_keeps_def on_param_def by (auto split: option.splits)

lemma keeps_on_param_Inr: "(\<And>v l. P l \<Longrightarrow> P (g v l)) \<Longrightarrow> step_keeps P (on_param k (\<lambda>v l. Inr (g v l)))"
  by (rule keeps_on_param) blast

lemma keeps_on_ad: "(\<And>v l. P l \<Longrightarrow> P (l\<lparr>adInfo := f v (adInfo l)\<rparr>)) \<Longrightarrow> step_keeps P (on_ad k f)"
  unfolding on_ad_def by (rule keeps_on_param_Inr)

lemma keeps_on_device:
  "(\<And>v l. P l \<Longrightarrow> P (l\<lparr>device := (device l)\<lparr>deviceID := v\<rparr>\<rparr>)) \<Longrightarrow> step_keeps P (on_device k tag)"
  unfolding on_device_def by (rule keeps_on_param_Inr)

lemma keeps_landing:
  "(\<And>v l. P l \<Longrightarrow> P (l\<lparr>adInfo := (adInfo l)\<lparr>landingUrl := v\<rparr>\<rparr>)) \<Longrightarrow> step_keeps P parse_landing"
  unfolding parse_landing_def by (rule keeps_on_param) (unfold bind_result_eq_Inr, blast)

lemma keeps_referer: "(\<And>v l. P l \<Longrightarrow> P (l\<lparr>referer := v\<rparr>)) \<Longrightarrow> step_keeps P parse_referer"
  unfolding parse_referer_def by (rule keeps_on_param) (unfold bind_result_eq_Inr, blast)

lemma keeps_priceType:
  "(\<And>v l. P l \<Longrightarrow> is_int32 v \<Longrightarrow> P (l\<lparr>adInfo := (adInfo l)\<lparr>priceType := v\<rparr>\<rparr>)) \<Longrightarrow> step_keeps P parse_priceType"
  unfolding step_keeps_def parse_priceType_def by (simp add: int_range split: option.split)

lemma keeps_area:
  "(\<And>a co pr ci l. P l \<Longrightarrow> extractAreaInfo a = Inr (co, pr, ci) \<Longrightarrow>
      P (l\<lparr>adInfo := (adInfo l)\<lparr>areaId := a\<rparr>, geoInfo := (geoInfo l)\<lparr>country := co, province := pr, city := ci\<rparr>\<rparr>)) \<Longrightarrow>
    step_keeps P parse_area"
  unfolding parse_area_def by (rule keeps_on_param) (unfold bind_result_eq_Inr case_prod_beta, force)

lemmas keeps_intros = keeps_on_ad keeps_on_device keeps_landing keeps_referer keeps_priceType keeps_area keeps_on_param_Inr

lemma steps_keep_status:
  "list_all (step_keeps (\<lambda>l. reqStatus l = s \<and> logType l = t)) steps_before_price"
  "list_all (step_keeps (\<lambda>l. reqStatus l = s \<and> logType l = t)) steps_after_price"
  unfolding steps_before_price_def steps_after_price_def list.pred_inject
  by (intro conjI TrueI keeps_intros; simp)+

lemma hmac_throws:
  "hmac_price_decode h bio k1 k2 s = Inl e \<Longrightarrow> e = MemoryFault \<or> bio (map from_web_safe (add_padding s)) = None"
  "bio (map from_web_safe (add_padding s)) = None \<Longrightarrow> hmac_price_decode h bio k1 k2 s = Inl (MtError ''length_error'')"
  by (auto simp: hmac_price_decode_def web_safe_base64_decode_def base64_decode_def decrypt_int64_def read_mem_def
      web_safe_loops bind_result_eq_Inl Let_def split: option.splits if_splits)

lemma decode_errors:
  "tanx_price_decode md5 bio s = Inl e \<Longrightarrow> e = MemoryFault" "caught r = Inl e \<Longrightarrow> e = MemoryFault"
  "sohu_price_decode after s = Inl e \<Longrightarrow> e = MemoryFault"
  "max360_price_decode evp b64 s = Inl e \<Longrightarrow> e = MemoryFault" "kupai_price_decode evp b64 s = Inl e \<Longrightarrow> e = MemoryFault"
proof -
  have n: "noescape t a b = Inl e \<Longrightarrow> e = MemoryFault" for t a b by (auto simp: noescape_def Let_def split: if_splits)
  have "tanx_text s = Inl e \<Longrightarrow> e = MemoryFault"
    unfolding tanx_text_def bind_result_eq_Inl by (blast dest: urlDecode_f_error n)
  then show "tanx_price_decode md5 bio s = Inl e \<Longrightarrow> e = MemoryFault"
    by (auto simp: tanx_price_decode_def bind_result_eq_Inl Let_def split: option.splits if_splits)
  show "caught r = Inl e \<Longrightarrow> e = MemoryFault" by (auto simp: caught_def split: sum.splits cxx_error.splits)
  show "sohu_price_decode after s = Inl e \<Longrightarrow> e = MemoryFault" "max360_price_decode evp b64 s = Inl e \<Longrightarrow> e = MemoryFault"
    "kupai_price_decode evp b64 s = Inl e \<Longrightarrow> e = MemoryFault"
    unfolding sohu_price_decode_def max360_price_decode_def kupai_price_decode_def
    by (auto split: sum.splits cxx_error.splits)
qed

lemma to_int_error: "to_int r = Inl e \<longleftrightarrow> r = Inl e"
  by (auto simp: to_int_def split: sum.split)

text \<open>The case labels of the \<open>switch\<close> are distinct.\<close>

definition adx_ok :: "price_env \<Rightarrow> bool" where
  "adx_ok P \<longleftrightarrow> inj (adx_id P)"

text \<open>A winning price that is refused with an exception: not a number where the exchange sends a plain one, not
  base64 where it sends a signed one.\<close>

definition price_throws :: "price_env \<Rightarrow> int \<Rightarrow> string \<Rightarrow> bool" where
  "price_throws P adx s \<longleftrightarrow> s \<noteq> [] \<and>
     (adx_is P adx [ADX_NETEASE_MOBILE, ADX_YIDIAN] \<and> stoi s \<in> range Inl \<or>
      (adx_is P adx [ADX_BAIDU, ADX_BAIDU_MOBILE] \<or> adx_is P adx [ADX_GUANGYIN, ADX_GUANGYIN_MOBILE]) \<and>
        lib_bio P (map from_web_safe (add_padding s)) = None)"

lemma stoi_error: "stoi s = Inl e \<Longrightarrow> e \<noteq> MemoryFault"
  by (auto simp: stoi_def split: option.splits if_splits)

lemma decode_throws:
  assumes "decodeAdxExchangePrice P adx s = Inl e" "e \<noteq> MemoryFault"
  shows "price_throws P adx s"
  using assms unfolding decodeAdxExchangePrice_def price_throws_def youku_price_decode_def baidu_price_decode_def
    guangyin_price_decode_def gdt_price_decode_def nex_price_decode_def
  by (auto simp: to_int_error bind_result_eq_Inl dest: decode_errors hmac_throws(1) split: if_splits)

lemma throws_decode:
  assumes "adx_ok P" "price_throws P adx s"
  shows "\<exists>e. decodeAdxExchangePrice P adx s = Inl e \<and> e \<noteq> MemoryFault"
  using assms unfolding adx_ok_def price_throws_def
  by (auto simp: decodeAdxExchangePrice_def adx_is_def inj_eq baidu_price_decode_def guangyin_price_decode_def hmac_throws(2)
      to_int_error dest: stoi_error)

section \<open>What the parsing does\<close>

definition adx_of :: "query_env \<Rightarrow> param_map \<Rightarrow> log_item \<Rightarrow> int" where
  "adx_of E m l = (case param E m URL_ADX_ID of Some x \<Rightarrow> wrap32 (stringToInt x) | None \<Rightarrow> adxid (adInfo l))"

lemma steps_split:
  "steps_before_price = take 9 steps_before_price @
     on_ad URL_ADX_ID (\<lambda>s ad. ad\<lparr>adxid := wrap32 (stringToInt s)\<rparr>) # drop 10 steps_before_price"
  by (simp add: steps_before_price_def)

lemma steps_keep_adxid:
  "list_all (step_keeps (\<lambda>l. adxid (adInfo l) = x)) (take 9 steps_before_price)"
  "list_all (step_keeps (\<lambda>l. adxid (adInfo l) = x)) (drop 10 steps_before_price)"
  by (simp_all add: steps_before_price_def) (intro conjI keeps_intros; simp)+

lemma adxid_before_price:
  assumes "exec_steps steps_before_price E m l = (l', None)"
  shows "adxid (adInfo l') = adx_of E m l"
proof -
  let ?f = "on_ad URL_ADX_ID (\<lambda>s ad. ad\<lparr>adxid := wrap32 (stringToInt s)\<rparr>)"
  obtain l1 where l1: "exec_steps (take 9 steps_before_price) E m l = (l1, None)"
    and rest: "exec_steps (?f # drop 10 steps_before_price) E m l1 = (l', None)"
    using assms by (subst (asm) steps_split) (auto simp: exec_steps_append split: prod.splits option.splits)
  have "adxid (adInfo l1) = adxid (adInfo l)"
    using exec_steps_keeps [OF steps_keep_adxid(1) refl, where l = l and E = E and m = m] l1 by simp
  moreover obtain l2 where l2: "?f E m l1 = Inr l2" "exec_steps (drop 10 steps_before_price) E m l2 = (l', None)"
    using rest by (auto split: sum.splits)
  moreover have "adxid (adInfo l') = adxid (adInfo l2)"
    using exec_steps_keeps [OF steps_keep_adxid(2) refl, where l = l2 and E = E and m = m] l2(2) by simp
  ultimately show ?thesis by (auto simp: on_ad_def on_param_def adx_of_def split: option.splits)
qed

definition price_type_of :: "query_env \<Rightarrow> param_map \<Rightarrow> int" where
  "price_type_of E m = (case param E m URL_PRICE_TYPE of Some t \<Rightarrow> wrap32 (stringToInt t) | None \<Rightarrow> 0)"

lemma priceType_before_price:
  assumes "exec_steps steps_before_price E m l = (l', None)"
  shows "priceType (adInfo l') = price_type_of E m"
proof -
  have split: "steps_before_price = take 14 steps_before_price @ parse_priceType # drop 15 steps_before_price"
    by (simp add: steps_before_price_def)
  obtain l1 where "exec_steps (parse_priceType # drop 15 steps_before_price) E m l1 = (l', None)"
    using assms by (subst (asm) split) (auto simp: exec_steps_append split: prod.splits option.splits)
  then obtain l2 where l2: "parse_priceType E m l1 = Inr l2" "exec_steps (drop 15 steps_before_price) E m l2 = (l', None)"
    by (auto split: sum.splits)
  have "list_all (step_keeps (\<lambda>k. priceType (adInfo k) = priceType (adInfo l2))) (drop 15 steps_before_price)"
    by (simp add: steps_before_price_def) (intro conjI keeps_intros; simp)
  from exec_steps_keeps [OF this refl, of E m] l2 show ?thesis by (auto simp: parse_priceType_def price_type_of_def split: option.splits)
qed

lemma status_after_price:
  "(snd (exec_steps steps_after_price E m l) = None \<or> snd (exec_steps steps_after_price E m l) = Some MemoryFault) \<and>
   reqStatus (fst (exec_steps steps_after_price E m l)) = reqStatus l"
  using exec_steps_quiet [OF steps_quiet(2)]
    exec_steps_keeps [OF steps_keep_status(2) conjI [OF refl refl], where l = l and E = E and m = m] by simp

lemma price_keeps_status [simp]:
  "reqStatus (fst (parse_price E m l)) = reqStatus l" "logType (fst (parse_price E m l)) = logType l"
  by (simp_all add: parse_price_def Let_def split: sum.split prod.split)

text \<open>Whether the fees of the request are split and that fails.\<close>

definition fees_throw :: "query_env \<Rightarrow> param_map \<Rightarrow> int \<Rightarrow> log_phase_type \<Rightarrow> bool" where
  "fees_throw E m adx phase \<longleftrightarrow> parse_detail E m \<noteq> [] \<and>
     (\<exists>p b e. winning_price E m adx = Inr p \<and>
        fee_base (prices E) adx (parse_deal E m) p (parse_offer E m) (parse_feeRate E m) phase (price_type_of E m) = Some b \<and>
        costdetailVec (prices E) (parse_detail E m) b = Inl e)"

lemma parse_price_error:
  assumes "adxid (adInfo l) = adx" "logType l = phase" "priceType (adInfo l) = price_type_of E m"
  shows "(snd (parse_price E m l) \<noteq> None) =
    ((\<exists>e. winning_price E m adx = Inl e) \<or> fees_throw E m adx phase)"
proof (cases "winning_price E m adx")
  case (Inl e)
  then show ?thesis using assms by (simp add: parse_price_def)
next
  case (Inr p)
  have "snd (parse_price E m l) = snd (calcPrice (prices E) adx (parse_deal E m) p (parse_offer E m) (parse_feeRate E m)
      (parse_detail E m) phase (price_type_of E m) (parse_buyType E m) (adInfo l))"
    using assms Inr by (simp add: parse_price_def Let_def case_prod_beta)
  then show ?thesis using Inr by (auto simp: calcPrice_throws fees_throw_def split: option.splits sum.splits)
qed

lemma winning_price_throws:
  assumes "adx_ok (prices E)"
  shows "(\<exists>e. winning_price E m adx = Inl e \<and> e \<noteq> MemoryFault) =
    (\<exists>s. param E m URL_EXCHANGE_PRICE = Some s \<and> price_throws (prices E) adx s)"
  using decode_throws throws_decode [OF assms] by (fastforce simp: winning_price_def split: option.splits)

text \<open>C14: unless memory is violated, parsing the parameters sets the status 500 exactly if there is a winning price
  that the exchange's decoder refuses with an exception, or the fees have to be split and \<open>costdetailVec\<close> throws.\<close>

theorem parse_status:
  assumes "adx_ok (prices E)" "parseObjectToLogItem E m l = Inr l'" "reqStatus l \<noteq> 500"
  shows "(reqStatus l' = 500) =
    ((\<exists>s. param E m URL_EXCHANGE_PRICE = Some s \<and> price_throws (prices E) (adx_of E m l) s) \<or>
     fees_throw E m (adx_of E m l) (logType l))"
proof -
  obtain l1 r1 where e1: "exec_steps steps_before_price E m l = (l1, r1)" by force
  have "r1 = None \<or> r1 = Some MemoryFault" using exec_steps_quiet [OF steps_quiet(1), of E m l] e1 by simp
  then have r1: "r1 = None" using assms(2) by (auto simp: parseObjectToLogItem_def parse_params_def e1)
  have st1: "reqStatus l1 = reqStatus l" "logType l1 = logType l"
    using exec_steps_keeps [OF steps_keep_status(1) conjI [OF refl refl], where l = l and E = E and m = m] e1 by simp_all
  have thrown: "(snd (parse_price E m l1) \<noteq> None) =
      ((\<exists>e. winning_price E m (adx_of E m l) = Inl e) \<or> fees_throw E m (adx_of E m l) (logType l))"
    using e1 r1 st1(2) adxid_before_price priceType_before_price by (intro parse_price_error) simp_all
  obtain l2 r2 where e2: "parse_price E m l1 = (l2, r2)" by force
  have st2: "reqStatus l2 = reqStatus l"
    using price_keeps_status(1) [of E m l1] st1 e2 by simp
  have nofault: "r2 \<noteq> Some MemoryFault" using assms(2) e1 r1 e2 by (auto simp: parseObjectToLogItem_def parse_params_def)
  have "winning_price E m (adx_of E m l) \<noteq> Inl MemoryFault"
    using nofault e2 e1 r1 adxid_before_price [of E m l l1] by (auto simp: parse_price_def)
  then have "(\<exists>e. winning_price E m (adx_of E m l) = Inl e) =
      (\<exists>s. param E m URL_EXCHANGE_PRICE = Some s \<and> price_throws (prices E) (adx_of E m l) s)"
    unfolding winning_price_throws [OF assms(1), symmetric] by metis
  moreover have "(reqStatus l' = 500) = (r2 \<noteq> None)"
    using assms(2,3) e1 r1 e2 nofault st2 status_after_price [of E m l2]
    by (auto simp: parseObjectToLogItem_def parse_params_def split: option.splits cxx_error.splits prod.splits)
  ultimately show ?thesis using thrown e2 by simp
qed

section \<open>Ranges of the log item\<close>

lemma stringToInt_int64 [int_range]: "is_int64 (stringToInt s)"
  by (auto simp: stringToInt_def stol_def is_int64_def int_limits split: option.split sum.split)

lemma extractAreaInfo_range:
  "extractAreaInfo a = Inr (co, pr, ci) \<Longrightarrow> is_int32 co \<and> is_int32 pr \<and> is_int32 ci"
  by (auto simp: extractAreaInfo_def Let_def atoi_def int_range split: option.splits)

lemma steps_keep_valid:
  "list_all (step_keeps log_valid) steps_before_price" "list_all (step_keeps log_valid) steps_after_price"
  unfolding steps_before_price_def steps_after_price_def list.pred_inject
  by (intro conjI TrueI keeps_intros;
      simp add: log_valid_def ad_valid_def device_valid_def geo_valid_def int_range extractAreaInfo_range)+

lemma price_keeps_valid:
  assumes "log_valid l"
  shows "log_valid (fst (parse_price E m l))"
proof -
  have "is_int32 p" if "winning_price E m adx = Inr p" for p adx
    using that decodeAdxExchangePrice_range by (auto simp: winning_price_def int_range split: option.splits)
  moreover have "is_int32 (parse_offer E m)" by (simp add: parse_offer_def int_range split: option.split)
  ultimately show ?thesis
    using assms calcPrice_valid [of "adInfo l"]
    by (simp add: parse_price_def Let_def case_prod_beta log_valid_def split: sum.split)
qed

lemma parse_params_keeps:
  assumes "list_all (step_keeps P) steps_before_price" "list_all (step_keeps P) steps_after_price"
    "\<And>l. P l \<Longrightarrow> P (fst (parse_price E m l))" "P l"
  shows "P (fst (parse_params E m l))"
proof -
  obtain l1 r1 where e1: "exec_steps steps_before_price E m l = (l1, r1)" by force
  obtain l2 r2 where e2: "parse_price E m l1 = (l2, r2)" by force
  have "P l1" using exec_steps_keeps [OF assms(1,4)] e1 by (metis fst_conv)
  then have "P l2" using assms(3) [of l1] e2 by simp
  then have "P (fst (exec_steps steps_after_price E m l2))" by (rule exec_steps_keeps [OF assms(2)])
  with \<open>P l1\<close> \<open>P l2\<close> show ?thesis by (simp add: parse_params_def e1 e2 split: option.split)
qed

lemma parse_valid:
  assumes "log_valid l" "parseObjectToLogItem E m l = Inr l'"
  shows "log_valid l' \<and> logType l' = logType l"
proof -
  have "log_valid (fst (parse_params E m l))"
    by (rule parse_params_keeps [where P = log_valid]) (simp_all add: steps_keep_valid price_keeps_valid assms(1))
  moreover have "logType (fst (parse_params E m l)) = logType l"
    by (rule parse_params_keeps [where P = "\<lambda>k. reqStatus k = reqStatus l \<and> logType k = logType l", THEN conjunct2])
      (simp_all add: steps_keep_status)
  moreover have "l' = fst (parse_params E m l) \<or> l' = (fst (parse_params E m l))\<lparr>reqStatus := 500\<rparr>"
    using assms(2) by (auto simp: parseObjectToLogItem_def split: prod.splits option.splits cxx_error.splits)
  moreover have "log_valid k \<Longrightarrow> log_valid (k\<lparr>reqStatus := 500\<rparr>)" for k by (simp add: log_valid_def is_int32_def int_limits)
  ultimately show ?thesis by auto
qed


lemma common_valid:
  assumes "is_int64 now" "is_int32 (v_reqMethod V)" "is_int32 (expectedReqStatus V)"
    "commonLogic E V now idSeq q resp = Some (Inr (m, l, resp'))"
  shows "log_valid l \<and> logType l = currentPhase V"
proof -
  let ?l = "log_new\<lparr>userAgent := q_userAgent q, logType := currentPhase V, reqMethod := v_reqMethod V,
     reqStatus := expectedReqStatus V, timeStamp := now, referer := q_referer q\<rparr>"
  have new: "log_valid ?l" using new_valid(7) assms(1-3) by (simp add: log_valid_def)
  have ip: "log_valid (k\<lparr>userId := u, ipInfo := (ipInfo k)\<lparr>proxy := p\<rparr>\<rparr>)" "log_valid (k\<lparr>ipInfo := (ipInfo k)\<lparr>proxy := p\<rparr>\<rparr>)"
    if "log_valid k" for k u p using that by (simp_all add: log_valid_def ip_valid_def)
  show ?thesis
  proof (cases "isPost q")
    case True
    then have "l = ?l\<lparr>ipInfo := (ipInfo ?l)\<lparr>proxy := userIp q\<rparr>\<rparr>"
      using assms(4) by (simp add: commonLogic_def Let_def bind_result_eq_Inr)
    then show ?thesis using ip(2) [OF new] by simp
  next
    case False
    then obtain m' k where k: "parseObjectToLogItem E m' ?l = Inr k"
      and l: "\<exists>u p. l = k\<lparr>userId := u, ipInfo := (ipInfo k)\<lparr>proxy := p\<rparr>\<rparr>"
      using assms(4) by (force simp: commonLogic_def Let_def bind_result_eq_Inr case_prod_beta split: option.splits)
    from parse_valid [OF new k] l ip(1) show ?thesis by auto
  qed
qed

section \<open>A request returns\<close>

text \<open>The only loop of the frame that could run forever is the repair of an encoded query.\<close>

lemma URLHelper_data_returns: "URLHelper_data b64 tbl p h po pa data enc \<noteq> None"
  unfolding URLHelper_data_def processParamDataWithRetry_def url_replace_all_def
  using replace_single_loop [of "CHR ''-''" "''%''" "[]" 0 data] by (auto split: sum.split bool.split)

lemma run_query_returns: "run_query E V own named now idSeq q resp \<noteq> None"
proof -
  have par: "query_params E p d \<noteq> None" for p d
    by (simp add: query_params_def Let_def URLHelper_data_returns split: option.split)
  have com: "commonLogic E V now idSeq q r \<noteq> None" for r
    by (simp add: commonLogic_def Let_def par split: option.split)
  show ?thesis
    by (simp add: run_query_def Let_def com split: option.split sum.split prod.split cxx_error.split)
qed

text \<open>How a request can be answered.\<close>

lemma run_query_cases:
  assumes "run_query E V own named now idSeq q resp = Some (Inr (resp', es))"
  obtains
    (common) e where "commonLogic E V now idSeq q (set_status (expectedReqStatus V) [] resp) = Some (Inl e)" "e \<noteq> MemoryFault"
      "resp' = error_response V e (set_status (expectedReqStatus V) [] resp)" "es = []"
  | (custom) m l r1 r2 e where
      "commonLogic E V now idSeq q (set_status (expectedReqStatus V) [] resp) = Some (Inr (m, l, r1))"
      "customLogic V E q m l r1 = (r2, es, Inl e)" "e \<noteq> MemoryFault" "resp' = error_response V e r2"
  | (finished) m l r1 es2 k need where
      "commonLogic E V now idSeq q (set_status (expectedReqStatus V) [] resp) = Some (Inr (m, l, r1))"
      "customLogic V E q m l r1 = (resp', es2, Inr (k, need))" "es = es2 @ (if need then doLog E own named k else [])"
proof -
  let ?c = "commonLogic E V now idSeq q (set_status (expectedReqStatus V) [] resp)"
  note run = assms [unfolded run_query_def Let_def]
  obtain c where c: "?c = Some c" using run by (cases ?c) auto
  show ?thesis
  proof (cases c)
    case (Inl e)
    with run c show ?thesis by (intro common [of e]) (auto split: cxx_error.splits)
  next
    case (Inr mlr)
    obtain m l r1 where mlr: "mlr = (m, l, r1)" by (metis prod_cases3)
    obtain r2 es2 c2 where cu: "customLogic V E q m l r1 = (r2, es2, c2)" by (metis prod_cases3)
    show ?thesis
    proof (cases c2)
      case e: (Inl e)
      with run c Inr mlr cu show ?thesis by (intro custom [of m l r1 r2 e]) (auto split: cxx_error.splits)
    next
      case kn: (Inr kn)
      obtain k need where "kn = (k, need)" by force
      with run c Inr mlr cu kn show ?thesis by (intro finished [of m l r1 es2 k need]) auto
    qed
  qed
qed

section \<open>The contract of a task's own logic\<close>

definition pushes :: "effect list \<Rightarrow> (byte list \<times> bool) list" where
  "pushes es = List.map_filter (\<lambda>e. case e of PushLog b i \<Rightarrow> Some (b, i) | _ \<Rightarrow> None) es"

lemma pushes_simps [simp]:
  "pushes [] = []" "pushes (PushLog b i # es) = (b, i) # pushes es" "pushes (es @ es') = pushes es @ pushes es'"
  "pushes (CPMShow x y d # es) = pushes es" "pushes (CPCShow x # es) = pushes es" "pushes (CPMClick x # es) = pushes es"
  "pushes (CPCClick x y d # es) = pushes es" "pushes (IncreaseClick # es) = pushes es" "pushes (PutSource s b' # es) = pushes es"
  "pushes (PutIndex s b' # es) = pushes es" "pushes (IncrOrder x # es) = pushes es"
  "pushes (IncreaseTraceSuccess # es) = pushes es" "pushes (IncreaseTraceFailed # es) = pushes es"
  "pushes (FetchUrl s # es) = pushes es"
  by (simp_all add: pushes_def map_filter_def)

lemma pushes_traffic [simp]: "pushes (traffic_record P l) = []"
  by (simp add: traffic_record_def Let_def split: log_phase_type.split)

text \<open>The own logic of a task keeps the ranges and the phase of the log item, pushes nothing itself, and reports an
  error without touching the response.\<close>

locale task_logic =
  fixes V :: virtuals
  assumes numbers: "is_int32 (v_reqMethod V)" "is_int32 (expectedReqStatus V)"
    and custom_keeps: "log_valid l \<Longrightarrow> customLogic V E q m l resp = (resp', es, Inr (l', need)) \<Longrightarrow>
      log_valid l' \<and> logType l' = logType l"
    and custom_silent: "customLogic V E q m l resp = (resp', es, r) \<Longrightarrow> pushes es = []"
    and error_only_logged: "onError V e resp = resp"
begin

lemma run_logged:
  assumes "avro_ok (lib_avro E)" "is_int64 now" "run_query E V own named now idSeq q resp = Some (Inr (resp', es))"
  shows "pushes es = [] \<or>
    (\<exists>l. logType l = currentPhase V \<and> log_valid l \<and>
       pushes es = [(log_encode (lib_avro E) (\<lambda>_. None) l, isBussinessLogImportant (currentPhase V))] \<and>
       log_decode (lib_avro E) (\<lambda>_. None) log_new (log_encode (lib_avro E) (\<lambda>_. None) l) = Inr (l, []))"
proof -
  have dec: "log_decode (lib_avro E) (\<lambda>_. None) log_new (log_encode (lib_avro E) (\<lambda>_. None) k) = Inr (k, [])"
    if "log_valid k" for k
    using log_restored [OF assms(1) _ that, of "\<lambda>_. None" log_new "[]"] by (simp add: orders_ok_def)
  from assms(3) show ?thesis
  proof (cases rule: run_query_cases)
    case (finished m l r1 es2 k need)
    have "log_valid l \<and> logType l = currentPhase V" using common_valid [OF assms(2) numbers] finished by blast
    then have k: "log_valid k \<and> logType k = currentPhase V" using custom_keeps [OF _ finished(2)] by auto
    moreover have "pushes es2 = []" using custom_silent [OF finished(2)] .
    ultimately show ?thesis using finished(3) dec [of k] by (auto simp: doLog_def Let_def intro!: exI [of _ k])
  qed (auto dest: custom_silent)
qed

lemma run_error:
  assumes "run_query E V own named now idSeq q resp = Some (Inr (resp', es))"
  shows "(\<exists>m l r1 es2 k need. customLogic V E q m l r1 = (resp', es2, Inr (k, need))) \<or>
    respStatus resp' = 500 \<and> statusMsg resp' = ''error'' \<and> pushes es = []"
  using assms
  by (cases rule: run_query_cases)
    (auto simp: error_response_def error_only_logged set_content_header_def response_set_def set_status_def dest: custom_silent)

end

section \<open>The user's cookie\<close>

text \<open>What \<open>UserID\<close> promises: a cipher can stand in a cookie and is that of a valid id with the same text; the
  empty string is no valid id.\<close>

definition cookie_safe :: "string \<Rightarrow> bool" where
  "cookie_safe c \<longleftrightarrow> c \<noteq> [] \<and> hd c \<noteq> CHR '' '' \<and> CHR '';'' \<notin> set c \<and> NUL \<notin> set c"

definition uid_ok :: "query_env \<Rightarrow> bool" where
  "uid_ok E \<longleftrightarrow>
     (\<forall>s. uid_valid E s \<longrightarrow> cookie_safe (uid_cipher E s) \<and> uid_valid E (uid_cipher E s) \<and> uid_text E (uid_cipher E s) = uid_text E s) \<and>
     (\<forall>i c t. uid_new E i = (c, t) \<longrightarrow> cookie_safe c \<and> uid_valid E c \<and> uid_text E c = t) \<and> \<not> uid_valid E []"

definition cookie_name_ok :: "string \<Rightarrow> bool" where
  "cookie_name_ok k \<longleftrightarrow> k \<noteq> [] \<and> hd k \<noteq> CHR '' '' \<and> CHR '';'' \<notin> set k \<and> CHR ''='' \<notin> set k \<and> NUL \<notin> set k"

text \<open>What a browser sends back of a \<open>Set-Cookie\<close> header: the pair before the attributes.\<close>

definition sent_back :: "string \<Rightarrow> string" where
  "sent_back c = takeWhile (\<lambda>x. x \<noteq> CHR '';'') c"

lemma sent_back_planted:
  assumes "map_ok (resp_headers resp)" "cookie_name_ok (COOKIES_MTTY_ID E)" "cookie_safe c"
  shows "sent_back (cookies (plantNewCookie E c resp)) = COOKIES_MTTY_ID E @ ''='' @ c"
proof -
  have "cookies (plantNewCookie E c resp) =
    (COOKIES_MTTY_ID E @ ''='' @ c) @ CHR '';'' # ''Domain=.'' @ COOKIES_MTTY_DOMAIN E @ '';Max-Age=2617488000;''"
    using assms(1) by (simp add: plantNewCookie_def cookies_def response_set_def find_header_assign)
  moreover have "\<forall>x \<in> set (COOKIES_MTTY_ID E @ ''='' @ c). x \<noteq> CHR '';''"
    using assms(2,3) by (auto simp: cookie_name_ok_def cookie_safe_def)
  ultimately show ?thesis unfolding sent_back_def by (simp only: takeWhile_append2) simp
qed

lemma extract_sent_back:
  assumes "cookie_name_ok k" "cookie_safe c"
  shows "extractCookiesParam k (k @ ''='' @ c) = c"
proof -
  have "cstr (k @ ''='' @ c) = k @ ''='' @ c" using assms by (intro cstr_id) (auto simp: cookie_name_ok_def cookie_safe_def)
  moreover have "plain_pair (\<lambda>x. x \<noteq> CHR '';'') True CHR '';'' (k, c)" "c \<noteq> []"
    using assms by (auto simp: plain_pair_def cookie_name_ok_def cookie_safe_def)
  ultimately have "getParamv2 Map.empty (k @ ''='' @ c) CHR '';'' = Map.empty ++ map_of (rev [(k, c)])"
    using v2.run_query [of "[(k, c)]" "CHR '';''" "k @ ''='' @ c" "[]" "parse_start Map.empty"]
    by (simp add: getParamv2_def Let_def parse_start_def)
  then show ?thesis by (simp add: extractCookiesParam_def map_index_def)
qed

lemma planted_by:
  assumes "uid_ok E" "cookies resp = []" "userCookieLogic E idSeq jar m resp = (user, resp')" "cookies resp' \<noteq> []"
  shows "\<exists>c. resp' = plantNewCookie E c resp \<and> cookie_safe c \<and> uid_valid E c \<and> uid_text E c = user"
  using assms by (cases idSeq) (auto simp: userCookieLogic_def uid_ok_def Let_def split: if_splits prod.splits)

text \<open>C13: a user who got a cookie and sends it back is recognised: the next request, without an id of its own in
  the query, logs the same user id and plants no new cookie.\<close>

theorem user_recognised:
  assumes "uid_ok E" "cookie_name_ok (COOKIES_MTTY_ID E)" "map_ok (resp_headers resp)" "cookies resp = []"
    "userCookieLogic E idSeq jar m resp = (user, resp')" "cookies resp' \<noteq> []" "param E m' URL_MTTY_UID = None"
  shows "userCookieLogic E idSeq' (sent_back (cookies resp')) m' resp2 = (user, resp2)"
proof -
  obtain c where c: "resp' = plantNewCookie E c resp" "cookie_safe c" "uid_valid E c" "uid_text E c = user"
    using planted_by [OF assms(1,4-6)] by blast
  have "extractCookiesParam (COOKIES_MTTY_ID E) (sent_back (cookies resp')) = c"
    using sent_back_planted [OF assms(3,2) c(2)] extract_sent_back [OF assms(2) c(2)] c(1) by simp
  then show ?thesis using c assms(1,7) by (simp add: userCookieLogic_def uid_ok_def)
qed

section \<open>Samples\<close>

definition sample_kname :: "url_key \<Rightarrow> string" where
  "sample_kname k = (case k of URL_ADX_ID \<Rightarrow> ''x'' | URL_EXCHANGE_PRICE \<Rightarrow> ''p'' | URL_MTTY_UID \<Rightarrow> ''u'' | URL_EXEC_ID \<Rightarrow> ''e''
     | URL_LANDING_URL \<Rightarrow> ''f'' | URL_ADOWNER_ID \<Rightarrow> ''d'' | _ \<Rightarrow> ''other'')"

definition sample_replies :: replies where
  "sample_replies = \<lparr>counter = Some [(''val'', AsInt 7)], put_ok = True, index_ok = True, get_index = \<lambda>_. None,
     get_source = \<lambda>_. None, device_mapping = \<lambda>_ _. ([], []), httpGet = \<lambda>_. []\<rparr>"

definition sample_env :: query_env where
  "sample_env = \<lparr>kname = sample_kname, prices = sample_prices, URL_LONG_INPUT_PARAMETER = 512, COOKIES_MTTY_ID = ''mtty'',
     COOKIES_MTTY_DOMAIN = ''example.com'', uid_valid = cookie_safe, uid_cipher = id, uid_text = id, uid_new = \<lambda>_. (''U1'', ''U1''),
     lib_avro = sample_avro, url_b64 = \<lambda>_. None, url_table = [], aero = sample_aerospike, store = sample_replies\<rparr>"

lemma sample_adx_inverse: "[ADX_TANX, ADX_TANX_MOBILE, ADX_YOUKU, ADX_YOUKU_MOBILE, ADX_BAIDU, ADX_BAIDU_MOBILE, ADX_GUANGYIN, ADX_GUANGYIN_MOBILE, ADX_TENCENT_GDT, ADX_GDT_MOBILE, ADX_NETEASE_MOBILE, ADX_YIDIAN, ADX_SOHU_PC, ADX_SOHU_MOBILE, ADX_INMOBI, ADX_LIEBAO_MOBILE, ADX_NEX_PC, ADX_NEX_MOBILE, ADX_KUPAI_MOBILE, ADX_360_MAX_PC, ADX_360_MAX_MOBILE, ADX_2345_PC, ADX_2345_MOBILE, ADX_SSP_PC, ADX_SSP_MOBILE] ! nat (sample_adx n - 1) = n"
  by (cases n) simp_all

lemma sample_adx_ok: "adx_ok (prices sample_env)"
  unfolding adx_ok_def sample_env_def sample_prices_def by (simp, rule inj_on_inverseI, rule sample_adx_inverse)

lemma sample_uid_ok: "uid_ok sample_env"
  by (simp add: uid_ok_def sample_env_def cookie_safe_def)

text \<open>An exchange that reports plain numbers reports \<open>abc\<close>.\<close>

lemma sample_numbers: "stringToInt ''11'' = 11" "stoi ''abc'' = Inl InvalidArgument" "wrap32 11 = 11"
  by (simp_all add: stringToInt_def stol_def stoi_def strtol_value_def cstr_def is_space_char_def is_digit_char_def
      digits_val_def digit_val_def int_limits wrap32_def)

lemma sample_decode: "decodeAdxExchangePrice sample_prices 11 ''abc'' = Inl InvalidArgument"
  by (simp add: decodeAdxExchangePrice_def adx_is_def sample_prices_def sample_numbers)

lemma sample_parse:
  "parseObjectToLogItem sample_env [''x'' \<mapsto> ''11'', ''p'' \<mapsto> ''abc''] log_new =
     Inr (log_new\<lparr>adInfo := (adInfo log_new)\<lparr>adxid := 11, priceType := 0\<rparr>, reqStatus := 500\<rparr>)"
  by (simp add: parseObjectToLogItem_def parse_params_def winning_price_def steps_before_price_def steps_after_price_def on_param_def on_ad_def parse_landing_def
      parse_referer_def parse_area_def parse_priceType_def parse_price_def Let_def param_def sample_env_def sample_kname_def
      sample_numbers sample_decode)

theorem parse_status_witness:
  "adx_ok (prices sample_env) \<and>
   ((\<exists>s. param sample_env [''x'' \<mapsto> ''11'', ''p'' \<mapsto> ''abc''] URL_EXCHANGE_PRICE = Some s \<and>
      price_throws (prices sample_env) (adx_of sample_env [''x'' \<mapsto> ''11'', ''p'' \<mapsto> ''abc''] log_new) s) \<or>
    fees_throw sample_env [''x'' \<mapsto> ''11'', ''p'' \<mapsto> ''abc''] (adx_of sample_env [''x'' \<mapsto> ''11'', ''p'' \<mapsto> ''abc''] log_new) (logType log_new))"
proof -
  have "reqStatus log_new \<noteq> 500" by (simp add: log_new_def)
  from parse_status [OF sample_adx_ok sample_parse this] show ?thesis by (simp add: sample_adx_ok)
qed


theorem user_recognised_witness:
  "\<exists>resp'. userCookieLogic sample_env (1, 2) [] Map.empty (response_new 0) = (''U1'', resp') \<and>
     userCookieLogic sample_env (3, 4) (sent_back (cookies resp')) Map.empty (response_new 0) = (''U1'', response_new 0)"
proof -
  let ?r = "plantNewCookie sample_env ''U1'' (response_new 0)"
  have first: "userCookieLogic sample_env (1, 2) [] Map.empty (response_new 0) = (''U1'', ?r)"
    by (simp add: userCookieLogic_def extractCookiesParam_def getParamv2_def cstr_def parse_start_def parse_finish_def
        map_index_def param_def sample_env_def cookie_safe_def)
  moreover have "userCookieLogic sample_env (3, 4) (sent_back (cookies ?r)) Map.empty (response_new 0) = (''U1'', response_new 0)"
    by (rule user_recognised [OF sample_uid_ok _ _ _ first])
      (simp_all add: cookie_name_ok_def sample_env_def response_new_def cookies_def find_header_def plantNewCookie_def
        response_set_def param_def)
  ultimately show ?thesis by blast
qed

end
