(* ===== verification/Ip_Address.thy ===== *)
theory Ip_Address
  imports Bin_Search Std_Map
begin

text \<open>
  Model of the IPv4 conversions of utility/utility.h and of core/core_scenario_manager.cpp, which maps
  an address to a scenario through a sorted table of network numbers.  An address is the \<open>uint32_t\<close> the
  callers make of the converted \<open>int\<close>; the union of an \<open>int\<close> and four bytes has its most significant
  byte at index 3.
\<close>

unbundle bit_operations_syntax

section \<open>Addresses\<close>

definition what :: "byte list \<Rightarrow> u32" where
  "what c = push_bit 24 (ucast (c ! 3)) OR push_bit 16 (ucast (c ! 2)) OR push_bit 8 (ucast (c ! 1)) OR ucast (c ! 0)"

definition octet :: "u32 \<Rightarrow> nat \<Rightarrow> byte" where
  "octet w i = ucast (drop_bit (8 * i) w)"

text \<open>
  The loop of \<open>ipStringToInt\<close> with \<open>i + 1\<close> bytes to fill and the string from \<open>p2\<close> on; it returns the bytes
  from \<open>c[i]\<close> down.  At the terminator the loop reads on behind it unless \<open>c[0]\<close> has been written; after a
  final dot it leaves the remaining bytes of the union unset.  Both are \<open>MemoryFault\<close>.
\<close>

fun ip_octets :: "nat \<Rightarrow> string \<Rightarrow> byte list result" where
  "ip_octets 0 p2 = Inr []"
| "ip_octets (Suc i) p2 =
     (let c = word_of_int (atoi p2); rest = dropWhile (\<lambda>x. x \<noteq> CHR ''.'') p2
      in if i = 0 then Inr [c]
         else if tl rest = [] then Inl MemoryFault
         else bind_result (ip_octets i (tl rest)) (\<lambda>cs. Inr (c # cs)))"

definition ipStringToInt :: "string \<Rightarrow> u32 result" where
  "ipStringToInt ipString = bind_result (ip_octets 4 (cstr ipString)) (\<lambda>cs. Inr (what (rev cs)))"

definition ipIntToString :: "u32 \<Rightarrow> string" where
  "ipIntToString ip = to_string (uint (octet ip 3)) @ ''.'' @ to_string (uint (octet ip 2)) @ ''.'' @
     to_string (uint (octet ip 1)) @ ''.'' @ to_string (uint (octet ip 0))"

section \<open>Scenarios\<close>

text \<open>\<open>other\<close> is \<open>SOLUTION_SCENARIO_OTHER\<close>.  The rules are the lines of the file that end in a newline.\<close>

fun add_rule :: "string \<Rightarrow> (u32 \<times> int) list \<Rightarrow> (u32 \<times> int) list result" where
  "add_rule str dict =
     (case split_any '' '' str of
        [a, b, sc] \<Rightarrow>
          bind_result (ipStringToInt a) (\<lambda>ipStart.
          bind_result (ipStringToInt b) (\<lambda>ipEnd.
          bind_result (stoi sc) (\<lambda>scenario. Inr (omap_insert (ipStart AND ipEnd) scenario dict))))
      | _ \<Rightarrow> Inr dict)"

fun loadScenarioData :: "string list \<Rightarrow> (u32 \<times> int) list \<Rightarrow> (u32 \<times> int) list result" where
  "loadScenarioData [] dict = Inr dict"
| "loadScenarioData (l # ls) dict = bind_result (add_rule l dict) (loadScenarioData ls)"

record scenario_manager =
  scenarioDict :: "(u32 \<times> int) list"
  cidrTable :: "u32 list"

definition scenario_init :: "(u32 \<times> int) list \<Rightarrow> scenario_manager" where
  "scenario_init dict = \<lparr>scenarioDict = dict, cidrTable = sort (map fst dict)\<rparr>"

text \<open>\<open>bin\<close> is the contents of the saved dictionary, \<open>None\<close> if there is no such file.\<close>

definition ScenarioManager_init :: "(u32 \<times> int) list option \<Rightarrow> string list \<Rightarrow> scenario_manager result" where
  "ScenarioManager_init bin rules =
     (case bin of Some dict \<Rightarrow> Inr (scenario_init dict)
      | None \<Rightarrow> bind_result (loadScenarioData rules []) (\<lambda>dict. Inr (scenario_init dict)))"

definition cidr_bSearch :: "u32 list \<Rightarrow> int \<Rightarrow> u32 \<Rightarrow> int" where
  "cidr_bSearch table n key = snd (bs_loop (\<lambda>mid. key < table ! nat mid) 0 (n - 1))"

definition getScenario :: "int \<Rightarrow> scenario_manager \<Rightarrow> string \<Rightarrow> int result" where
  "getScenario other m ip =
     bind_result (ipStringToInt ip) (\<lambda>ipInt.
       let p = cidr_bSearch (cidrTable m) (int (length (scenarioDict m))) ipInt
       in Inr (if 0 \<le> p then
                 let network = cidrTable m ! nat p
                 in if ipInt AND network = network then
                      (case map_of (scenarioDict m) network of Some s \<Rightarrow> s | None \<Rightarrow> other)
                    else other
               else other))"

section \<open>Conversions\<close>

lemma bit_what:
  "bit (what c) n \<longleftrightarrow> (if n < 8 then bit (c ! 0) n else if n < 16 then bit (c ! 1) (n - 8)
     else if n < 24 then bit (c ! 2) (n - 16) else n < 32 \<and> bit (c ! 3) (n - 24))"
proof -
  have high: "\<not> bit (b :: byte) m" if "8 \<le> m" for b m
    using that by (auto dest: bit_imp_le_length)
  show ?thesis
    unfolding what_def
    by (auto simp: bit_or_iff bit_push_bit_iff bit_unsigned_iff high)
qed

lemma bit_octet: "bit (octet w i) n \<longleftrightarrow> n < 8 \<and> bit w (8 * i + n)"
  by (simp add: octet_def bit_unsigned_iff bit_drop_bit_eq)

lemma what_octets: "what [octet w 0, octet w (Suc 0), octet w 2, octet w 3] = w"
  by (rule bit_word_eqI) (auto simp: bit_what bit_octet)

lemma atoi_then:
  assumes "0 \<le> n" "n \<le> int32_max" "r = [] \<or> \<not> is_digit_char (hd r)"
  shows "atoi (to_string n @ r) = n"
  using strtol_value_then [OF nat_to_string_digits [of "nat n"], of r] assms
  by (simp add: atoi_def to_string_def wrap32_def int_limits)

lemma dot_not_digit: "\<not> is_digit_char CHR ''.''"
  by (simp add: is_digit_char_def)

lemma to_string_no_dot: "CHR ''.'' \<notin> set (to_string (uint (b :: byte)))" "NUL \<notin> set (to_string (uint b))"
  using set_to_string [of _ "uint b"] dot_not_digit digit_not_special(1) by force+

lemma ip_octets_step:
  assumes "rest \<noteq> []"
  shows "ip_octets (Suc (Suc i)) (to_string (uint (b :: byte)) @ ''.'' @ rest) =
    bind_result (ip_octets (Suc i) rest) (\<lambda>cs. Inr (b # cs))"
proof -
  have "uint b \<le> int32_max" using uint_bounded [of b] by (simp add: int_limits)
  then have "atoi (to_string (uint b) @ ''.'' @ rest) = uint b"
    using dot_not_digit by (intro atoi_then) simp_all
  moreover have "dropWhile (\<lambda>x. x \<noteq> CHR ''.'') (to_string (uint b) @ ''.'' @ rest) = ''.'' @ rest"
    using to_string_no_dot(1) [of b] by (subst dropWhile_append2) auto
  ultimately show ?thesis using assms by (simp add: Let_def)
qed

lemma ip_octets_last: "ip_octets (Suc 0) (to_string (uint (b :: byte))) = Inr [b]"
proof -
  have "uint b \<le> int32_max" using uint_bounded [of b] by (simp add: int_limits)
  then have "atoi (to_string (uint b)) = uint b" using atoi_then [of "uint b" "[]"] by simp
  then show ?thesis by (simp add: Let_def)
qed

lemma ip_print_parse: "ipStringToInt (ipIntToString ip) = Inr ip"
proof -
  have "NUL \<notin> set (ipIntToString ip)" by (simp add: ipIntToString_def to_string_no_dot)
  then have "cstr (ipIntToString ip) = ipIntToString ip" by (rule cstr_id)
  moreover have "ip_octets 4 (ipIntToString ip) = Inr [octet ip 3, octet ip 2, octet ip 1, octet ip 0]"
    by (simp add: ipIntToString_def numeral_eq_Suc ip_octets_step ip_octets_last del: ip_octets.simps append.simps)
  ultimately show ?thesis by (simp add: ipStringToInt_def what_octets)
qed

text \<open>reading back a printed address gives the address, for all 2^32 of them, and two addresses never
  print alike.\<close>

theorem ip_round_trip: "ipStringToInt (ipIntToString ip) = Inr ip \<and> (ipIntToString ip = ipIntToString ip' \<longleftrightarrow> ip = ip')"
  by (metis ip_print_parse sum.inject(2))

theorem ip_round_trip_witness: "ipStringToInt (ipIntToString 0x0A000001) = Inr 0x0A000001"
  using ip_round_trip [of "0x0A000001" "0x0A000001"] by simp

section \<open>Scenario lookup\<close>

lemma map_ok_sorted: "map_ok m \<Longrightarrow> sorted (map fst m) \<and> distinct (map fst m)"
  by (simp add: map_ok_def strict_sorted_iff)

lemma map_of_key: "k \<in> fst ` set m \<Longrightarrow> \<exists>s. map_of m k = Some s"
  by (cases "map_of m k") (simp_all add: map_of_eq_None_iff)

text \<open>The last entry not above the key.\<close>

lemma cidr_bSearch_spec:
  fixes key :: u32
  assumes "sorted xs"
  defines "p \<equiv> cidr_bSearch xs (int (length xs)) key"
  shows "-1 \<le> p" "p < int (length xs)" "0 \<le> p \<Longrightarrow> xs ! nat p = Max {n \<in> set xs. n \<le> key}"
    "0 \<le> p \<longleftrightarrow> {n \<in> set xs. n \<le> key} \<noteq> {}"
proof -
  have sk: "sorted_keys (\<lambda>i. xs ! nat i) (int (length xs))"
    using assms(1) by unfold_locales (auto simp: sorted_iff_nth_mono nat_less_iff nat_mono)
  obtain l where l: "bs_loop (\<lambda>mid. key < xs ! nat mid) 0 (int (length xs) - 1) = (l, p)"
    unfolding p_def cidr_bSearch_def by (metis prod.collapse)
  note u = sorted_keys.upper_spec [OF sk l]
  show "-1 \<le> p" "p < int (length xs)" by (fact u(1), fact u(2))
  have le: "i \<le> nat p \<and> 0 \<le> p" if "i < length xs" "xs ! i \<le> key" for i
    using u(1) u(4) [of "int i"] that by (cases "p < int i") auto
  have at: "nat p < length xs \<and> xs ! nat p \<le> key" if "0 \<le> p"
    using that u(2) u(3) [of p] by (simp add: nat_less_iff)
  show "0 \<le> p \<longleftrightarrow> {n \<in> set xs. n \<le> key} \<noteq> {}"
  proof
    show "{n \<in> set xs. n \<le> key} \<noteq> {}" if "0 \<le> p" using at [OF that] nth_mem by blast
    show "0 \<le> p" if "{n \<in> set xs. n \<le> key} \<noteq> {}" using that le by (auto simp: in_set_conv_nth)
  qed
  show "xs ! nat p = Max {n \<in> set xs. n \<le> key}" if "0 \<le> p"
  proof (rule Max_eqI [symmetric])
    show "xs ! nat p \<in> {n \<in> set xs. n \<le> key}" using at [OF that] by simp
    show "n \<le> xs ! nat p" if "n \<in> {n \<in> set xs. n \<le> key}" for n
      using that le sorted_nth_mono [OF assms(1)] u(2) by (fastforce simp: in_set_conv_nth)
  qed simp
qed

text \<open>\<open>getScenario\<close> finds, by binary search, the greatest network number not above the address, and
  returns its scenario if all bits of the network number are set in the address, the default otherwise.\<close>

theorem getScenario_spec:
  assumes "map_ok dict" "ipStringToInt ip = Inr a"
  shows "getScenario other (scenario_init dict) ip = Inr
    (let below = {n \<in> fst ` set dict. n \<le> a}; network = Max below
     in if below = {} \<or> a AND network \<noteq> network then other else the (map_of dict network))"
proof -
  let ?xs = "map fst dict"
  let ?p = "cidr_bSearch ?xs (int (length dict)) a"
  let ?n = "Max {n \<in> fst ` set dict. n \<le> a}"
  have xs: "sorted ?xs" "sort ?xs = ?xs" using map_ok_sorted [OF assms(1)] by (simp_all add: sorted_sort_id)
  note b = cidr_bSearch_spec [OF xs(1), of a, simplified]
  show ?thesis
  proof (cases "{n \<in> fst ` set dict. n \<le> a} = {}")
    case True
    with b(4) have "\<not> 0 \<le> ?p" by auto
    with True assms(2) xs(2) show ?thesis by (simp add: getScenario_def scenario_init_def Let_def)
  next
    case False
    with b(4) have p: "0 \<le> ?p" by auto
    have "?n \<in> fst ` set dict" using Max_in [OF _ False] by simp
    from map_of_key [OF this] obtain s where s: "map_of dict ?n = Some s" ..
    have "?xs ! nat ?p = ?n" using b(3) p by simp
    with p s assms(2) xs(2) have "getScenario other (scenario_init dict) ip = Inr (if a AND ?n = ?n then s else other)"
      by (simp add: getScenario_def scenario_init_def Let_def)
    then show ?thesis unfolding Let_def s by (auto simp only: False option.sel simp_thms split: if_split)
  qed
qed

theorem getScenario_spec_witness:
  "getScenario 9 (scenario_init [(0x0A000000, 7)]) (ipIntToString 0x0A000001) = Inr 7"
proof -
  have "{n \<in> fst ` set [(0x0A000000 :: u32, 7 :: int)]. n \<le> 0x0A000001} = {0x0A000000}" by auto
  then show ?thesis
    using getScenario_spec [of "[(0x0A000000, 7)]" "ipIntToString 0x0A000001" "0x0A000001" 9]
    by (simp add: ip_print_parse Let_def)
qed

text \<open>The end of a rule's range is lost: the rule 10.0.0.0 to 10.0.0.255 also decides 10.5.0.1.\<close>

lemma scenario_range_lost:
  "(0x0A000000 AND 0x0A0000FF :: u32) = 0x0A000000 \<and>
   getScenario 9 (scenario_init [(0x0A000000, 7)]) (ipIntToString 0x0A050001) = Inr 7"
  by (simp add: getScenario_def ip_print_parse scenario_init_def cidr_bSearch_def bs_loop.simps)

end
