(* ===== verification/Ip_Area.thy ===== *)
theory Ip_Area
  imports Ip_Address
begin

text \<open>
  Model of core/core_ip_manager.cpp: the binary address database (\<open>ipDataInit\<close>, \<open>ipDataFind\<close>), the area
  file (\<open>processAreaFileLine\<close>, \<open>loadAreaData\<close>) and the lookups of \<open>IpManager\<close>.  A file is its contents;
  \<open>margin\<close> and \<open>unknown\<close> stand for \<open>AREACODE_MARGIN\<close> and \<open>IP_UNKNOWN\<close> of mtty/constants.h.  The index is
  an array of 8-byte entries behind a table of 256 start numbers: a big-endian last address, a
  little-endian 24-bit text offset and the text length.
\<close>

unbundle bit_operations_syntax

section \<open>The address database\<close>

definition B2IU :: "byte list \<Rightarrow> nat \<Rightarrow> u32" where
  "B2IU b i = what [b ! (i + 3), b ! (i + 2), b ! (i + 1), b ! i]"

definition B2IL :: "byte list \<Rightarrow> nat \<Rightarrow> u32" where
  "B2IL b i = what [b ! i, b ! (i + 1), b ! (i + 2), b ! (i + 3)]"

record ipip =
  data :: "byte list"
  index :: "byte list"
  offset :: nat

definition ipip_flag :: "ipip \<Rightarrow> nat \<Rightarrow> u32" where
  "ipip_flag s i = B2IL (index s) (4 * i)"

definition ipDataDestroy :: "ipip \<Rightarrow> ipip" where
  "ipDataDestroy s = (if offset s = 0 then s else \<lparr>data = [], index = [], offset = 0\<rparr>)"

text \<open>\<open>file\<close> is \<open>None\<close> if it cannot be opened.  A file shorter than its header says, or an index shorter than
  the start table, makes one of the copies read outside its source.\<close>

definition ipDataInit :: "byte list option \<Rightarrow> ipip \<Rightarrow> (int \<times> ipip) result" where
  "ipDataInit file s =
     (if offset s \<noteq> 0 then Inr (-1, s)
      else case file of None \<Rightarrow> Inr (-1, s)
      | Some d \<Rightarrow>
          if d = [] then Inr (-1, s\<lparr>data := []\<rparr>)
          else if length d < 4 then Inl MemoryFault
          else let len = unat (B2IU d 0)
               in if length d < 4 + len \<or> len < 1024 then Inl MemoryFault
                  else Inr (0, \<lparr>data = d, index = take len (drop 4 d), offset = len\<rparr>))"

text \<open>The search from entry address \<open>start\<close>: the text offset and length of the first entry whose last
  address is not below \<open>ip\<close>; both 0 if there is none.\<close>

function find_entry :: "byte list \<Rightarrow> u32 \<Rightarrow> nat \<Rightarrow> nat \<Rightarrow> (nat \<times> nat) result" where
  "find_entry idx ip start max_comp_len =
     (if start < max_comp_len then
        if length idx < start + 8 then Inl MemoryFault
        else if ip \<le> B2IU idx start then
          Inr (unat (B2IL idx (start + 4) AND 0x00FFFFFF), unat (idx ! (start + 7)))
        else find_entry idx ip (start + 8) max_comp_len
      else Inr (0, 0))"
  by pat_completeness auto
termination
  by (relation "measure (\<lambda>(idx, ip, start, m). length idx + 8 - start)") auto

declare find_entry.simps [simp del]

text \<open>\<open>sscanf\<close> with \<open>%d\<close>: white space, a sign, digits.\<close>

definition scan_int :: "string \<Rightarrow> (int \<times> string) option" where
  "scan_int s =
     (let s1 = dropWhile is_space_char s;
          s2 = (if s1 \<noteq> [] \<and> hd s1 \<in> {CHR ''-'', CHR ''+''} then tl s1 else s1)
      in map_option (\<lambda>v. (v, dropWhile is_digit_char s2)) (strtol_value s1))"

definition skip_dot :: "string \<Rightarrow> string option" where
  "skip_dot s = (case s of c # r \<Rightarrow> if c = CHR ''.'' then Some r else None | [] \<Rightarrow> None)"

definition scan_quad :: "string \<Rightarrow> int list option" where
  "scan_quad s =
     Option.bind (scan_int s) (\<lambda>(a, s). Option.bind (skip_dot s) (\<lambda>s.
     Option.bind (scan_int s) (\<lambda>(b, s). Option.bind (skip_dot s) (\<lambda>s.
     Option.bind (scan_int s) (\<lambda>(c, s). Option.bind (skip_dot s) (\<lambda>s.
     Option.bind (scan_int s) (\<lambda>(d, s). Some [a, b, c, d])))))))"

text \<open>\<open>None\<close>: the address does not scan, nothing is written to \<open>result\<close>.\<close>

definition ipDataFind :: "ipip \<Rightarrow> string \<Rightarrow> byte list option result" where
  "ipDataFind s ip =
     (case scan_quad (cstr ip) of
        None \<Rightarrow> Inr None
      | Some ips \<Rightarrow>
          let prefix_value = (word_of_int (ips ! 0) :: u32);
              ip2long_value = what [word_of_int (ips ! 3), word_of_int (ips ! 2), word_of_int (ips ! 1), word_of_int (ips ! 0)]
          in if 256 \<le> unat prefix_value \<or> offset s = 0 then Inl MemoryFault
             else let start = unat (ipip_flag s (unat prefix_value) * 8 + 1024 :: u32);
                      max_comp_len = unat (of_nat (offset s) - 1028 :: u32)
                  in bind_result (find_entry (index s) ip2long_value start max_comp_len) (\<lambda>(off, len).
                       let from = offset s + off - 1024
                       in if length (data s) < from + len then Inl MemoryFault
                          else Inr (Some (take len (drop from (data s))))))"

section \<open>The area file\<close>

record area_item =
  area_name :: string
  country :: int
  province :: int
  city :: int

definition is_blank :: "char \<Rightarrow> bool" where
  "is_blank c \<longleftrightarrow> c = CHR '' '' \<or> c = CHR 0x09"

text \<open>One line with its newline.  A loop that passes the end of the buffer is a \<open>MemoryFault\<close>.\<close>

definition next_field :: "string \<Rightarrow> string result" where
  "next_field p = (let q = dropWhile (\<lambda>c. c \<noteq> CHR 0x0A \<and> c \<noteq> CHR ''-'') p in if q = [] then Inl MemoryFault else Inr q)"

definition processAreaFileLine :: "string \<Rightarrow> area_item result" where
  "processAreaFileLine line =
     (let q = dropWhile (\<lambda>c. \<not> is_blank c) line
      in if q = [] then Inl MemoryFault
         else let p = tl q; item = \<lparr>area_name = takeWhile (\<lambda>c. \<not> is_blank c) line, country = atoi p, province = 0, city = 0\<rparr>
              in bind_result (next_field p) (\<lambda>p.
                if hd p = CHR 0x0A then Inr item
                else let p = tl p; item = item\<lparr>province := atoi p\<rparr>
                     in bind_result (next_field p) (\<lambda>p.
                       if hd p = CHR 0x0A then Inr item else Inr (item\<lparr>city := atoi (tl p)\<rparr>))))"

text \<open>The three maps of \<open>loadAreaData\<close>.  \<open>countryMap[country]\<close> enters a default item, whose numbers are not
  set (\<open>junk\<close>), when there is none.\<close>

record area_maps =
  countryMap :: "(int \<times> area_item) list"
  provinceMap :: "(int \<times> area_item) list"
  cityMap :: "(int \<times> area_item) list"

definition at_or_default :: "int \<Rightarrow> int \<Rightarrow> (int \<times> area_item) list \<Rightarrow> area_item \<times> (int \<times> area_item) list" where
  "at_or_default junk k m =
     (let m' = omap_insert k \<lparr>area_name = [], country = junk, province = junk, city = junk\<rparr> m
      in (the (map_of m' k), m'))"

definition add_area :: "int \<Rightarrow> int \<Rightarrow> area_item \<Rightarrow> area_maps \<Rightarrow> area_maps" where
  "add_area margin junk it m =
     (if country it \<noteq> 0 \<and> province it = 0 then m\<lparr>countryMap := omap_insert (country it) it (countryMap m)\<rparr>
      else if country it \<noteq> 0 \<and> province it \<noteq> 0 \<and> city it = 0 then
        let (c, cm) = at_or_default junk (country it) (countryMap m)
        in m\<lparr>countryMap := cm,
             provinceMap := omap_insert (country it * margin + province it) (it\<lparr>area_name := area_name c @ area_name it\<rparr>) (provinceMap m)\<rparr>
      else if country it \<noteq> 0 \<and> province it \<noteq> 0 \<and> city it \<noteq> 0 then
        let (p, pm) = at_or_default junk (country it * margin + province it) (provinceMap m)
        in m\<lparr>provinceMap := pm,
             cityMap := omap_insert (country it * margin + city it) (it\<lparr>area_name := area_name p @ area_name it\<rparr>) (cityMap m)\<rparr>
      else m)"

fun read_areas :: "int \<Rightarrow> int \<Rightarrow> string list \<Rightarrow> area_maps \<Rightarrow> area_maps result" where
  "read_areas margin junk [] m = Inr m"
| "read_areas margin junk (l # ls) m =
     bind_result (processAreaFileLine l) (\<lambda>it. read_areas margin junk ls (add_area margin junk it m))"

definition loadAreaData :: "int \<Rightarrow> int \<Rightarrow> string list \<Rightarrow> (string \<rightharpoonup> area_item) \<Rightarrow> (string \<rightharpoonup> area_item) result" where
  "loadAreaData margin junk ls dict =
     bind_result (read_areas margin junk ls \<lparr>countryMap = [], provinceMap = [], cityMap = []\<rparr>) (\<lambda>m.
       Inr (fold (\<lambda>(k, it). hash_insert (area_name it) it) (countryMap m @ provinceMap m @ cityMap m) dict))"

section \<open>The manager\<close>

record ip_manager =
  ipdb :: ipip
  areaDict :: "string \<rightharpoonup> area_item"
  started :: bool

definition ip_init :: "int \<Rightarrow> int \<Rightarrow> byte list option \<Rightarrow> string list \<Rightarrow> ip_manager \<Rightarrow> ip_manager result" where
  "ip_init margin junk ipdata areas m =
     (if started m then Inr m
      else bind_result (ipDataInit ipdata (ipdb m)) (\<lambda>(r, db).
        let m = m\<lparr>started := True, ipdb := db\<rparr>
        in if r < 0 then Inr m
           else bind_result (loadAreaData margin junk areas (areaDict m)) (\<lambda>d. Inr (m\<lparr>areaDict := d\<rparr>))))"

definition ip_destroy :: "ip_manager \<Rightarrow> ip_manager" where
  "ip_destroy m = (if started m then m\<lparr>started := False, ipdb := ipDataDestroy (ipdb m)\<rparr> else m)"

definition getAreaShortCode :: "int \<Rightarrow> area_item \<Rightarrow> int" where
  "getAreaShortCode margin it =
     (if province it = 0 then country it * margin
      else if city it = 0 then country it * margin + province it
      else country it * margin + city it)"

text \<open>\<open>trim\<close> moves the characters other than blanks and tabs to the front.\<close>

function trim :: "string \<Rightarrow> string" where
  "trim p1 =
     (if p1 = [] then []
      else let r = dropWhile (\<lambda>c. \<not> is_blank c) p1
           in takeWhile (\<lambda>c. \<not> is_blank c) p1 @ (if r = [] then [] else trim (dropWhile is_blank r)))"
  by pat_completeness auto
termination
proof (relation "measure length")
  fix p1 r :: string
  assume "p1 \<noteq> []" and r: "r = dropWhile (\<lambda>c. \<not> is_blank c) p1" and ne: "r \<noteq> []"
  have "is_blank (hd r)" using hd_dropWhile [of "\<lambda>c. \<not> is_blank c" p1] ne r by simp
  with ne have "length (dropWhile is_blank r) \<le> length (tl r)"
    by (cases r) (simp_all add: length_dropWhile_le)
  also have "\<dots> < length r" using ne by simp
  also have "\<dots> \<le> length p1" unfolding r by (rule length_dropWhile_le)
  finally show "(dropWhile is_blank r, p1) \<in> measure length" by simp
qed simp

declare trim.simps [simp del]

text \<open>All lookups read the name buffer even when \<open>ipDataFind\<close> has not written it.\<close>

definition getAreaNameByIp :: "ip_manager \<Rightarrow> string \<Rightarrow> string result" where
  "getAreaNameByIp m ip =
     bind_result (ipDataFind (ipdb m) ip) (\<lambda>r.
       case r of None \<Rightarrow> Inl MemoryFault | Some name \<Rightarrow> Inr (trim (cstr (map chr8 name))))"

definition getAreaByIp :: "int \<Rightarrow> int \<Rightarrow> ip_manager \<Rightarrow> string \<Rightarrow> int result" where
  "getAreaByIp margin unknown m ip =
     bind_result (getAreaNameByIp m ip) (\<lambda>n.
       Inr (case areaDict m n of Some it \<Rightarrow> getAreaShortCode margin it | None \<Rightarrow> unknown))"

text \<open>\<open>%04d\<close> pads with zeros behind a sign.\<close>

definition print_04d :: "int \<Rightarrow> string" where
  "print_04d i =
     (let ds = nat_to_string (nat (abs i)); w = (if i < 0 then 3 else 4)
      in (if i < 0 then ''-'' else []) @ replicate (w - length ds) CHR ''0'' @ ds)"

definition getAreaCodeStrByIp :: "ip_manager \<Rightarrow> string \<Rightarrow> string result" where
  "getAreaCodeStrByIp m ip =
     bind_result (getAreaNameByIp m ip) (\<lambda>n.
       Inr (case areaDict m n of
              Some it \<Rightarrow> take 63 (print_04d (country it) @ ''-'' @ to_string (province it) @ ''-'' @ to_string (city it))
            | None \<Rightarrow> ''0086-0-0''))"

definition getAreaCodeByIp :: "ip_manager \<Rightarrow> string \<Rightarrow> (int \<times> int \<times> int) result" where
  "getAreaCodeByIp m ip =
     bind_result (getAreaNameByIp m ip) (\<lambda>n.
       Inr (case areaDict m n of Some it \<Rightarrow> (country it, province it, city it) | None \<Rightarrow> (86, 0, 0)))"

section \<open>What the database search returns\<close>

definition entry_count :: "ipip \<Rightarrow> nat" where
  "entry_count s = (offset s - 2052) div 8"

definition entry_last :: "byte list \<Rightarrow> nat \<Rightarrow> u32" where
  "entry_last idx k = B2IU idx (1024 + 8 * k)"

definition entry_place :: "byte list \<Rightarrow> nat \<Rightarrow> nat \<times> nat" where
  "entry_place idx k = (unat (B2IL idx (1024 + 8 * k + 4) AND 0x00FFFFFF), unat (idx ! (1024 + 8 * k + 7)))"

definition entry_text :: "ipip \<Rightarrow> nat \<Rightarrow> byte list" where
  "entry_text s k = (case entry_place (index s) k of (off, len) \<Rightarrow> take len (drop (offset s + off - 1024) (data s)))"

text \<open>
  The format of the database: whole entries, texts inside the file, and a start number for every first
  octet that skips only entries which end below that octet's addresses.
\<close>

definition db_ok :: "ipip \<Rightarrow> bool" where
  "db_ok s \<longleftrightarrow> offset s = 2052 + 8 * entry_count s \<and> length (index s) = offset s \<and> offset s < 2 ^ 32 \<and>
     offset s \<le> length (data s) + 1024 \<and>
     (\<forall>k<entry_count s. case entry_place (index s) k of (off, len) \<Rightarrow> offset s + off - 1024 + len \<le> length (data s)) \<and>
     (\<forall>p<256. unat (ipip_flag s p) \<le> entry_count s \<and>
        (\<forall>k<unat (ipip_flag s p). entry_last (index s) k < of_nat (p * 2 ^ 24)))"

definition db_lookup :: "ipip \<Rightarrow> u32 \<Rightarrow> byte list" where
  "db_lookup s ip =
     (case filter (\<lambda>k. ip \<le> entry_last (index s) k) [0..<entry_count s] of k # _ \<Rightarrow> entry_text s k | [] \<Rightarrow> [])"

lemma find_entry_filter:
  assumes "n \<le> N" "1024 + 8 * N \<le> length idx"
  shows "find_entry idx ip (1024 + 8 * n) (1024 + 8 * N) =
    Inr (case filter (\<lambda>k. ip \<le> entry_last idx k) [n..<N] of k # _ \<Rightarrow> entry_place idx k | [] \<Rightarrow> (0, 0))"
  using assms
proof (induction "N - n" arbitrary: n)
  case 0
  then show ?case by (simp add: find_entry.simps [of idx ip "1024 + 8 * n"])
next
  case (Suc d)
  then have n: "n < N" "d = N - Suc n" by simp_all
  have "1024 + 8 * n < 1024 + 8 * N" "\<not> length idx < 1024 + 8 * n + 8" using n Suc.prems by simp_all
  moreover have "1024 + 8 * Suc n = 1024 + 8 * n + 8" by simp
  ultimately show ?case
    using n Suc.hyps(1) [OF n(2)] Suc.prems
    by (simp add: find_entry.simps [of idx ip "1024 + 8 * n"] upt_conv_Cons entry_last_def entry_place_def
        del: add_Suc_right mult_Suc_right)
qed

lemma flag_skips:
  assumes "n \<le> N" "\<forall>k<n. entry_last idx k < ip"
  shows "filter (\<lambda>k. ip \<le> entry_last idx k) [0..<N] = filter (\<lambda>k. ip \<le> entry_last idx k) [n..<N]"
proof -
  have "[0..<N] = [0..<n] @ [n..<N]" using assms(1) by (metis le_add_diff_inverse upt_add_eq_append zero_le)
  moreover have "filter (\<lambda>k. ip \<le> entry_last idx k) [0..<n] = []" using assms(2) by (auto simp: filter_empty_conv)
  ultimately show ?thesis by simp
qed

lemma scan_int_then:
  assumes "0 \<le> n" "r = [] \<or> \<not> is_digit_char (hd r)" "NUL \<notin> set r"
  shows "scan_int (to_string n @ r) = Some (n, r)"
proof -
  let ?d = "nat_to_string (nat n)"
  obtain c cs where d: "?d = c # cs" by (cases ?d) auto
  have "is_digit_char c" using nat_to_string_digits [of "nat n"] d by simp
  note c = digit_not_special [OF this]
  have "dropWhile is_digit_char (?d @ r) = r"
    using nat_to_string_digits [of "nat n"] assms(2) by (cases r) (auto simp: dropWhile_append)
  moreover have "strtol_value (?d @ r) = Some n"
    using strtol_value_then [OF nat_to_string_digits [of "nat n"], of r] assms(1,2) by simp
  ultimately show ?thesis using assms(1) d c by (simp add: scan_int_def to_string_def Let_def)
qed

lemma scan_quad_print:
  "scan_quad (ipIntToString ip) = Some [uint (octet ip 3), uint (octet ip 2), uint (octet ip 1), uint (octet ip 0)]"
  using dot_not_digit scan_int_then [of "uint (octet ip 0)" "[]"]
  by (simp add: scan_quad_def ipIntToString_def scan_int_then to_string_no_dot skip_dot_def)

lemma octet_top: "of_nat (unat (octet ip 3) * 2 ^ 24) \<le> (ip :: u32)" "unat (octet ip 3) < 256"
proof -
  have "unat ip < 2 ^ 32" using unsigned_less [of ip, where 'a = nat] by simp
  then have "unat (octet ip 3) = unat ip div 2 ^ 24"
    by (simp add: octet_def unsigned_ucast_eq unat_drop_bit_eq drop_bit_eq_div take_bit_eq_mod unat_div)
  then have "unat (octet ip 3) * 2 ^ 24 \<le> unat ip" by simp
  then show "of_nat (unat (octet ip 3) * 2 ^ 24) \<le> ip" 
    by (metis (no_types) le_trans mod_less_eq_dividend unat_of_nat word_le_nat_alt)
  show "unat (octet ip 3) < 256" using unat_byte_less by blast
qed

lemma db_okD:
  assumes "db_ok s"
  shows "offset s = 2052 + 8 * entry_count s" "length (index s) = offset s" "offset s < 2 ^ 32"
    "offset s \<le> length (data s) + 1024"
    "k < entry_count s \<Longrightarrow> case entry_place (index s) k of (off, len) \<Rightarrow> offset s + off - 1024 + len \<le> length (data s)"
    "p < 256 \<Longrightarrow> unat (ipip_flag s p) \<le> entry_count s"
    "p < 256 \<Longrightarrow> k < unat (ipip_flag s p) \<Longrightarrow> entry_last (index s) k < of_nat (p * 2 ^ 24)"
  using assms unfolding db_ok_def by metis+

lemma db_numbers:
  assumes "db_ok s" "p < 256"
  shows "unat (ipip_flag s p * 8 + 1024 :: u32) = 1024 + 8 * unat (ipip_flag s p)"
    "unat (of_nat (offset s) - 1028 :: u32) = 1024 + 8 * entry_count s"
proof -
  have o: "offset s = 2052 + 8 * entry_count s" "offset s < 2 ^ 32" "unat (ipip_flag s p) \<le> entry_count s"
    using assms by (simp_all add: db_ok_def)
  have "ipip_flag s p * 8 + 1024 = (of_nat (1024 + 8 * unat (ipip_flag s p)) :: u32)" by simp
  then show "unat (ipip_flag s p * 8 + 1024 :: u32) = 1024 + 8 * unat (ipip_flag s p)"
    using o by (simp only: unat_of_nat) simp
  have "(of_nat (offset s) - 1028 :: u32) = of_nat (1024 + 8 * entry_count s)" using o(1) by simp
  then show "unat (of_nat (offset s) - 1028 :: u32) = 1024 + 8 * entry_count s"
    using o by (simp only: unat_of_nat) simp
qed

lemma ipDataFind_lookup:
  assumes "db_ok s"
  shows "ipDataFind s (ipIntToString ip) = Inr (Some (db_lookup s ip))"
proof -
  let ?p = "unat (octet ip 3)" and ?N = "entry_count s" and ?f = "\<lambda>k. ip \<le> entry_last (index s) k"
  let ?n = "unat (ipip_flag s ?p)"
  note o = db_okD(1,2,4) [OF assms] and texts = db_okD(5) [OF assms]
  have "offset s \<noteq> 0" using o(1) by simp
  have flags: "?n \<le> ?N" "\<forall>k<?n. entry_last (index s) k < ip"
    using db_okD(6,7) [OF assms octet_top(2) [of ip]] octet_top(1) [of ip] by (auto intro: order_less_le_trans)
  have place: "find_entry (index s) ip (1024 + 8 * ?n) (1024 + 8 * ?N) =
      Inr (case filter ?f [0..<?N] of k # _ \<Rightarrow> entry_place (index s) k | [] \<Rightarrow> (0, 0))"
    unfolding flag_skips [OF flags] using o(1,2) by (intro find_entry_filter [OF flags(1)]) simp
  have "cstr (ipIntToString ip) = ipIntToString ip"
    by (rule cstr_id) (simp add: ipIntToString_def to_string_no_dot)
  moreover have "?p mod 2 ^ 32 = ?p" by (rule mod_less) (rule less_trans [OF octet_top(2)], simp)
  then have "unat (word_of_int (uint (octet ip 3)) :: u32) = ?p"
    by (simp add: unsigned_ucast_eq take_bit_eq_mod flip: ucast_eq)
  ultimately have "ipDataFind s (ipIntToString ip) =
      bind_result (find_entry (index s) ip (1024 + 8 * ?n) (1024 + 8 * ?N)) (\<lambda>(off, len).
        let from = offset s + off - 1024 in if length (data s) < from + len then Inl MemoryFault
          else Inr (Some (take len (drop from (data s)))))"
    using octet_top(2) [of ip, folded not_le] \<open>offset s \<noteq> 0\<close> what_octets [of ip]
    by (simp add: ipDataFind_def scan_quad_print Let_def db_numbers [OF assms octet_top(2)])
  also have "\<dots> = Inr (Some (db_lookup s ip))"
  proof (cases "filter ?f [0..<?N]")
    case Nil
    then show ?thesis using o(3) by (simp add: place db_lookup_def Let_def)
  next
    case (Cons k ks)
    have "k \<in> set (filter ?f [0..<?N])" unfolding Cons by simp
    then have "k < ?N" by simp
    from texts [OF this] Cons show ?thesis
      by (auto simp: place db_lookup_def entry_text_def Let_def split: prod.splits)
  qed
  finally show ?thesis .
qed

text \<open>C24: on a well-formed database, \<open>ipDataFind\<close> returns for every address the text of the first entry whose
  last address is not below it: starting at the entry the first octet's start number names loses nothing.\<close>

theorem ipDataFind_correct:
  assumes "db_ok s"
  shows "ipDataFind s (ipIntToString ip) = Inr (Some (db_lookup s ip))"
  by (rule ipDataFind_lookup [OF assms])

definition sample_db :: ipip where
  "sample_db = \<lparr>data = replicate 1036 0 @ [65, 66],
     index = replicate 1024 0 @ [255, 255, 255, 255, 0, 0, 0, 2] @ replicate 1028 0, offset = 2060\<rparr>"

lemma sample_db_entry:
  "entry_count sample_db = 1" "entry_last (index sample_db) 0 = 0xFFFFFFFF" "entry_place (index sample_db) 0 = (0, 2)"
  by (simp_all add: sample_db_def entry_count_def entry_last_def entry_place_def B2IU_def B2IL_def what_def nth_append)

lemma sample_db_ok: "db_ok sample_db"
proof -
  have "ipip_flag sample_db p = 0" if "p < 256" for p
    using that by (simp add: ipip_flag_def B2IL_def sample_db_def nth_append what_def)
  then show ?thesis unfolding db_ok_def using sample_db_entry by (simp add: sample_db_def)
qed

theorem ipDataFind_correct_witness: "ipDataFind sample_db (ipIntToString 0x08080808) = Inr (Some [65, 66])"
proof -
  have "db_lookup sample_db 0x08080808 = [65, 66]"
    using sample_db_entry by (simp add: db_lookup_def entry_text_def) (simp add: sample_db_def)
  then show ?thesis using ipDataFind_correct [OF sample_db_ok] by simp
qed

lemma filter_dropWhile_not: "filter P (dropWhile (\<lambda>c. \<not> P c) xs) = filter P xs"
  by (induction xs) auto

lemma takeWhile_filter_dropWhile: "takeWhile P xs @ filter P (dropWhile P xs) = filter P xs"
  by (induction xs) auto

text \<open>\<open>trim\<close>, which compacts the buffer in place, removes exactly the blanks and tabs.\<close>

lemma trim_filter: "trim s = filter (\<lambda>c. \<not> is_blank c) s"
proof (induction s rule: trim.induct)
  case (1 s)
  let ?P = "\<lambda>c. \<not> is_blank c"
  have "filter ?P (dropWhile is_blank xs) = filter ?P xs" for xs
    using filter_dropWhile_not [of ?P xs] by simp
  then have "trim s = takeWhile ?P s @ filter ?P (dropWhile ?P s)"
    using 1 [OF _ refl] by (cases "s = [] \<or> dropWhile ?P s = []") (auto simp: trim.simps [of s] Let_def simp del: dropWhile_eq_Nil_conv)
  then show ?case by (simp add: takeWhile_filter_dropWhile)
qed

end
