(* ===== verification/Click_Task.thy ===== *)
theory Click_Task
  imports Query_Task Ip_Area
begin

text \<open>
  Model of core/logic/click_query_task.h and click_query_task.cpp: a click records where it came from under a new source
  id, fills the macros of the landing URL and redirects there.
\<close>

section \<open>Recording the source\<close>

definition generateSourceId :: "query_env \<Rightarrow> string" where
  "generateSourceId E = (case counter (store E) of None \<Rightarrow> [] | Some bs \<Rightarrow> SourceId_record (aero E) bs)"

definition recordSource :: "query_env \<Rightarrow> param_map \<Rightarrow> log_item \<Rightarrow> param_map \<times> effect list" where
  "recordSource E m l =
     (let ownerId = map_index m (kname E URL_ADOWNER_ID); sourceId = generateSourceId E
      in if userId l = [] \<or> ownerId = [] then (m, [])
         else if sourceId = [] then (m, [])
         else let m = m(''source_id'' \<mapsto> sourceId);
                  sourceRecord = SourceRecord (aero E) (\<lambda>k. map_index m (kname E k)) l
              in if \<not> put_ok (store E) then (m, [])
                 else (m, PutSource (cstr sourceId) sourceRecord #
                   (if index_ok (store E) then [PutIndex (cstr (userId l @ ownerId)) (SourceId_bins (aero E) sourceId)] else [])))"

section \<open>The landing URL\<close>

text \<open>\<open>paramMap["advid"] = paramMap[URL_ADOWNER_ID]\<close> and so on, in this order.\<close>

definition macro_params :: "query_env \<Rightarrow> string \<Rightarrow> param_map \<Rightarrow> param_map" where
  "macro_params E ip m =
     (let set = (\<lambda>(name, k) m. m(name \<mapsto> map_index m (kname E k)));
          m = fold set [(''advid'', URL_ADOWNER_ID), (''pid'', URL_MTTYADPLACE_ID), (''adxpid'', URL_ADPLACE_ID),
                (''bid'', URL_CREATIVE_ID), (''sid'', URL_EXEC_ID), (''idfa'', URL_DEVICE_IDFA), (''imei'', URL_DEVICE_IMEI),
                (''mac'', URL_DEVICE_MAC), (''androidid'', URL_DEVICE_ANDOROIDID), (''xid'', URL_ADX_ID)] m
      in set (''geoid'', URL_AREA_ID) (m(''ip'' \<mapsto> ip)))"

text \<open>The loop over the buffer: copy up to an opening brace, then put the value of the name up to the closing one; without
  a closing brace the rest is dropped.\<close>

function expand_macros :: "param_map \<Rightarrow> string \<Rightarrow> string" where
  "expand_macros m p1 =
     (let lit = takeWhile (\<lambda>c. c \<noteq> CHR ''{'') p1; r = dropWhile (\<lambda>c. c \<noteq> CHR ''{'') p1
      in if r = [] then lit
         else let name = takeWhile (\<lambda>c. c \<noteq> CHR ''}'') (tl r); p2 = dropWhile (\<lambda>c. c \<noteq> CHR ''}'') (tl r)
              in if p2 = [] then lit else lit @ cstr (map_index m name) @ expand_macros m (tl p2))"
  by pat_completeness auto
termination
proof (relation "measure (\<lambda>(m, s). length s)")
  fix m :: param_map and p1 lit r name p2 :: string
  assume r: "r = dropWhile (\<lambda>c. c \<noteq> CHR ''{'') p1" "r \<noteq> []" and p2: "p2 = dropWhile (\<lambda>c. c \<noteq> CHR ''}'') (tl r)"
  have "length p2 \<le> length (tl r)" unfolding p2 by (rule length_dropWhile_le)
  also have "\<dots> < length r" using r(2) by simp
  also have "\<dots> \<le> length p1" unfolding r(1) by (rule length_dropWhile_le)
  finally show "((m, tl p2), (m, p1)) \<in> measure (\<lambda>(m, s). length s)" by simp
qed simp

declare expand_macros.simps [simp del]

text \<open>\<open>replace\<close> of the file: the first occurrence.\<close>

definition replace_first :: "string \<Rightarrow> string \<Rightarrow> string \<Rightarrow> string" where
  "replace_first str from to = (case str_find str from 0 of None \<Rightarrow> str | Some pos \<Rightarrow> str_replace str pos (length from) to)"

definition encoded_macros :: "param_map \<Rightarrow> string \<Rightarrow> string" where
  "encoded_macros m s =
     fold (\<lambda>(from, name) s. replace_first s from (map_index m name))
       [(''%7badvid%7d'', ''advid''), (''%7Badvid%7D'', ''advid''), (''%7bidfa%7d'', ''idfa''), (''%7Bidfa%7D'', ''idfa''),
        (''%7bsource_id%7d'', ''source_id''), (''%7Bsource_id%7D'', ''source_id'')] s"

text \<open>Both buffers have 1024 bytes, a terminating zero included.\<close>

definition handleLandingUrl :: "query_env \<Rightarrow> query_task \<Rightarrow> log_item \<Rightarrow> param_map \<Rightarrow> (log_item \<times> param_map) result" where
  "handleLandingUrl E q l m =
     (let m = macro_params E (userIp q) m; url = landingUrl (adInfo l); result = expand_macros m (cstr url)
      in if 1024 \<le> length url then Inl MemoryFault
         else if 1024 \<le> length result then Inl MemoryFault
         else Inr (l\<lparr>adInfo := (adInfo l)\<lparr>landingUrl := encoded_macros m result\<rparr>\<rparr>, m))"

section \<open>The task\<close>

text \<open>The area of the address is looked up only for a message.\<close>

definition click_custom ::
  "ip_manager \<Rightarrow> query_env \<Rightarrow> query_task \<Rightarrow> param_map \<Rightarrow> log_item \<Rightarrow> http_response \<Rightarrow>
   http_response \<times> effect list \<times> (log_item \<times> bool) result" where
  "click_custom mgr E q m l resp =
     (let finish = (\<lambda>l. bind_result (getAreaCodeStrByIp mgr (cstr (userIp q))) (\<lambda>clickIpArea. Inr (l, needLog q)))
      in if landingUrl (adInfo l) \<noteq> [] then
           let (m, es) = recordSource E m l
           in case handleLandingUrl E q l m of
                Inl e \<Rightarrow> (resp, IncreaseClick # es, Inl e)
              | Inr (l, m) \<Rightarrow>
                  (set_body ''m'' (response_set ''Location'' (landingUrl (adInfo l)) (set_status 302 ''OK'' resp)),
                   IncreaseClick # es @
                     (case stol (map_index m (kname E URL_ORDER_ID)) of Inr n \<Rightarrow> [IncrOrder n] | Inl e \<Rightarrow> []),
                   finish l)
         else (set_status 400 ''Error,empty landing url'' resp, [IncreaseClick], finish l))"

text \<open>\<open>get\<close> is \<open>HTTP_REQUEST_GET\<close>.\<close>

definition click_task :: "int \<Rightarrow> ip_manager \<Rightarrow> virtuals" where
  "click_task get mgr =
     \<lparr>currentPhase = CLICK, v_reqMethod = get, expectedReqStatus = 302, v_filter = filterParamMapSafe,
      getPostParam = \<lambda>_ m. Inr m, customLogic = click_custom mgr, onError = \<lambda>_ resp. resp\<rparr>"

section \<open>The contract of the own logic\<close>

lemma pushes_recordSource: "pushes (snd (recordSource E m l)) = []"
  by (simp add: recordSource_def Let_def)

lemma handleLandingUrl_log:
  "handleLandingUrl E q l m = Inr (l', m') \<Longrightarrow> \<exists>u. l' = l\<lparr>adInfo := (adInfo l)\<lparr>landingUrl := u\<rparr>\<rparr>"
  by (auto simp: handleLandingUrl_def Let_def split: if_splits)

lemma click_custom_log:
  assumes "click_custom mgr E q m l resp = (resp', es, Inr (l', need))"
  shows "\<exists>u. l' = l\<lparr>adInfo := (adInfo l)\<lparr>landingUrl := u\<rparr>\<rparr>"
proof -
  have same: "\<exists>u. k = k\<lparr>adInfo := (adInfo k)\<lparr>landingUrl := u\<rparr>\<rparr>" for k :: log_item
    by (rule exI [of _ "landingUrl (adInfo k)"]) simp
  from assms show ?thesis
    by (auto simp: click_custom_def Let_def bind_result_eq_Inr dest: handleLandingUrl_log intro: same
        split: if_splits prod.splits sum.splits)
qed

interpretation click: task_logic "click_task (wrap32 get) mgr" for get mgr
proof
  show "is_int32 (v_reqMethod (click_task (wrap32 get) mgr))" "is_int32 (expectedReqStatus (click_task (wrap32 get) mgr))"
    by (simp_all add: click_task_def int_range) (simp add: is_int32_def int_limits)
  fix l E q m resp resp' es l' need r e
  show "pushes es = []" if "customLogic (click_task (wrap32 get) mgr) E q m l resp = (resp', es, r)"
    using that pushes_recordSource [of E m l]
    by (auto simp: click_task_def click_custom_def Let_def split: if_splits prod.splits sum.splits)
  show "onError (click_task (wrap32 get) mgr) e resp = resp" by (simp add: click_task_def)
  assume "log_valid l" "customLogic (click_task (wrap32 get) mgr) E q m l resp = (resp', es, Inr (l', need))"
  then show "log_valid l' \<and> logType l' = logType l"
    using click_custom_log [of mgr E q m l resp resp' es l' need] by (auto simp: click_task_def log_valid_def ad_valid_def)
qed

section \<open>Clicks are logged\<close>

lemma click_need:
  "click_custom mgr E q m l resp = (resp', es, Inr (l', need)) \<Longrightarrow> need = needLog q"
  by (auto simp: click_custom_def Let_def bind_result_eq_Inr split: if_splits prod.splits sum.splits)

text \<open>C2: a click that is answered is either refused with status 500, and then nothing is logged, or exactly one log
  item of the click phase is pushed, as an important one, and the pushed bytes decode to it.\<close>

theorem click_logged_once:
  assumes "avro_ok (lib_avro E)" "is_int64 now" "own \<or> named"
    "run_query E (click_task (wrap32 get) mgr) own named now idSeq (AbstractQueryTask req) resp = Some (Inr (resp', es))"
  shows "respStatus resp' = 500 \<and> pushes es = [] \<or>
    (\<exists>l. logType l = CLICK \<and> log_valid l \<and> pushes es = [(log_encode (lib_avro E) (\<lambda>_. None) l, True)] \<and>
       log_decode (lib_avro E) (\<lambda>_. None) log_new (log_encode (lib_avro E) (\<lambda>_. None) l) = Inr (l, []))"
proof -
  have imp: "isBussinessLogImportant (currentPhase (click_task (wrap32 get) mgr))" "currentPhase (click_task (wrap32 get) mgr) = CLICK"
    by (simp_all add: click_task_def isBussinessLogImportant_def)
  from assms(4) show ?thesis
  proof (cases rule: run_query_cases)
    case (finished m l r1 es2 k need)
    have "click_custom mgr E (AbstractQueryTask req) m l r1 = (resp', es2, Inr (k, need))"
      using finished(2) by (simp add: click_task_def)
    from click_need [OF this] have "need" by (simp add: AbstractQueryTask_def)
    then have "pushes es \<noteq> []" using finished(3) assms(3) by (auto simp: doLog_def Let_def)
    with click.run_logged [OF assms(1,2,4)] imp show ?thesis by auto
  next
    case (common e)
    then show ?thesis
      by (simp add: error_response_def click.error_only_logged set_content_header_def response_set_def set_status_def)
  next
    case (custom m l r1 r2 e)
    then show ?thesis using click.custom_silent [OF custom(2)]
      by (simp add: error_response_def click.error_only_logged set_content_header_def response_set_def set_status_def)
  qed
qed

section \<open>The redirection\<close>

text \<open>A landing URL as a sequence of texts and macros.\<close>

datatype piece = Txt string | Mac string

fun piece_ok :: "piece \<Rightarrow> bool" where
  "piece_ok (Txt s) \<longleftrightarrow> CHR ''{'' \<notin> set s" | "piece_ok (Mac n) \<longleftrightarrow> CHR ''}'' \<notin> set n"

fun piece_text :: "piece \<Rightarrow> string" where
  "piece_text (Txt s) = s" | "piece_text (Mac n) = ''{'' @ n @ ''}''"

fun piece_value :: "param_map \<Rightarrow> piece \<Rightarrow> string" where
  "piece_value m (Txt s) = s" | "piece_value m (Mac n) = cstr (map_index m n)"

lemma while_append:
  assumes "c \<notin> set s"
  shows "takeWhile (\<lambda>x. x \<noteq> c) (s @ r) = s @ takeWhile (\<lambda>x. x \<noteq> c) r" "dropWhile (\<lambda>x. x \<noteq> c) (s @ r) = dropWhile (\<lambda>x. x \<noteq> c) r"
  using assms by (induction s) auto

lemma expand_text:
  assumes "CHR ''{'' \<notin> set s"
  shows "expand_macros m (s @ r) = s @ expand_macros m r"
  unfolding expand_macros.simps [of m "s @ r"] while_append [OF assms] Let_def
  by (subst (2) expand_macros.simps) (simp only: Let_def append_assoc if_distrib [of "append s"])

lemma expand_macro:
  assumes "CHR ''}'' \<notin> set n"
  shows "expand_macros m (''{'' @ n @ ''}'' @ r) = cstr (map_index m n) @ expand_macros m r"
  by (subst expand_macros.simps) (simp add: while_append [OF assms] Let_def)

lemma expand_pieces:
  "list_all piece_ok ps \<Longrightarrow> expand_macros m (concat (map piece_text ps)) = concat (map (piece_value m) ps)"
proof (induction ps)
  case Nil
  show ?case by (simp add: expand_macros.simps)
next
  case (Cons p ps)
  then show ?case by (cases p) (use expand_text expand_macro in simp_all)
qed

text \<open>C15: the own logic of a click on a landing URL made of texts and macros, as long as the URL fits the buffer before
  and after, leaves a response that redirects there with every macro replaced by its parameter.\<close>

theorem click_redirects:
  assumes "list_all piece_ok ps" "landingUrl (adInfo l) = concat (map piece_text ps)" "landingUrl (adInfo l) \<noteq> []"
    "NUL \<notin> set (landingUrl (adInfo l))" "length (landingUrl (adInfo l)) < 1024"
    "mm = macro_params E (userIp q) (fst (recordSource E m l))" "length (concat (map (piece_value mm) ps)) < 1024"
    "map_ok (resp_headers resp)"
  shows "let r = fst (click_custom mgr E q m l resp) in
    respStatus r = 302 \<and> response_get r ''Location'' = encoded_macros mm (concat (map (piece_value mm) ps))"
proof -
  obtain m' es where rs: "recordSource E m l = (m', es)" by force
  have "expand_macros mm (cstr (landingUrl (adInfo l))) = concat (map (piece_value mm) ps)"
    using assms(1,2,4) by (simp add: cstr_id expand_pieces)
  then have "handleLandingUrl E q l m' = Inr (l\<lparr>adInfo := (adInfo l)\<lparr>landingUrl :=
      encoded_macros mm (concat (map (piece_value mm) ps))\<rparr>\<rparr>, mm)"
    using assms(5-7) rs by (simp add: handleLandingUrl_def Let_def)
  then show ?thesis
    using assms(3,8) rs
    by (simp add: click_custom_def Let_def set_body_def set_status_def response_get_def response_set_def find_header_assign)
qed

text \<open>The filled URL is not checked against its buffer: two macros with a parameter of 512 characters overrun it.\<close>

lemma landing_overflow:
  assumes "m (kname E URL_ADOWNER_ID) = Some (replicate 512 CHR ''a'')" "landingUrl (adInfo l) = ''{advid}{advid}''"
  shows "handleLandingUrl E q l m = Inl MemoryFault"
proof -
  have "map_index (macro_params E (userIp q) m) ''advid'' = replicate 512 CHR ''a''"
    using assms(1) by (simp add: macro_params_def map_index_def)
  moreover have "cstr (landingUrl (adInfo l)) = concat (map piece_text [Mac ''advid'', Mac ''advid''])"
    using assms(2) by simp
  ultimately show ?thesis
    using expand_pieces [of "[Mac ''advid'', Mac ''advid'']" "macro_params E (userIp q) m"]
    by (simp add: handleLandingUrl_def Let_def cstr_id)
qed

section \<open>Samples\<close>

definition sample_manager :: ip_manager where
  "sample_manager = \<lparr>ipdb = sample_db, areaDict = Map.empty, started = True\<rparr>"

lemma sample_area: "getAreaCodeStrByIp sample_manager (ipIntToString ip) = Inr ''0086-0-0''"
  by (simp add: getAreaCodeStrByIp_def getAreaNameByIp_def sample_manager_def ipDataFind_lookup [OF sample_db_ok])

definition sample_click :: http_request where
  "sample_click = request_set ''X-Forwarded-For'' (ipIntToString 0x08080808) request_new"

lemma sample_click_task:
  "AbstractQueryTask sample_click = \<lparr>userCookies = [], q_userAgent = [], userIp = ipIntToString 0x08080808, q_data = [],
     q_referer = [], isPost = False, needLog = True\<rparr>"
  by (simp add: AbstractQueryTask_def sample_click_def request_set_def request_new_def http_cookie_def http_user_agent_def
      remote_addr_def http_referer_def request_method_def query_string_def request_get_def find_header_def)

lemma parse_nothing:
  "parseObjectToLogItem sample_env Map.empty l =
     Inr (l\<lparr>adInfo := fst (calcPrice sample_prices (adxid (adInfo l)) False 0 0 (Fin 1) [] (logType l) 0 1 ((adInfo l)\<lparr>priceType := 0\<rparr>))\<rparr>)"
proof -
  have no: "param sample_env Map.empty k = None" for k by (simp add: param_def)
  have "exec_steps steps_before_price sample_env Map.empty l = (l\<lparr>adInfo := (adInfo l)\<lparr>priceType := 0\<rparr>\<rparr>, None)"
    "exec_steps steps_after_price sample_env Map.empty k = (k, None)" for k
    by (simp_all add: steps_before_price_def steps_after_price_def on_param_def on_ad_def on_device_def
        parse_landing_def parse_referer_def parse_area_def parse_priceType_def no)
  moreover have "parse_price sample_env Map.empty k = (k\<lparr>adInfo := fst (calcPrice sample_prices (adxid (adInfo k)) False 0 0
      (Fin 1) [] (logType k) (priceType (adInfo k)) 1 (adInfo k))\<rparr>, None)" for k
    by (simp add: parse_price_def Let_def winning_price_def parse_deal_def parse_offer_def parse_feeRate_def parse_detail_def
        parse_buyType_def no case_prod_beta calcPrice_throws) (simp add: sample_env_def sample_prices_def)
  ultimately show ?thesis by (simp add: parseObjectToLogItem_def parse_params_def)
qed

lemma calc_landing [simp]: "landingUrl (fst (calcPrice P x d p off r det ph t b ad)) = landingUrl ad"
  by (simp add: calcPrice_def Let_def split: log_phase_type.split)

lemma sample_click_run:
  "\<exists>resp' es. run_query sample_env (click_task (wrap32 1) sample_manager) True False 5 (1, 2) (AbstractQueryTask sample_click) (response_new 0) =
     Some (Inr (resp', es)) \<and> respStatus resp' = 400"
proof -
  have par: "query_params sample_env CLICK [] = Some (Inr Map.empty)"
    by (simp add: query_params_def getParamv2_def parse_start_def parse_finish_def)
  have fil: "filterParamMapSafe sample_env Map.empty = Map.empty" by (simp add: filterParamMapSafe_def)
  have nul: "cstr (ipIntToString 0x08080808) = ipIntToString 0x08080808"
    by (rule cstr_id) (auto simp: ipIntToString_def to_string_no_NUL)
  show ?thesis
    unfolding sample_click_task run_query_def commonLogic_def
    by (simp add: click_task_def par fil parse_nothing click_custom_def Let_def log_new_def ad_new_def sample_area nul
        set_status_def case_prod_beta)
qed

theorem click_logged_once_witness:
  "\<exists>resp' es. run_query sample_env (click_task (wrap32 1) sample_manager) True False 5 (1, 2) (AbstractQueryTask sample_click)
      (response_new 0) = Some (Inr (resp', es)) \<and>
    (\<exists>l. logType l = CLICK \<and> pushes es = [(log_encode sample_avro (\<lambda>_. None) l, True)])"
proof -
  obtain resp' es where run: "run_query sample_env (click_task (wrap32 1) sample_manager) True False 5 (1, 2)
      (AbstractQueryTask sample_click) (response_new 0) = Some (Inr (resp', es))" and st: "respStatus resp' = 400"
    using sample_click_run by blast
  have avro: "lib_avro sample_env = sample_avro" by (simp add: sample_env_def)
  show ?thesis
    using click_logged_once [OF _ _ _ run, unfolded avro, OF sample_avro_ok] run st by (auto simp: is_int64_def int_limits)
qed

definition sample_landing :: log_item where
  "sample_landing = log_new\<lparr>adInfo := ad_new\<lparr>landingUrl := ''http://a.b/?i={ip}&d={advid}''\<rparr>\<rparr>"

definition sample_visitor :: query_task where
  "sample_visitor = \<lparr>userCookies = [], q_userAgent = [], userIp = ''8.8.8.8'', q_data = [], q_referer = [], isPost = False, needLog = True\<rparr>"

theorem click_redirects_witness:
  "let r = fst (click_custom sample_manager sample_env sample_visitor [''d'' \<mapsto> ''42''] sample_landing (response_new 0)) in
    respStatus r = 302 \<and> response_get r ''Location'' = ''http://a.b/?i=8.8.8.8&d=42''"
proof -
  let ?ps = "[Txt ''http://a.b/?i='', Mac ''ip'', Txt ''&d='', Mac ''advid'']"
  let ?mm = "macro_params sample_env (userIp sample_visitor) (fst (recordSource sample_env [''d'' \<mapsto> ''42''] sample_landing))"
  have rs: "recordSource sample_env [''d'' \<mapsto> ''42''] sample_landing = ([''d'' \<mapsto> ''42''], [])"
    by (simp add: recordSource_def sample_landing_def log_new_def)
  have v: "map_index ?mm ''ip'' = ''8.8.8.8''" "map_index ?mm ''advid'' = ''42''"
    unfolding rs by (simp_all add: macro_params_def map_index_def sample_env_def sample_kname_def sample_visitor_def)
  have "encoded_macros ?mm ''http://a.b/?i=8.8.8.8&d=42'' = ''http://a.b/?i=8.8.8.8&d=42''"
    by (simp add: encoded_macros_def replace_first_def str_find_def)
  then show ?thesis
    using click_redirects [of ?ps sample_landing ?mm sample_env sample_visitor "[''d'' \<mapsto> ''42'']" "response_new 0" sample_manager]
    by (simp add: sample_landing_def v [unfolded sample_landing_def] response_new_def)
qed

end
