(* ===== verification/Trace_Task.thy ===== *)
theory Trace_Task
  imports Click_Task
begin

text \<open>
  Model of core/logic/trace_task.h and trace_task.cpp: a call from the advertiser's page is attributed to the click it
  follows, found by its source id or by the user and the advertiser, and reported to the log service.
\<close>

section \<open>Filling the log item\<close>

definition TRACE_ID_ARRIVE :: int where "TRACE_ID_ARRIVE = 5"

definition deviceTypes :: "string list" where
  "deviceTypes = [''idfa'', ''imei'', ''androidId'', ''mac'']"

definition fill_trace :: "param_map \<Rightarrow> string \<Rightarrow> string \<Rightarrow> string \<Rightarrow> trace_info \<Rightarrow> trace_info" where
  "fill_trace m ver dev srcId t =
     t\<lparr>version := ver, trace_deviceType := dev, sourceid := srcId, tag1 := map_index m ''t1'', tag2 := map_index m ''t2'',
       tag3 := map_index m ''t3'', tag4 := map_index m ''t4'', tag5 := map_index m ''t5'', tag6 := map_index m ''t6'',
       tag7 := map_index m ''t7'', tag8 := map_index m ''t8'', tag9 := map_index m ''t9'', tag10 := map_index m ''t10''\<rparr>"

definition fill_ad :: "source_record \<Rightarrow> ad_info \<Rightarrow> ad_info" where
  "fill_ad r ad =
     ad\<lparr>advId := safe_stoi (sr_advId r), adxpid := sr_adxPid r, pid := sr_pid r, areaId := sr_geoId r,
       bannerId := safe_stoi (sr_createId r), sid := safe_stoi (sr_sid r), bidPrice := safe_stoi (sr_bidPrice r),
       adxid := safe_stoi (sr_adxId r), ppid := safe_stoi (sr_ppId r), orderId := safe_stoi (sr_oId r),
       priceType := safe_stoi (sr_priceType r), mid := safe_stoi (sr_mId r), imp_id := sr_impId r\<rparr>"

definition fillLog :: "param_map \<Rightarrow> source_record \<Rightarrow> string \<Rightarrow> string \<Rightarrow> string \<Rightarrow> log_item \<Rightarrow> log_item result" where
  "fillLog m r ver dev srcId l =
     (let l = l\<lparr>traceInfo := fill_trace m ver dev srcId (traceInfo l)\<rparr>
      in if sr_time r \<noteq> 0 then
           bind_result (extractAreaInfo (sr_geoId r)) (\<lambda>(co, pr, ci).
             Inr (l\<lparr>adInfo := fill_ad r (adInfo l),
               geoInfo := (geoInfo l)\<lparr>geo_info.country := co, geo_info.province := pr, geo_info.city := ci\<rparr>\<rparr>))
         else Inr l)"

section \<open>The report\<close>

definition arg :: "string \<Rightarrow> string \<Rightarrow> string" where
  "arg name v = (if v \<noteq> [] then ''&'' @ name @ ''='' @ v else [])"

definition aliLog :: "log_item \<Rightarrow> source_record \<Rightarrow> string \<Rightarrow> string \<Rightarrow> string \<Rightarrow> string" where
  "aliLog l r ownerId srcId requestTypeStr =
     (let t = traceInfo l in
      ''http://mtty.cn-beijing-vpc.log.aliyuncs.com/logstores/mt-log/track.gif?APIVersion=0.6.0&t='' @ to_string (timeStamp l) @
      arg ''v'' (version t) @ arg ''d'' ownerId @ arg ''k'' (trace_deviceType t) @
      (if traceId l = TRACE_ID_ARRIVE then ''&y='' @ to_string (traceId l) else arg ''y'' requestTypeStr) @
      arg ''g'' srcId @ arg ''t1'' (tag1 t) @ arg ''t2'' (tag2 t) @ arg ''t3'' (tag3 t) @ arg ''t4'' (tag4 t) @ arg ''t5'' (tag5 t) @
      arg ''t6'' (tag6 t) @ arg ''t7'' (tag7 t) @ arg ''t8'' (tag8 t) @ arg ''t9'' (tag9 t) @ arg ''t10'' (tag10 t) @
      arg ''a'' (sr_geoId r) @ arg ''b'' (sr_bidPrice r) @ arg ''c'' (sr_createId r) @ arg ''e'' (sr_sid r) @
      arg ''r'' (sr_requestId r) @ arg ''s'' (sr_adxPid r) @ arg ''x'' (sr_adxId r) @ arg ''o'' (sr_pid r) @
      arg ''ep'' (sr_ppId r) @ arg ''od'' (sr_oId r) @ arg ''pt'' (sr_priceType r) @ arg ''u'' (userId l))"

section \<open>The task\<close>

text \<open>The source id of the query, or the one stored for the user and the advertiser.\<close>

definition trace_source :: "query_env \<Rightarrow> param_map \<Rightarrow> log_item \<Rightarrow> string" where
  "trace_source E m l =
     (let srcId = map_index m ''g'' in
      if srcId \<noteq> [] then srcId
      else case get_index (store E) (cstr (userId l @ map_index m (kname E URL_ADOWNER_ID))) of
             Some bs \<Rightarrow> SourceId_record (aero E) bs | None \<Rightarrow> [])"

text \<open>The first device of the user that is known, for an activation.\<close>

fun find_device :: "(string \<Rightarrow> string \<times> string) \<Rightarrow> string list \<Rightarrow> (string \<times> string) option" where
  "find_device f [] = None"
| "find_device f (d # ds) =
     (case f d of (outer, origin) \<Rightarrow>
        if outer \<noteq> [] \<or> origin \<noteq> [] then Some (if origin = [] then outer else origin, d) else find_device f ds)"

definition trace_device :: "query_env \<Rightarrow> string \<Rightarrow> source_record \<Rightarrow> param_map \<Rightarrow> param_map" where
  "trace_device E requestTypeStr r m =
     (if requestTypeStr = ''14'' \<and> sr_mtUid r \<noteq> [] then
        case find_device (device_mapping (store E) (sr_mtUid r)) deviceTypes of
          Some (v, d) \<Rightarrow> m(''t1'' \<mapsto> v, ''t2'' \<mapsto> d) | None \<Rightarrow> m
      else m)"

text \<open>The difference of the two time stamps, in seconds, does not overflow.\<close>

definition trace_custom ::
  "query_env \<Rightarrow> query_task \<Rightarrow> param_map \<Rightarrow> log_item \<Rightarrow> http_response \<Rightarrow>
   http_response \<times> effect list \<times> (log_item \<times> bool) result" where
  "trace_custom E q m l resp =
     (let ownerId = map_index m (kname E URL_ADOWNER_ID); requestTypeStr = map_index m ''y''; ver = map_index m ''v'';
          dev = map_index m ''k''; srcId = trace_source E m l;
          l = l\<lparr>traceId := safe_stoi requestTypeStr\<rparr>;
          found = (if srcId \<noteq> [] then get_source (store E) (cstr srcId) else None);
          r = (case found of Some bs \<Rightarrow> SourceRecord_record (aero E) bs | None \<Rightarrow> SourceRecord_new);
          l = (if found \<noteq> None \<and> requestTypeStr = ''6'' \<and> timeStamp l - sr_time r \<le> 10 then l\<lparr>traceId := TRACE_ID_ARRIVE\<rparr> else l);
          m = (if srcId \<noteq> [] then trace_device E requestTypeStr r m else m);
          es = [if srcId \<noteq> [] then IncreaseTraceSuccess else IncreaseTraceFailed]
      in case fillLog m r ver dev srcId l of
           Inl e \<Rightarrow> (resp, es, Inl e)
         | Inr l \<Rightarrow>
             let aliLogUrl = aliLog l r ownerId srcId requestTypeStr
             in (set_body (httpGet (store E) (cstr aliLogUrl)) (set_status 200 ''OK'' resp), es @ [FetchUrl (cstr aliLogUrl)],
                 Inr (l, needLog q)))"

definition trace_task :: "int \<Rightarrow> virtuals" where
  "trace_task get =
     \<lparr>currentPhase = TRACK, v_reqMethod = get, expectedReqStatus = 302, v_filter = filterParamMapSafe,
      getPostParam = \<lambda>_ m. Inr m, customLogic = trace_custom, onError = \<lambda>_ resp. resp\<rparr>"

section \<open>The contract of the own logic\<close>

lemma int32_int64: "is_int32 v \<Longrightarrow> is_int64 v"
  by (simp add: is_int32_def is_int64_def int_limits)

lemma fillLog_valid:
  assumes "log_valid l" "fillLog m r ver dev srcId l = Inr l'"
  shows "log_valid l' \<and> logType l' = logType l"
  using assms
  by (auto simp: fillLog_def Let_def bind_result_eq_Inr log_valid_def ad_valid_def geo_valid_def fill_ad_def trace_valid_def
      int_range int32_int64 dest: extractAreaInfo_range split: if_splits)

lemma trace_custom_log:
  assumes "trace_custom E q m l resp = (resp', es, Inr (l', need))"
  shows "\<exists>t m' r ver dev s. is_int32 t \<and> fillLog m' r ver dev s (l\<lparr>traceId := t\<rparr>) = Inr l'"
proof -
  have "is_int32 TRACE_ID_ARRIVE" by (simp add: TRACE_ID_ARRIVE_def is_int32_def int_limits)
  then show ?thesis using assms
    by (auto simp: trace_custom_def Let_def split: sum.splits if_splits) (use safe_stoi_range in blast)+
qed

interpretation trace: task_logic "trace_task (wrap32 get)" for get
proof
  show "is_int32 (v_reqMethod (trace_task (wrap32 get)))" "is_int32 (expectedReqStatus (trace_task (wrap32 get)))"
    by (simp_all add: trace_task_def int_range) (simp add: is_int32_def int_limits)
  fix l E q m resp resp' es l' need r e
  show "pushes es = []" if "customLogic (trace_task (wrap32 get)) E q m l resp = (resp', es, r)"
    using that by (auto simp: trace_task_def trace_custom_def Let_def split: if_splits sum.splits)
  show "onError (trace_task (wrap32 get)) e resp = resp" by (simp add: trace_task_def)
  assume l: "log_valid l" and "customLogic (trace_task (wrap32 get)) E q m l resp = (resp', es, Inr (l', need))"
  then obtain t m' r ver dev s where t: "is_int32 t" "fillLog m' r ver dev s (l\<lparr>traceId := t\<rparr>) = Inr l'"
    using trace_custom_log [of E q m l resp resp' es l' need] by (auto simp: trace_task_def)
  then show "log_valid l' \<and> logType l' = logType l"
    using fillLog_valid [OF _ t(2)] l by (simp add: log_valid_def)
qed

section \<open>Attribution\<close>

lemma SourceId_stored: "aerospike_ok A \<Longrightarrow> SourceId_record A (SourceId_bins A v) = cstr v"
  by (simp add: SourceId_record_def SourceId_bins_def aerospike_ok_def)

lemma recordSource_stored:
  assumes "recordSource E m l = (m1, es)" "PutSource k bs \<in> set es" "PutIndex k' bs' \<in> set es"
  shows "\<exists>s. k = cstr s \<and> bs = SourceRecord (aero E) (\<lambda>u. map_index m1 (kname E u)) l \<and>
    k' = cstr (userId l @ map_index m (kname E URL_ADOWNER_ID)) \<and> bs' = SourceId_bins (aero E) s"
  using assms by (auto simp: recordSource_def Let_def split: if_splits)

text \<open>What a trace call takes from the record it finds.\<close>

lemma trace_from_record:
  assumes "trace_custom E q m l resp = (resp', es, Inr (l', need))" "trace_source E m l = k" "k \<noteq> []"
    "get_source (store E) (cstr k) = Some bs" "SourceRecord_record (aero E) bs = r" "sr_time r \<noteq> 0"
  shows "sourceid (traceInfo l') = k \<and> adInfo l' = fill_ad r (adInfo l)"
  using assms
  by (auto simp: trace_custom_def Let_def fillLog_def bind_result_eq_Inr fill_trace_def split: sum.splits if_splits)

text \<open>C10: a trace call of the user and the advertiser of a click that was stored, without a source id of its own, is
  attributed to that click: it is logged with the click's source id, campaign data and prices.  The exposure id is
  lost, because the click's record had no room for it.\<close>

theorem trace_follows_click:
  assumes "aerospike_ok (aero E)" "aero E' = aero E" "kname E' = kname E"
    "recordSource E m l = (m1, es)" "PutSource k bs \<in> set es" "PutIndex k' bs' \<in> set es" "k \<noteq> []" "timeStamp l \<noteq> 0"
    "get_source (store E') k = Some bs" "get_index (store E') k' = Some bs'"
    "userId l' = userId l" "map_index m' ''g'' = []"
    "map_index m' (kname E' URL_ADOWNER_ID) = map_index m (kname E URL_ADOWNER_ID)"
    "trace_custom E' q m' l' resp = (resp', es', Inr (l2, need))"
  shows "let p = (\<lambda>u. cstr (map_index m1 (kname E u))); ad = adInfo l2 in
    sourceid (traceInfo l2) = k \<and> advId ad = safe_stoi (p URL_ADOWNER_ID) \<and> sid ad = safe_stoi (p URL_EXEC_ID) \<and>
    bannerId ad = safe_stoi (p URL_CREATIVE_ID) \<and> adxid ad = safe_stoi (p URL_ADX_ID) \<and> orderId ad = safe_stoi (p URL_ORDER_ID) \<and>
    bidPrice ad = safe_stoi (p URL_BID_PRICE) \<and> priceType ad = safe_stoi (p URL_PRICE_TYPE) \<and> adxpid ad = p URL_ADPLACE_ID \<and>
    imp_id ad = []"
proof -
  obtain s where s: "k = cstr s" "bs = SourceRecord (aero E) (\<lambda>u. map_index m1 (kname E u)) l"
    "k' = cstr (userId l @ map_index m (kname E URL_ADOWNER_ID))" "bs' = SourceId_bins (aero E) s"
    using recordSource_stored [OF assms(4-6)] by blast
  have src: "trace_source E' m' l' = k"
    using s assms(2,3,10-13) SourceId_stored [OF assms(1)] by (simp add: trace_source_def)
  have k: "cstr k = k" using s(1) by (simp add: cstr_id)
  show ?thesis
    using trace_from_record [OF assms(14) src assms(7) _ refl] assms(1,2,8,9) k s(2)
    by (simp add: source_record_stored fill_ad_def)
qed

section \<open>Samples\<close>

definition sample_params :: param_map where
  "sample_params = [''d'' \<mapsto> ''42'', ''e'' \<mapsto> ''7'', ''other'' \<mapsto> ''1-2-3'']"

definition sample_clicked :: log_item where
  "sample_clicked = log_new\<lparr>userId := ''U1'', timeStamp := 5\<rparr>"

definition sample_stored :: as_bins where
  "sample_stored = SourceRecord sample_aerospike (\<lambda>u. map_index (sample_params(''source_id'' \<mapsto> ''000000000007'')) (sample_kname u)) sample_clicked"

text \<open>The environment in which the store has what the click put there.\<close>

definition sample_after :: query_env where
  "sample_after = sample_env\<lparr>store := sample_replies\<lparr>
     get_index := (\<lambda>k. if k = ''U142'' then Some (SourceId_bins sample_aerospike ''000000000007'') else None),
     get_source := (\<lambda>k. if k = ''000000000007'' then Some sample_stored else None)\<rparr>\<rparr>"

lemma sample_recorded:
  "recordSource sample_env sample_params sample_clicked =
     (sample_params(''source_id'' \<mapsto> ''000000000007''),
      [PutSource ''000000000007'' sample_stored, PutIndex ''U142'' (SourceId_bins sample_aerospike ''000000000007'')])"
proof -
  have "source_id_text 7 = ''000000000007''" by (simp add: source_id_text_def pad_left_def nat_to_hex.simps numeral_eq_Suc)
  then have "generateSourceId sample_env = ''000000000007''"
    by (simp add: generateSourceId_def sample_env_def sample_replies_def SourceId_record_def sample_aerospike_def)
  moreover have "map_index sample_params (kname sample_env URL_ADOWNER_ID) = ''42''" "kname sample_env = sample_kname"
    "aero sample_env = sample_aerospike" "put_ok (store sample_env)" "index_ok (store sample_env)"
    by (simp_all add: sample_params_def map_index_def sample_env_def sample_kname_def sample_replies_def)
  ultimately show ?thesis
    by (simp add: recordSource_def Let_def sample_stored_def cstr_def) (simp add: sample_clicked_def)
qed

lemma sample_area_text: "extractAreaInfo ''1-2-3'' = Inr (1, 2, 3)"
  by (simp add: extractAreaInfo_def area_token_def cstr_def atoi_def strtol_value_def is_space_char_def is_digit_char_def
      digits_val_def digit_val_def int_limits wrap32_def)

lemma trace_returns:
  assumes "trace_source E m l = k" "k \<noteq> []" "get_source (store E) (cstr k) = Some bs"
    "extractAreaInfo (sr_geoId (SourceRecord_record (aero E) bs)) = Inr area"
  shows "\<exists>resp' es l2. trace_custom E q m l resp = (resp', es, Inr (l2, needLog q))"
proof -
  have "\<exists>l2. fillLog m' (SourceRecord_record (aero E) bs) ver dev k l' = Inr l2" for m' ver dev l'
    using assms(4) by (cases area) (simp add: fillLog_def Let_def)
  then show ?thesis using assms(1-3)
    by (auto simp: trace_custom_def Let_def split: sum.split) (metis sum.distinct(1))+
qed

theorem trace_follows_click_witness:
  "\<exists>resp' es l2 need. trace_custom sample_after sample_visitor sample_params sample_clicked (response_new 0) = (resp', es, Inr (l2, need)) \<and>
     sourceid (traceInfo l2) = ''000000000007'' \<and> sid (adInfo l2) = safe_stoi ''7''"
proof -
  have A: "aerospike_ok (aero sample_env)" "aero sample_after = aero sample_env" "kname sample_after = kname sample_env"
    by (simp_all add: sample_env_def sample_after_def sample_aerospike_ok)
  have g: "map_index sample_params ''g'' = []" by (simp add: map_index_def sample_params_def)
  have src: "trace_source sample_after sample_params sample_clicked = ''000000000007''"
    using SourceId_stored [OF sample_aerospike_ok]
    by (simp add: trace_source_def g) (simp add: sample_after_def sample_env_def sample_clicked_def sample_params_def map_index_def sample_kname_def cstr_def)
  have geo: "sr_geoId (SourceRecord_record sample_aerospike sample_stored) = ''1-2-3''"
    by (simp add: sample_stored_def source_record_stored [OF sample_aerospike_ok] map_index_def sample_params_def sample_kname_def cstr_def)
  have "get_source (store sample_after) ''000000000007'' = Some sample_stored" "aero sample_after = sample_aerospike"
    by (simp_all add: sample_after_def sample_env_def)
  then obtain resp' es l2 where run:
    "trace_custom sample_after sample_visitor sample_params sample_clicked (response_new 0) = (resp', es, Inr (l2, needLog sample_visitor))"
    using trace_returns [OF src, of sample_stored "(1, 2, 3)" sample_visitor "response_new 0"]
    by (auto simp: cstr_def geo sample_area_text)
  have "sourceid (traceInfo l2) = ''000000000007'' \<and> sid (adInfo l2) = safe_stoi ''7''"
    using trace_follows_click [OF A sample_recorded _ _ _ _ _ _ _ g _ run]
    by (simp add: Let_def) (simp add: sample_after_def sample_env_def sample_clicked_def sample_params_def map_index_def sample_kname_def cstr_def)
  with run show ?thesis by blast
qed

end
