(* ===== verification/Spec2Isabelle.thy ===== *)
theory Spec2Isabelle
  imports Cypher Url_Cipher Executor Escape Template_Engine Dictionaries Trace_Task
begin

text \<open>
  A verification development for the ad server of Nginx4AdServer.  The server's own code is
  src/src/adservice/adservice; in the paths below, \<open>service/\<close> is
  src/src/adservice/adservice/service.  An exchange asks the server for a bid; the server answers with links
  that carry ciphered parameters, is called back on show and click with those links, decodes the winning price
  the exchange appended, fills a log record and pushes it to a log queue.

  \<^bold>\<open>Conventions.\<close>  A \<open>std::string\<close> is a list of characters, an array of \<open>uchar_t\<close> a list of 8-bit words.  A signed
  integer is an \<open>int\<close> whose range is an invariant (\<open>is_int32\<close>, \<open>is_int64\<close>) and whose wrap-around is written out
  (\<open>wrap32\<close>) where it can overflow; an unsigned one, and one whose bits are used, is a word, and so are the 64 bits of a
  stored \<open>double\<close>.  An exception is a value of \<open>cxx_error\<close>; \<open>MemoryFault\<close> stands for an access outside an array, which no
  handler catches.  Code outside the repository (CryptoPP, OpenSSL, the Avro library, Aerospike, cppcms,
  the headers \<open>mtty/*\<close>) enters as an argument; what is used of it is a named predicate, and every property with
  such a hypothesis has a witness on a concrete instance.

  \<^bold>\<open>Theories and the parts they model.\<close>
    \<^item> \<open>Prelude\<close>, \<open>Codec\<close>, \<open>Bin_Search\<close>, \<open>Machine\<close>, \<open>Std_Map\<close>, \<open>Struct_Codec\<close>: what the components share.  \<open>Prelude\<close>
      has the C++ library functions on strings and numbers; \<open>Codec\<close> self-delimiting byte codes; \<open>Machine\<close>
      reachability, invariants and simulation; \<open>Std_Map\<close> the ordered and the hashed map as instances of one
      dictionary contract; \<open>Struct_Codec\<close> the encoder and decoder the Avro generator writes for a struct.
    \<^item> \<open>Cypher\<close>: service/utility/cypher.cpp and cypher.h.  Hexadecimal conversions, the cookie cipher with its
      shipped tables, and the generator of new tables.  The decoder accepts exactly the encoded cookies.
    \<^item> \<open>Url_Codec\<close>, \<open>Url_Param\<close>, \<open>Url_Helper\<close>, \<open>Url_Cipher\<close>: service/utility/url.cpp and url.h.  Percent coding, the
      two query parsers, the class \<open>URLHelper\<close> with its binary parameter format and its ciphered links, and the
      splitting of a URL.  A ciphered link is read back, the table-driven coder equals the plain one, and
      what the parsers return is stated for every query printed from plain pairs.
    \<^item> \<open>Executor\<close>: service/core/core_executor.cpp and .h.  The thread pool is a step relation
      over program counters of workers, clients and the stopper; its runs refine those of a bounded buffer, the mutex
      is exclusive, no wake-up is lost, and \<open>stop\<close> can hang.
    \<^item> \<open>Escape\<close>, \<open>Template_Engine\<close>: service/utility/escape.cpp and template_engine.cpp.
    \<^item> \<open>Ip_Address\<close>, \<open>Ip_Area\<close>: service/utility/utility.h, core/core_scenario_manager.cpp and
      core/core_ip_manager.cpp with the lookup in the IP database.
    \<^item> \<open>Dictionaries\<close>: service/core/core_ad_sizemap.cpp and core_typetable.cpp.
    \<^item> \<open>Log_Item\<close>: service/protocol/log/log.h, all structs with their Avro codecs and the union.
    \<^item> \<open>Price_Hmac\<close>, \<open>Price_Codes\<close>: the decoders of winning prices in service/protocol.
    \<^item> \<open>Rijndael_Tables\<close>, \<open>Rijndael\<close>, \<open>Sohu_Price\<close>: the class \<open>CRijndael\<close> of service/protocol/sohu/sohu_price.cpp with its
      shipped tables and three modes, and the decoder built on it.
    \<^item> \<open>Floating\<close>: the \<open>float\<close> and \<open>double\<close> of the machine, exact rationals with rounding, and glibc's \<open>strtod\<close>.
    \<^item> \<open>Http\<close>: service/utility/http.h and http.cpp.
    \<^item> \<open>Pricing\<close>: the price functions of service/core/logic/abstract_query_task.cpp.
    \<^item> \<open>Source_Id\<close>: service/core/model/source_id.cpp and .h.
    \<^item> \<open>Query_Task\<close>: the rest of service/core/logic/abstract_query_task.cpp and .h, the frame of every request: from the
      HTTP request to the parameter map, the log item, the user's cookie and the pushed bytes.  It composes the URL
      helper, the price decoders, the log item and the HTTP classes.  The locale \<open>task_logic\<close> is what the frame
      needs of a task's own logic.
    \<^item> \<open>Click_Task\<close>: service/core/logic/click_query_task.cpp and .h, an instance of \<open>task_logic\<close>.
    \<^item> \<open>Trace_Task\<close>: service/core/logic/trace_task.cpp and .h, another instance: a call from the advertiser's page is
      attributed to the click whose source record it finds.

  \<^bold>\<open>What the lemmas show.\<close>  Each theory states first the laws its definitions obey (round trips, the value on
  every branch), then the properties.  Locales carry the contracts: \<open>codec\<close> and \<open>struct_codec\<close> (what
  is encoded is decoded, and the rest of the input is left), \<open>dictionary\<close> (lookup after insertion), \<open>machine\<close>
  (an invariant kept by all steps holds in every reachable state) and \<open>implements\<close> (a simulation).  Each is
  interpreted on the definitions of the component that provides it.  So are \<open>pair_parser\<close> (the two query parsers),
  \<open>round_keys\<close> (what a block cipher's rounds need of the key schedule) and \<open>task_logic\<close>.

  \<^bold>\<open>Loops and bounds.\<close>  Loops are recursive functions with a termination proof.  \<open>url_replace_all\<close> need not end
  and is a partial function into \<open>option\<close>; that it returns in the calls the server makes is proved.  The buffer sizes are those of the source: 2048 characters for links, 1024 for
  escaped log records.

  \<^bold>\<open>Not modelled.\<close>  The nginx core and its modules (src/src/core, src/src/event, src/src/http and so on: the
  unchanged web server); the generated protocol buffer code of the exchanges (*.pb.cpp, *.pb.h) and the bidding handlers,
  which consist of calls to those generated accessors; the own logic of the show, mapping and tool tasks; the log
  pusher, the ad selection client, the cookie mapping and the user client, which are threads and network clients
  and whose answers are parameters here; service/libutil, the wrappers of the operating system and of boost in
  service/utility, start-up, logging and the stand-alone tools.
\<close>

end
